(* ===== verification/Rust_Prelude.thy ===== *)
theory Rust_Prelude
  imports Main "HOL-Library.Word"
begin

text \<open>
  What every component of the model shares: the machine integers of the source
  (\<open>u8\<close> to \<open>u128\<close> as words of that width), the checked and saturating arithmetic of
  Rust's integer types with the lemmas that read each operation back in \<^typ>\<open>nat\<close>, the
  \<open>Result\<close> type as a sum, and little-endian byte codecs.

  Facts that turn a word expression into arithmetic on \<^typ>\<open>nat\<close> are collected in
  \<open>unat_ops\<close>; component proofs are mostly \<open>simp add: unat_ops\<close> followed by linear
  arithmetic. Equations for evaluating a closed call are collected in \<open>evals\<close>: each has no
  \<open>let\<close>, so the simplifier computes the arguments before it unfolds a function.
\<close>

named_theorems unat_ops
named_theorems result_ops
named_theorems evals

section \<open>Machine integers\<close>

text \<open>Words are read with \<open>unat\<close> throughout, also under \<open>int\<close>.\<close>

declare of_nat_unat [simp del]

type_synonym u8 = "8 word"
type_synonym u16 = "16 word"
type_synonym u32 = "32 word"
type_synonym u64 = "64 word"
type_synonym u128 = "128 word"
type_synonym bytes = "u8 list"

text \<open>\<open>uN::MAX\<close>.\<close>

abbreviation word_max :: "'a::len word" where
  "word_max \<equiv> - 1"

abbreviation u64_max :: nat where
  "u64_max \<equiv> 2 ^ 64 - 1"

text \<open>
  Saturation at the top of a \<open>w\<close>-bit type, on \<^typ>\<open>nat\<close>. It is a constant of its own, not a
  \<open>min\<close>, so that linear arithmetic does not split on it unless asked to.
\<close>

definition sat :: "nat \<Rightarrow> nat \<Rightarrow> nat" where
  "sat w x = min x (2 ^ w - 1)"

lemma sat_le [simp]: "sat w x \<le> x"
  by (simp add: sat_def)

lemma sat_bound: "sat w x \<le> 2 ^ w - 1"
  by (simp add: sat_def)

lemma sat_id: "x < 2 ^ w \<Longrightarrow> sat w x = x"
  by (simp add: sat_def)

lemma sat_mono: "x \<le> y \<Longrightarrow> sat w x \<le> sat w y"
  by (simp add: sat_def min_le_iff_disj)

lemma le_sat_iff: "k \<le> sat w x \<longleftrightarrow> k \<le> x \<and> k < 2 ^ w"
proof -
  have "k \<le> 2 ^ w - 1 \<longleftrightarrow> k < 2 ^ w"
    by (simp add: Suc_le_eq [symmetric] le_diff_conv2)
  then show ?thesis by (simp add: sat_def)
qed

text \<open>The operations of Rust's unsigned integers that the source calls.\<close>

definition checked_add :: "'a::len word \<Rightarrow> 'a word \<Rightarrow> 'a word option" where
  "checked_add a b = (if unat a + unat b < 2 ^ LENGTH('a) then Some (a + b) else None)"

definition checked_sub :: "'a::len word \<Rightarrow> 'a word \<Rightarrow> 'a word option" where
  "checked_sub a b = (if b \<le> a then Some (a - b) else None)"

definition checked_mul :: "'a::len word \<Rightarrow> 'a word \<Rightarrow> 'a word option" where
  "checked_mul a b = (if unat a * unat b < 2 ^ LENGTH('a) then Some (a * b) else None)"

definition saturating_add :: "'a::len word \<Rightarrow> 'a word \<Rightarrow> 'a word" where
  "saturating_add a b = (if unat a + unat b < 2 ^ LENGTH('a) then a + b else word_max)"

definition saturating_sub :: "'a::len word \<Rightarrow> 'a word \<Rightarrow> 'a word" where
  "saturating_sub a b = (if b \<le> a then a - b else 0)"

definition saturating_mul :: "'a::len word \<Rightarrow> 'a word \<Rightarrow> 'a word" where
  "saturating_mul a b = (if unat a * unat b < 2 ^ LENGTH('a) then a * b else word_max)"

lemma unat_word_max [unat_ops]: "unat (word_max :: 'a::len word) = 2 ^ LENGTH('a) - 1"
  by (simp add: unsigned_minus_1_eq_mask mask_eq_exp_minus_1)

lemma unat_less_pow [simp]: "unat (a :: 'a::len word) < 2 ^ LENGTH('a)"
  by (rule unsigned_less)

lemma unat_le_max: "unat (a :: 'a::len word) \<le> 2 ^ LENGTH('a) - 1"
  using unsigned_less [of a, where 'a = nat] by linarith

lemma unat_u64_le [simp]: "unat (a :: u64) \<le> u64_max"
  using unat_le_max [of a] by simp

lemma unat_add_nowrap:
  "unat a + unat (b :: 'a::len word) < 2 ^ LENGTH('a) \<Longrightarrow> unat (a + b) = unat a + unat b"
  by (simp add: unat_word_ariths)

lemma unat_mul_nowrap:
  "unat a * unat (b :: 'a::len word) < 2 ^ LENGTH('a) \<Longrightarrow> unat (a * b) = unat a * unat b"
  by (simp add: unat_word_ariths)

lemma unat_sub_nowrap: "b \<le> a \<Longrightarrow> unat (a - b) = unat a - unat (b :: 'a::len word)"
  by (rule unat_sub)

lemma checked_add_Some_iff:
  "checked_add a b = Some (c :: 'a::len word) \<longleftrightarrow> unat c = unat a + unat b"
proof (cases "unat a + unat b < 2 ^ LENGTH('a)")
  case True
  then show ?thesis
    by (auto simp: checked_add_def unat_add_nowrap word_unat_eq_iff)
next
  case False
  moreover have "unat c < 2 ^ LENGTH('a)" by (rule unat_less_pow)
  ultimately have "unat c \<noteq> unat a + unat b" by linarith
  with False show ?thesis by (simp add: checked_add_def)
qed

lemma checked_add_None_iff:
  "checked_add a (b :: 'a::len word) = None \<longleftrightarrow> 2 ^ LENGTH('a) \<le> unat a + unat b"
  by (auto simp: checked_add_def)

lemma checked_sub_Some_iff:
  "checked_sub a b = Some (c :: 'a::len word) \<longleftrightarrow> unat a = unat b + unat c"
  unfolding checked_sub_def
  by (auto simp: word_le_nat_alt unat_sub word_unat_eq_iff split: if_splits)

lemma checked_sub_None_iff:
  "checked_sub a (b :: 'a::len word) = None \<longleftrightarrow> unat a < unat b"
  by (auto simp: checked_sub_def word_le_nat_alt)

lemma checked_mul_Some_iff:
  "checked_mul a b = Some (c :: 'a::len word) \<longleftrightarrow> unat c = unat a * unat b"
proof (cases "unat a * unat b < 2 ^ LENGTH('a)")
  case True
  then show ?thesis
    by (auto simp: checked_mul_def unat_mul_nowrap word_unat_eq_iff)
next
  case False
  moreover have "unat c < 2 ^ LENGTH('a)" by (rule unat_less_pow)
  ultimately have "unat c \<noteq> unat a * unat b" by linarith
  with False show ?thesis by (simp add: checked_mul_def)
qed

lemma unat_saturating_add [unat_ops]:
  "unat (saturating_add a (b :: 'a::len word)) = sat LENGTH('a) (unat a + unat b)"
  by (auto simp: sat_def saturating_add_def unat_add_nowrap unat_word_max)

lemma unat_saturating_sub [unat_ops]:
  "unat (saturating_sub a (b :: 'a::len word)) = unat a - unat b"
  by (auto simp: saturating_sub_def word_le_nat_alt unat_sub)

lemma unat_saturating_mul [unat_ops]:
  "unat (saturating_mul a (b :: 'a::len word)) = sat LENGTH('a) (unat a * unat b)"
  by (auto simp: sat_def saturating_mul_def unat_mul_nowrap unat_word_max)

lemma unat_min [unat_ops]: "unat (min a (b :: 'a::len word)) = min (unat a) (unat b)"
  by (simp add: min_def word_le_nat_alt)

lemma unat_max [unat_ops]: "unat (max a (b :: 'a::len word)) = max (unat a) (unat b)"
  by (simp add: max_def word_le_nat_alt)

lemma unat_word_div [unat_ops]: "unat (a div (b :: 'a::len word)) = unat a div unat b"
  by (rule unat_div_distrib)

text \<open>\<open>u64::try_from(x).unwrap_or(u64::MAX)\<close> for an \<open>x: u128\<close>.\<close>

definition u64_try_from_or_max :: "u128 \<Rightarrow> u64" where
  "u64_try_from_or_max x = (if unat x < 2 ^ 64 then ucast x else word_max)"

lemma unat_u64_try_from_or_max [unat_ops]:
  "unat (u64_try_from_or_max x) = sat 64 (unat x)"
  by (auto simp: sat_def u64_try_from_or_max_def unsigned_ucast_eq take_bit_nat_eq_self_iff unat_word_max)

lemma unat_u32_as_u64 [unat_ops]: "unat (ucast (x :: u32) :: u64) = unat x"
proof -
  have "unat x < 2 ^ 32" using unsigned_less [of x, where 'a = nat] by simp
  then show ?thesis by (simp add: unsigned_ucast_eq take_bit_nat_eq_self_iff)
qed

lemma unat_u64_as_u128 [unat_ops]: "unat (ucast (x :: u64) :: u128) = unat x"
proof -
  have "unat x < 2 ^ 64" using unsigned_less [of x, where 'a = nat] by simp
  then show ?thesis by (simp add: unsigned_ucast_eq take_bit_nat_eq_self_iff)
qed

lemmas word_order_unat [unat_ops] = word_le_nat_alt word_less_nat_alt

lemmas int_op_evals [evals] =
  checked_add_def checked_sub_def checked_mul_def saturating_add_def saturating_sub_def saturating_mul_def
  u64_try_from_or_max_def unat_word_max

section \<open>Results\<close>

type_synonym ('e, 'a) result = "'e + 'a"

abbreviation Err :: "'e \<Rightarrow> ('e, 'a) result" where
  "Err \<equiv> Inl"

abbreviation Ok :: "'a \<Rightarrow> ('e, 'a) result" where
  "Ok \<equiv> Inr"

text \<open>The \<open>?\<close> operator: an error ends the function, a value goes on.\<close>

definition rbind :: "('e, 'a) result \<Rightarrow> ('a \<Rightarrow> ('e, 'b) result) \<Rightarrow> ('e, 'b) result" where
  "rbind m f = (case m of Inl e \<Rightarrow> Inl e | Inr x \<Rightarrow> f x)"

lemma rbind_simps [simp, result_ops]:
  "rbind (Inl e) f = Inl e"
  "rbind (Inr x) f = f x"
  by (simp_all add: rbind_def)

lemma rbind_Ok_iff [result_ops]:
  "rbind m f = Inr y \<longleftrightarrow> (\<exists>x. m = Inr x \<and> f x = Inr y)"
  by (cases m) simp_all

lemma rbind_Err_iff [result_ops]:
  "rbind m f = Inl e \<longleftrightarrow> m = Inl e \<or> (\<exists>x. m = Inr x \<and> f x = Inl e)"
  by (cases m) auto

definition is_ok :: "('e, 'a) result \<Rightarrow> bool" where
  "is_ok r = (case r of Inl _ \<Rightarrow> False | Inr _ \<Rightarrow> True)"

lemma is_ok_simps [simp]: "is_ok (Inr x)" "\<not> is_ok (Inl e)"
  by (simp_all add: is_ok_def)

lemma is_ok_iff: "is_ok r \<longleftrightarrow> (\<exists>x. r = Inr x)"
  by (cases r) simp_all

end
