(* ===== verification/Core_Error.thy ===== *)
theory Core_Error
  imports Rust_Prelude
begin

unbundle bit_operations_syntax

text \<open>
  The error type of the workspace, \<^verbatim>\<open>crates/tensor-wasm-core/src/error.rs\<close>: the variants
  of \<open>TensorWasmError\<close>, their classification, the correlation id with its FNV-1a digest, the
  scanner that masks pointers and paths before a vendor message reaches an operator log, and
  the shared quota predicate \<open>check_allocation\<close>. Rust strings are UTF-8 byte strings and the
  source scans bytes, so a string is an HOL \<^typ>\<open>string\<close>, a list of bytes.
\<close>

section \<open>Model\<close>

type_synonym tenant_id = u64

subsection \<open>I/O error kinds\<close>

text \<open>The kinds the source names; \<open>OtherKind\<close> is the rest of the non-exhaustive enum.\<close>

datatype io_kind =
    NotFound | PermissionDenied | ConnectionRefused | ConnectionReset | ConnectionAborted
  | NotConnected | AddrInUse | AddrNotAvailable | BrokenPipe | AlreadyExists | WouldBlock
  | InvalidInput | InvalidData | TimedOut | WriteZero | Interrupted | Unsupported
  | UnexpectedEof | OutOfMemory | OtherKind

fun io_kind_name :: "io_kind \<Rightarrow> string" where
  "io_kind_name NotFound = ''NotFound''"
| "io_kind_name PermissionDenied = ''PermissionDenied''"
| "io_kind_name ConnectionRefused = ''ConnectionRefused''"
| "io_kind_name ConnectionReset = ''ConnectionReset''"
| "io_kind_name ConnectionAborted = ''ConnectionAborted''"
| "io_kind_name NotConnected = ''NotConnected''"
| "io_kind_name AddrInUse = ''AddrInUse''"
| "io_kind_name AddrNotAvailable = ''AddrNotAvailable''"
| "io_kind_name BrokenPipe = ''BrokenPipe''"
| "io_kind_name AlreadyExists = ''AlreadyExists''"
| "io_kind_name WouldBlock = ''WouldBlock''"
| "io_kind_name InvalidInput = ''InvalidInput''"
| "io_kind_name InvalidData = ''InvalidData''"
| "io_kind_name TimedOut = ''TimedOut''"
| "io_kind_name WriteZero = ''WriteZero''"
| "io_kind_name Interrupted = ''Interrupted''"
| "io_kind_name Unsupported = ''Unsupported''"
| "io_kind_name UnexpectedEof = ''UnexpectedEof''"
| "io_kind_name OutOfMemory = ''OutOfMemory''"
| "io_kind_name OtherKind = ''Other''"

definition is_retryable_io_kind :: "io_kind \<Rightarrow> bool" where
  "is_retryable_io_kind k \<longleftrightarrow>
     k \<in> {WouldBlock, TimedOut, Interrupted, WriteZero, ConnectionReset, ConnectionAborted, BrokenPipe}"

subsection \<open>The error enum\<close>

datatype tensor_wasm_error =
    CudaError string
  | WasmTrap string
  | WasmCompile string
  | MemoryExhausted u64 u64 \<comment> \<open>requested, limit\<close>
  | GpuMemoryExhausted u64 u64 u64 \<comment> \<open>requested, limit, current\<close>
  | KernelTimeout u64 u64 \<comment> \<open>elapsed, deadline, in ms\<close>
  | TenantIsolationViolation tenant_id string
  | Io io_kind
  | Serialization string
  | SnapshotTooOld u64 u64 u64 \<comment> \<open>created, now, max age, in ms\<close>

fun is_retryable :: "tensor_wasm_error \<Rightarrow> bool" where
  "is_retryable (KernelTimeout _ _) = True"
| "is_retryable (MemoryExhausted _ _) = True"
| "is_retryable (Io k) = is_retryable_io_kind k"
| "is_retryable _ = False"

fun inner :: "tensor_wasm_error \<Rightarrow> string option" where
  "inner (CudaError s) = Some s"
| "inner (WasmTrap s) = Some s"
| "inner (WasmCompile s) = Some s"
| "inner (Serialization s) = Some s"
| "inner _ = None"

fun kind :: "tensor_wasm_error \<Rightarrow> string" where
  "kind (CudaError _) = ''cuda''"
| "kind (WasmTrap _) = ''wasm_trap''"
| "kind (WasmCompile _) = ''wasm_compile''"
| "kind (MemoryExhausted _ _) = ''memory_exhausted''"
| "kind (GpuMemoryExhausted _ _ _) = ''gpu_memory_exhausted''"
| "kind (KernelTimeout _ _) = ''kernel_timeout''"
| "kind (TenantIsolationViolation _ _) = ''tenant_isolation''"
| "kind (Io _) = ''io''"
| "kind (Serialization _) = ''serialization''"
| "kind (SnapshotTooOld _ _ _) = ''snapshot_too_old''"

subsection \<open>Correlation ids\<close>

definition FNV_OFFSET_BASIS :: u64 where
  "FNV_OFFSET_BASIS = 0xcbf29ce484222325"

definition FNV_PRIME :: u64 where
  "FNV_PRIME = 0x100000001b3"

definition fnv1a :: "string \<Rightarrow> u64" where
  "fnv1a s = foldl (\<lambda>h b. (h XOR of_char b) * FNV_PRIME) FNV_OFFSET_BASIS s"

text \<open>Decimal \<open>Display\<close> of an unsigned integer.\<close>

fun show_nat :: "nat \<Rightarrow> string" where
  "show_nat n = (if n < 10 then [char_of (48 + n)] else show_nat (n div 10) @ [char_of (48 + n mod 10)])"

declare show_nat.simps [simp del]

abbreviation show_u64 :: "u64 \<Rightarrow> string" where
  "show_u64 w \<equiv> show_nat (unat w)"

fun error_content :: "tensor_wasm_error \<Rightarrow> string" where
  "error_content (CudaError s) = s"
| "error_content (WasmTrap s) = s"
| "error_content (WasmCompile s) = s"
| "error_content (Serialization s) = s"
| "error_content (MemoryExhausted r l) = show_u64 r @ ''/'' @ show_u64 l"
| "error_content (GpuMemoryExhausted r l c) = show_u64 r @ ''/'' @ show_u64 l @ ''/'' @ show_u64 c"
| "error_content (KernelTimeout e d) = show_u64 e @ ''/'' @ show_u64 d"
| "error_content (TenantIsolationViolation t res) = show_u64 t @ ''/'' @ res"
| "error_content (Io k) = io_kind_name k"
| "error_content (SnapshotTooOld c n m) = show_u64 c @ ''/'' @ show_u64 n @ ''/'' @ show_u64 m"

definition error_buf :: "tensor_wasm_error \<Rightarrow> string" where
  "error_buf e = kind e @ [CHR 0x1f] @ error_content e"

definition error_id :: "tensor_wasm_error \<Rightarrow> u64" where
  "error_id e = fnv1a (error_buf e)"

subsection \<open>Redaction\<close>

definition LONG_HEX_THRESHOLD :: nat where
  "LONG_HEX_THRESHOLD = 16"

definition is_ascii_digit :: "char \<Rightarrow> bool" where
  "is_ascii_digit c \<longleftrightarrow> c \<in> set ''0123456789''"

definition is_hex_digit :: "char \<Rightarrow> bool" where
  "is_hex_digit c \<longleftrightarrow> is_ascii_digit c \<or> c \<in> set ''abcdef'' \<or> c \<in> set ''ABCDEF''"

definition is_ascii_alphabetic :: "char \<Rightarrow> bool" where
  "is_ascii_alphabetic c \<longleftrightarrow> (65 \<le> (of_char c :: nat) \<and> (of_char c :: nat) \<le> 90)
     \<or> (97 \<le> (of_char c :: nat) \<and> (of_char c :: nat) \<le> 122)"

definition is_ascii_whitespace :: "char \<Rightarrow> bool" where
  "is_ascii_whitespace c \<longleftrightarrow> c \<in> {CHR 0x20, CHR 0x09, CHR 0x0A, CHR 0x0C, CHR 0x0D}"

definition is_token_separator :: "char \<Rightarrow> bool" where
  "is_token_separator c \<longleftrightarrow> c \<in> set ''[](){}=,;''"

definition is_delimiter :: "char \<Rightarrow> bool" where
  "is_delimiter c \<longleftrightarrow> is_ascii_whitespace c \<or> is_token_separator c"

definition is_peelable_punct :: "char \<Rightarrow> bool" where
  "is_peelable_punct c \<longleftrightarrow> c \<in> set '':,;.()[]{}'' \<or> c \<in> {CHR 0x27, CHR 0x22, CHR 0x60}"

definition MASK :: string where
  "MASK = ''<redacted>''"

definition masked :: "string \<Rightarrow> bool" where
  "masked core \<longleftrightarrow>
     (length core > 2 \<and> core ! 0 = CHR ''0'' \<and> (core ! 1 = CHR ''x'' \<or> core ! 1 = CHR ''X'')
        \<and> list_all is_hex_digit (drop 2 core))
   \<or> (core ! 0 = CHR ''/'' \<and> CHR ''/'' \<in> set (drop 1 core))
   \<or> (length core > 3 \<and> is_ascii_alphabetic (core ! 0) \<and> core ! 1 = CHR '':''
        \<and> (core ! 2 = CHR 0x5C \<or> core ! 2 = CHR ''/''))
   \<or> (length core > 2 \<and> core ! 0 = CHR 0x5C \<and> core ! 1 = CHR 0x5C)
   \<or> (length core \<ge> LONG_HEX_THRESHOLD \<and> list_all is_hex_digit core)"

definition trim_end_matches :: "(char \<Rightarrow> bool) \<Rightarrow> string \<Rightarrow> string" where
  "trim_end_matches p s = rev (dropWhile p (rev s))"

definition trim_start_matches :: "(char \<Rightarrow> bool) \<Rightarrow> string \<Rightarrow> string" where
  "trim_start_matches p s = dropWhile p s"

definition redact_token :: "string \<Rightarrow> string" where
  "redact_token token =
     (let after_trailing = trim_end_matches is_peelable_punct token;
          suffix = drop (length after_trailing) token;
          core = trim_start_matches is_peelable_punct after_trailing;
          prefix = take (length after_trailing - length core) after_trailing
      in if core = [] then token
         else if masked core then prefix @ MASK @ suffix
         else token)"

function redact :: "string \<Rightarrow> string" where
  "redact [] = []"
| "redact (c # cs) =
     (if is_delimiter c then c # redact cs
      else redact_token (takeWhile (\<lambda>b. \<not> is_delimiter b) (c # cs))
             @ redact (dropWhile (\<lambda>b. \<not> is_delimiter b) (c # cs)))"
  by pat_completeness auto
termination
  by (relation "measure length") (auto simp: le_imp_less_Suc length_dropWhile_le)

definition redacted_inner :: "tensor_wasm_error \<Rightarrow> string option" where
  "redacted_inner e = map_option redact (inner e)"

definition redacted_inner_with_id :: "tensor_wasm_error \<Rightarrow> (u64 \<times> string) option" where
  "redacted_inner_with_id e = map_option (\<lambda>r. (error_id e, r)) (redacted_inner e)"

subsection \<open>The shared quota predicate\<close>

definition check_allocation :: "u64 \<Rightarrow> u64 \<Rightarrow> u64 \<Rightarrow> (tensor_wasm_error, unit) result" where
  "check_allocation current requested cap =
     (if (case checked_add current requested of None \<Rightarrow> False | Some new_total \<Rightarrow> new_total \<le> cap)
      then Ok () else Err (GpuMemoryExhausted requested cap current))"

section \<open>Redaction masks the documented shapes\<close>

text \<open>The tokens of a text, as the scanner delimits them, and what it looks at in each.\<close>

function tokens :: "string \<Rightarrow> string list" where
  "tokens [] = []"
| "tokens (c # cs) =
     (if is_delimiter c then tokens cs
      else takeWhile (\<lambda>b. \<not> is_delimiter b) (c # cs) # tokens (dropWhile (\<lambda>b. \<not> is_delimiter b) (c # cs)))"
  by pat_completeness auto
termination
  by (relation "measure length") (auto simp: le_imp_less_Suc length_dropWhile_le)

definition core_of :: "string \<Rightarrow> string" where
  "core_of t = trim_start_matches is_peelable_punct (trim_end_matches is_peelable_punct t)"

text \<open>
  The sensitive shapes, as the documentation of \<open>redacted_inner\<close> lists them: an address, a Unix
  path with a second slash, a Windows drive path, a UNC path, and a bare run of sixteen or more hex
  digits. A path with a single component and a URL are not among them.
\<close>

definition hex_run :: "string \<Rightarrow> bool" where
  "hex_run s \<longleftrightarrow> set s \<subseteq> set ''0123456789abcdefABCDEF''"

definition sensitive :: "string \<Rightarrow> bool" where
  "sensitive s \<longleftrightarrow>
     (\<exists>h. (s = ''0x'' @ h \<or> s = ''0X'' @ h) \<and> h \<noteq> [] \<and> hex_run h)
   \<or> (\<exists>a b. s = ''/'' @ a @ ''/'' @ b)
   \<or> (\<exists>d sep r. s = d # CHR '':'' # sep # r \<and> is_ascii_alphabetic d \<and> sep \<in> {CHR 0x5C, CHR ''/''} \<and> r \<noteq> [])
   \<or> (\<exists>r. s = CHR 0x5C # CHR 0x5C # r \<and> r \<noteq> [])
   \<or> (16 \<le> length s \<and> hex_run s)"

lemma hex_run_iff: "hex_run s \<longleftrightarrow> list_all is_hex_digit s"
proof -
  have "set ''0123456789abcdefABCDEF'' = set (''0123456789'' @ ''abcdef'' @ ''ABCDEF'')" by simp
  then have "c \<in> set ''0123456789abcdefABCDEF'' \<longleftrightarrow> is_hex_digit c" for c
    by (simp only: is_hex_digit_def is_ascii_digit_def set_append Un_iff)
  then show ?thesis unfolding hex_run_def list_all_iff by blast
qed

lemma sensitive_Nil [simp]: "\<not> sensitive []"
  by (simp add: sensitive_def)

lemma shape_address:
  "(length s > 2 \<and> s ! 0 = CHR ''0'' \<and> (s ! 1 = CHR ''x'' \<or> s ! 1 = CHR ''X'') \<and> list_all is_hex_digit (drop 2 s))
   \<longleftrightarrow> (\<exists>h. (s = ''0x'' @ h \<or> s = ''0X'' @ h) \<and> h \<noteq> [] \<and> hex_run h)"
proof (cases "\<exists>a b h. s = a # b # h")
  case True
  then obtain a b h where "s = a # b # h" by blast
  then show ?thesis by (auto simp: hex_run_iff)
next
  case False
  then have "\<not> length s > 2" by (cases s; cases "tl s") auto
  then show ?thesis using False by auto
qed

lemma shape_unix_path:
  "s \<noteq> [] \<Longrightarrow> (s ! 0 = CHR ''/'' \<and> CHR ''/'' \<in> set (drop 1 s)) \<longleftrightarrow> (\<exists>a b. s = ''/'' @ a @ ''/'' @ b)"
  by (cases s) (auto simp: in_set_conv_decomp)

lemma shape_drive_path:
  "(length s > 3 \<and> is_ascii_alphabetic (s ! 0) \<and> s ! 1 = CHR '':'' \<and> (s ! 2 = CHR 0x5C \<or> s ! 2 = CHR ''/''))
   \<longleftrightarrow> (\<exists>d sep r. s = d # CHR '':'' # sep # r \<and> is_ascii_alphabetic d \<and> sep \<in> {CHR 0x5C, CHR ''/''} \<and> r \<noteq> [])"
proof (cases "\<exists>a b c r. s = a # b # c # r")
  case True
  then obtain a b c r where "s = a # b # c # r" by blast
  then show ?thesis by (auto simp: numeral_2_eq_2)
next
  case False
  then have "\<not> length s > 3" by (cases s; cases "tl s"; cases "tl (tl s)") auto
  then show ?thesis using False by blast
qed

lemma shape_unc_path:
  "(length s > 2 \<and> s ! 0 = CHR 0x5C \<and> s ! 1 = CHR 0x5C) \<longleftrightarrow> (\<exists>r. s = CHR 0x5C # CHR 0x5C # r \<and> r \<noteq> [])"
proof (cases "\<exists>a b r. s = a # b # r")
  case True
  then obtain a b r where "s = a # b # r" by blast
  then show ?thesis by auto
next
  case False
  then have "\<not> length s > 2" by (cases s; cases "tl s") auto
  then show ?thesis using False by blast
qed

lemma masked_iff_sensitive:
  assumes "core \<noteq> []"
  shows "masked core \<longleftrightarrow> sensitive core"
  unfolding masked_def sensitive_def shape_address shape_unix_path [OF assms] shape_drive_path shape_unc_path
    LONG_HEX_THRESHOLD_def hex_run_iff ..

definition token_clean :: "string \<Rightarrow> bool" where
  "token_clean t \<longleftrightarrow> core_of t = [] \<or> \<not> masked (core_of t)"

abbreviation is_token :: "string \<Rightarrow> bool" where
  "is_token t \<equiv> t \<noteq> [] \<and> list_all (\<lambda>b. \<not> is_delimiter b) t"

declare redact.simps(2) [simp del] tokens.simps(2) [simp del]

lemma trim_end_split:
  obtains suf where "t = trim_end_matches p t @ suf" and "list_all p suf"
proof
  show "t = trim_end_matches p t @ rev (takeWhile p (rev t))"
    unfolding trim_end_matches_def by (metis rev_append rev_rev_ident takeWhile_dropWhile_id)
  show "list_all p (rev (takeWhile p (rev t)))"
    by (auto simp: list_all_iff dest: set_takeWhileD)
qed

lemma trim_end_append: "list_all p suf \<Longrightarrow> trim_end_matches p (xs @ suf) = trim_end_matches p xs"
  using dropWhile_append2 [of "rev suf" p "rev xs"] by (simp add: trim_end_matches_def list_all_iff)

lemma trim_end_id: "xs \<noteq> [] \<Longrightarrow> \<not> p (last xs) \<Longrightarrow> trim_end_matches p xs = xs"
  by (cases xs rule: rev_cases) (simp_all add: trim_end_matches_def)

text \<open>Every token is punctuation, the core, punctuation; masking replaces the core only.\<close>

lemma redact_token_cases:
  obtains (keep) "redact_token t = t" and "token_clean t"
  | (mask) pre suf where "t = pre @ core_of t @ suf" and "list_all is_peelable_punct pre"
      and "list_all is_peelable_punct suf" and "redact_token t = pre @ MASK @ suf"
proof (cases "token_clean t")
  case True
  then show thesis
    by (intro keep) (auto simp: redact_token_def token_clean_def core_of_def Let_def)
next
  case False
  let ?a = "trim_end_matches is_peelable_punct t"
  obtain suf where t: "t = ?a @ suf" and suf: "list_all is_peelable_punct suf"
    by (rule trim_end_split)
  let ?pre = "takeWhile is_peelable_punct ?a"
  have a: "?a = ?pre @ core_of t" by (simp add: core_of_def trim_start_matches_def)
  have pre: "take (length ?a - length (core_of t)) ?a = ?pre"
    by (metis a add_diff_cancel_right' append_eq_conv_conj length_append)
  have "drop (length ?a) t = suf" by (metis append_eq_conv_conj t)
  with False pre have "redact_token t = ?pre @ MASK @ suf"
    by (simp add: redact_token_def Let_def token_clean_def core_of_def [symmetric])
  moreover have "t = ?pre @ core_of t @ suf" using t a by (metis append.assoc)
  moreover have "list_all is_peelable_punct ?pre" by (auto simp: list_all_iff dest: set_takeWhileD)
  ultimately show thesis using suf by (intro mask)
qed

lemma MASK_facts:
  "MASK \<noteq> []" "list_all (\<lambda>b. \<not> is_delimiter b) MASK" "\<not> is_peelable_punct (hd MASK)"
  "\<not> is_peelable_punct (last MASK)" "\<not> masked MASK"
  by (simp_all add: MASK_def is_delimiter_def is_ascii_whitespace_def is_token_separator_def
      is_peelable_punct_def masked_def is_hex_digit_def is_ascii_digit_def)

lemma core_of_masked:
  assumes "list_all is_peelable_punct pre" and "list_all is_peelable_punct suf"
  shows "core_of (pre @ MASK @ suf) = MASK"
proof -
  have "trim_end_matches is_peelable_punct ((pre @ MASK) @ suf) = pre @ MASK"
    using MASK_facts by (simp only: trim_end_append [OF assms(2)]) (simp add: trim_end_id)
  moreover have "dropWhile is_peelable_punct MASK = MASK"
    using MASK_facts(1,3) by (simp add: dropWhile_eq_self_iff)
  ultimately show ?thesis
    using assms(1) by (simp add: core_of_def trim_start_matches_def list_all_iff dropWhile_append2)
qed

lemma redact_token_clean: "token_clean (redact_token t)"
proof (cases t rule: redact_token_cases)
  case keep
  then show ?thesis by simp
next
  case (mask pre suf)
  then show ?thesis by (simp add: token_clean_def core_of_masked MASK_facts)
qed

lemma redact_token_idem: "redact_token (redact_token t) = redact_token t"
  using redact_token_clean [of t]
  by (auto simp: redact_token_def [of "redact_token t"] token_clean_def core_of_def Let_def)

lemma redact_token_is_token: "is_token t \<Longrightarrow> is_token (redact_token t)"
proof (cases t rule: redact_token_cases)
  case keep
  then show "is_token t \<Longrightarrow> ?thesis" by simp
next
  case (mask pre suf)
  assume "is_token t"
  with mask(1) have "list_all (\<lambda>b. \<not> is_delimiter b) (pre @ core_of t @ suf)" by metis
  with mask(4) show ?thesis using MASK_facts by simp
qed

text \<open>How the scanner treats one token followed by the end or a delimiter.\<close>

lemma takeWhile_token:
  assumes "list_all p t" and "rest = [] \<or> \<not> p (hd rest)"
  shows "takeWhile p (t @ rest) = t" and "dropWhile p (t @ rest) = rest"
  using assms by (cases rest; simp add: list_all_iff takeWhile_append2 dropWhile_append2)+

lemma scan_token:
  assumes "is_token t" and "rest = [] \<or> is_delimiter (hd rest)"
  shows "redact (t @ rest) = redact_token t @ redact rest" and "tokens (t @ rest) = t # tokens rest"
proof -
  obtain c cs where t: "t = c # cs" "\<not> is_delimiter c" using assms(1) by (cases t) auto
  have "takeWhile (\<lambda>b. \<not> is_delimiter b) (t @ rest) = t" "dropWhile (\<lambda>b. \<not> is_delimiter b) (t @ rest) = rest"
    using assms by (simp_all add: takeWhile_token)
  then show "redact (t @ rest) = redact_token t @ redact rest" "tokens (t @ rest) = t # tokens rest"
    using t by (simp_all add: redact.simps(2) tokens.simps(2))
qed

lemma scan_delimiter:
  assumes "is_delimiter c"
  shows "redact (c # cs) = c # redact cs" and "tokens (c # cs) = tokens cs"
  using assms by (simp_all add: redact.simps(2) tokens.simps(2))

lemma redact_starts_with_delimiter:
  "rest = [] \<or> is_delimiter (hd rest) \<Longrightarrow> redact rest = [] \<or> is_delimiter (hd (redact rest))"
  by (cases rest) (simp_all add: scan_delimiter)

text \<open>Splitting a text into its first token and what follows it.\<close>

lemma scan_induct [case_names Nil Delim Token]:
  assumes "P []"
    and "\<And>c cs. is_delimiter c \<Longrightarrow> P cs \<Longrightarrow> P (c # cs)"
    and "\<And>t rest. is_token t \<Longrightarrow> rest = [] \<or> is_delimiter (hd rest) \<Longrightarrow> P rest \<Longrightarrow> P (t @ rest)"
  shows "P s"
proof (induction s rule: redact.induct)
  case 1
  show ?case by (rule assms(1))
next
  case (2 c cs)
  show ?case
  proof (cases "is_delimiter c")
    case True
    then show ?thesis using "2.IH"(1) assms(2) by blast
  next
    case False
    let ?t = "takeWhile (\<lambda>b. \<not> is_delimiter b) (c # cs)"
    let ?r = "dropWhile (\<lambda>b. \<not> is_delimiter b) (c # cs)"
    have "is_token ?t" using False by (auto simp: list_all_iff dest: set_takeWhileD)
    moreover have "?r = [] \<or> is_delimiter (hd ?r)" using hd_dropWhile [of "\<lambda>b. \<not> is_delimiter b" "c # cs"] by blast
    ultimately have "P (?t @ ?r)" using "2.IH"(2) [OF False] by (intro assms(3))
    then show ?thesis by (simp only: takeWhile_dropWhile_id)
  qed
qed

lemma tokens_redact: "tokens (redact s) = map redact_token (tokens s)"
proof (induction s rule: scan_induct)
  case Nil
  then show ?case by simp
next
  case (Delim c cs)
  then show ?case by (simp add: scan_delimiter)
next
  case (Token t rest)
  then show ?case
    by (simp add: scan_token redact_starts_with_delimiter redact_token_is_token)
qed

lemma redact_layout: "filter is_delimiter (redact s) = filter is_delimiter s"
proof (induction s rule: scan_induct)
  case Nil
  then show ?case by simp
next
  case (Delim c cs)
  then show ?case by (simp add: scan_delimiter)
next
  case (Token t rest)
  have "filter is_delimiter t = []" "filter is_delimiter (redact_token t) = []"
    using Token(1) redact_token_is_token [of t] by (simp_all add: list_all_iff filter_empty_conv)
  with Token show ?case by (simp add: scan_token)
qed

lemma token_clean_iff: "token_clean t \<longleftrightarrow> \<not> sensitive (core_of t)"
  by (cases "core_of t = []") (auto simp: token_clean_def masked_iff_sensitive)

text \<open>What redaction is to do with one token: the shape is masked, the punctuation around it stays.\<close>

definition mask_sensitive :: "string \<Rightarrow> string" where
  "mask_sensitive t =
     (if sensitive (core_of t)
      then takeWhile is_peelable_punct t @ MASK @ rev (takeWhile is_peelable_punct (rev t)) else t)"

lemma redact_token_spec: "redact_token t = mask_sensitive t"
proof (cases "sensitive (core_of t)")
  case False
  then have "token_clean t" by (simp add: token_clean_iff)
  then have "redact_token t = t" by (auto simp: redact_token_def token_clean_def core_of_def Let_def)
  then show ?thesis using False by (simp add: mask_sensitive_def)
next
  case True
  then have ne: "core_of t \<noteq> []" by (cases "core_of t = []") simp_all
  have m: "masked (core_of t)" using masked_iff_sensitive [OF ne] True by simp
  let ?a = "trim_end_matches is_peelable_punct t"
  have t: "t = ?a @ rev (takeWhile is_peelable_punct (rev t))"
    unfolding trim_end_matches_def by (metis rev_append rev_rev_ident takeWhile_dropWhile_id)
  then have suf: "drop (length ?a) t = rev (takeWhile is_peelable_punct (rev t))" by (metis append_eq_conv_conj)
  have a: "?a = takeWhile is_peelable_punct ?a @ core_of t" by (simp add: core_of_def trim_start_matches_def)
  then have pre: "take (length ?a - length (core_of t)) ?a = takeWhile is_peelable_punct ?a"
    by (metis add_diff_cancel_right' append_eq_conv_conj length_append)
  obtain x where x: "x \<in> set ?a" "\<not> is_peelable_punct x"
    using ne by (metis core_of_def dropWhile_eq_Nil_conv trim_start_matches_def)
  have "takeWhile is_peelable_punct t = takeWhile is_peelable_punct ?a"
    using takeWhile_append1 [of x ?a is_peelable_punct] x t by metis
  then show ?thesis
    using True ne m suf pre by (simp add: redact_token_def mask_sensitive_def Let_def core_of_def [symmetric])
qed

text \<open>
  C29: redaction masks exactly the documented shapes. The tokens of \<open>redact s\<close> are those of \<open>s\<close> in
  order; one whose core, with the punctuation around it peeled off, is an address, a path with two
  slashes, a drive or UNC path or a run of sixteen hex digits has the core replaced by the mask and
  keeps its punctuation, every other token is kept as it is; the delimiters are kept; and no token of
  the result has such a core.
\<close>

theorem redact_masks_exactly:
  "tokens (redact s) = map mask_sensitive (tokens s)
   \<and> filter is_delimiter (redact s) = filter is_delimiter s
   \<and> list_all (\<lambda>t. \<not> sensitive (core_of t)) (tokens (redact s))"
  using redact_layout [of s] redact_token_clean
  by (simp add: tokens_redact redact_token_spec [symmetric] list_all_iff token_clean_iff)

text \<open>Redaction is stable: running it on an already redacted message changes nothing.\<close>

theorem redact_idempotent: "redact (redact s) = redact s"
proof (induction s rule: scan_induct)
  case Nil
  then show ?case by simp
next
  case (Delim c cs)
  then show ?case by (simp add: scan_delimiter)
next
  case (Token t rest)
  then show ?case
    by (simp add: scan_token redact_starts_with_delimiter redact_token_is_token redact_token_idem)
qed

section \<open>Correlation ids identify the error\<close>

definition digit_val :: "char \<Rightarrow> nat" where
  "digit_val c = of_char c - 48"

definition read_nat :: "string \<Rightarrow> nat" where
  "read_nat s = foldl (\<lambda>n c. 10 * n + digit_val c) 0 s"

lemma digit_val_char [simp]: "d < 10 \<Longrightarrow> digit_val (char_of (48 + d)) = d"
  by (simp add: digit_val_def of_char_mod_256)

lemma read_show_nat [simp]: "read_nat (show_nat n) = n"
proof (induction n rule: show_nat.induct)
  case (1 n)
  show ?case
  proof (cases "n < 10")
    case True
    then show ?thesis by (simp add: show_nat.simps [of n] read_nat_def)
  next
    case False
    with "1.IH" have "read_nat (show_nat (n div 10)) = n div 10" by simp
    with False show ?thesis by (simp add: show_nat.simps [of n] read_nat_def)
  qed
qed

lemma show_nat_inj [simp]: "show_nat m = show_nat n \<longleftrightarrow> m = n"
  by (metis read_show_nat)

lemma slash_not_digit: "d < 10 \<Longrightarrow> char_of (48 + d :: nat) \<noteq> CHR ''/''"
proof
  assume d: "d < 10" and "char_of (48 + d) = CHR ''/''"
  then have "of_char (char_of (48 + d) :: char) = (47::nat)" by simp
  with d show False by (simp add: of_char_mod_256)
qed

lemma no_slash_show_nat: "CHR ''/'' \<notin> set (show_nat n)"
proof (induction n rule: show_nat.induct)
  case (1 n)
  show ?case
  proof (cases "n < 10")
    case True
    then have "show_nat n = [char_of (48 + n)]" by (simp only: show_nat.simps [of n] if_True)
    with slash_not_digit [OF True] show ?thesis by (metis empty_iff empty_set set_ConsD)
  next
    case False
    then have "show_nat n = show_nat (n div 10) @ [char_of (48 + n mod 10)]"
      by (simp only: show_nat.simps [of n] if_False)
    moreover have "char_of (48 + n mod 10 :: nat) \<noteq> CHR ''/''"
      by (rule slash_not_digit) (rule mod_less_divisor, rule zero_less_numeral)
    ultimately show ?thesis using "1.IH" [OF False] by (metis Un_iff empty_iff empty_set set_ConsD set_append)
  qed
qed

lemma append_Cons_eq_iff_both:
  assumes "x \<notin> set a" and "x \<notin> set b"
  shows "a @ x # xs = b @ x # ys \<longleftrightarrow> a = b \<and> xs = ys"
  using assms
proof (induction a arbitrary: b)
  case Nil
  then show ?case by (cases b) auto
next
  case (Cons y a)
  then show ?case by (cases b) auto
qed

lemma slash_split:
  assumes "CHR ''/'' \<notin> set a" and "CHR ''/'' \<notin> set b"
  shows "a @ CHR ''/'' # xs = b @ CHR ''/'' # ys \<longleftrightarrow> a = b \<and> xs = ys"
  using assms by (rule append_Cons_eq_iff_both)

lemmas show_slash [simp] = slash_split [OF no_slash_show_nat no_slash_show_nat]

lemma show_u64_inj [simp]: "show_u64 a = show_u64 b \<longleftrightarrow> a = b"
  by (simp add: word_unat_eq_iff)

lemma unit_separator_not_in_kind: "CHR 0x1f \<notin> set (kind e)"
  by (cases e) simp_all

lemma error_buf_eq_iff: "error_buf a = error_buf b \<longleftrightarrow> kind a = kind b \<and> error_content a = error_content b"
  using append_Cons_eq_iff_both [OF unit_separator_not_in_kind unit_separator_not_in_kind]
  by (simp add: error_buf_def)

lemma io_kind_name_inj: "io_kind_name a = io_kind_name b \<longleftrightarrow> a = b"
  by (cases a; cases b) simp_all

text \<open>
  The text an error id digests identifies the error: two errors with the same digest input
  are equal. The unit separator keeps the kinds apart and the slashes keep the numeric fields
  apart, so a correlation id can only confuse two errors through an FNV-1a collision.
\<close>

theorem error_buf_injective: "error_buf a = error_buf b \<longleftrightarrow> a = b"
  unfolding error_buf_eq_iff
  by (cases a; cases b) (simp_all add: io_kind_name_inj word_unat_eq_iff)

end
