(* ===== verification/Cas_Loop.thy ===== *)
theory Cas_Loop
  imports Rust_Prelude
begin

text \<open>
  The lock-free retry loop the counters of the program share: load an atomic \<open>u64\<close>, compute
  the next value or a refusal from the value observed, \<open>compare_exchange_weak\<close>, and start
  over with the value the failed exchange returned. The theory models the loop as threads
  that interleave on one cell, with one access to the cell per step, and shows once that every
  interleaving is equivalent to a sequence of atomic operations (the ghost \<open>log\<close>), with no
  lost update. The loop body is a parameter; the counters of the components instantiate it.
\<close>

section \<open>Threads on one atomic cell\<close>

text \<open>What the body decides from an observed value: the value to swap in, or a refusal.\<close>

datatype 'r verdict = Commit u64 'r | Refuse 'r

datatype ('op, 'r) pc =
    Idle
  | Called 'op
  | Looping 'op u64 \<comment> \<open>the value last observed, which the next exchange expects\<close>
  | Returning 'op 'r

record ('op, 'r) cas_state =
  cell :: u64
  pcs :: "nat \<Rightarrow> ('op, 'r) pc"
  log :: "(nat \<times> 'op \<times> 'r) list"

definition cas_init :: "u64 \<Rightarrow> ('op, 'r) cas_state" where
  "cas_init c = \<lparr>cell = c, pcs = (\<lambda>_. Idle), log = []\<rparr>"

text \<open>
  A weak exchange may fail although the cell holds the expected value; \<open>cas_retry\<close> and
  \<open>cas_refuse\<close> therefore do not ask whether the observed value is stale.
\<close>

inductive cas_step ::
    "('op \<Rightarrow> u64 \<Rightarrow> 'r verdict) \<Rightarrow> ('op, 'r) cas_state \<Rightarrow> ('op, 'r) cas_state \<Rightarrow> bool"
  for body :: "'op \<Rightarrow> u64 \<Rightarrow> 'r verdict" where
  call: "pcs s t = Idle \<Longrightarrow> cas_step body s (s\<lparr>pcs := (pcs s)(t := Called op)\<rparr>)"
| load: "pcs s t = Called op \<Longrightarrow> body op (cell s) = Commit c r \<Longrightarrow>
     cas_step body s (s\<lparr>pcs := (pcs s)(t := Looping op (cell s))\<rparr>)"
| load_refuse: "pcs s t = Called op \<Longrightarrow> body op (cell s) = Refuse r \<Longrightarrow>
     cas_step body s (s\<lparr>pcs := (pcs s)(t := Returning op r), log := log s @ [(t, op, r)]\<rparr>)"
| cas_ok: "pcs s t = Looping op (cell s) \<Longrightarrow> body op (cell s) = Commit c r \<Longrightarrow>
     cas_step body s (s\<lparr>cell := c, pcs := (pcs s)(t := Returning op r), log := log s @ [(t, op, r)]\<rparr>)"
| cas_retry: "pcs s t = Looping op v \<Longrightarrow> body op (cell s) = Commit c r \<Longrightarrow>
     cas_step body s (s\<lparr>pcs := (pcs s)(t := Looping op (cell s))\<rparr>)"
| cas_refuse: "pcs s t = Looping op v \<Longrightarrow> body op (cell s) = Refuse r \<Longrightarrow>
     cas_step body s (s\<lparr>pcs := (pcs s)(t := Returning op r), log := log s @ [(t, op, r)]\<rparr>)"
| return: "pcs s t = Returning op r \<Longrightarrow> cas_step body s (s\<lparr>pcs := (pcs s)(t := Idle)\<rparr>)"

inductive cas_reach ::
    "('op \<Rightarrow> u64 \<Rightarrow> 'r verdict) \<Rightarrow> u64 \<Rightarrow> ('op, 'r) cas_state \<Rightarrow> bool"
  for body :: "'op \<Rightarrow> u64 \<Rightarrow> 'r verdict" and c :: u64 where
  init: "cas_reach body c (cas_init c)"
| step: "cas_reach body c s \<Longrightarrow> cas_step body s s' \<Longrightarrow> cas_reach body c s'"

section \<open>Atomic execution\<close>

text \<open>The loop run without contention: one load, one successful exchange.\<close>

definition cas_atomic :: "('op \<Rightarrow> u64 \<Rightarrow> 'r verdict) \<Rightarrow> 'op \<Rightarrow> u64 \<Rightarrow> u64 \<times> 'r" where
  "cas_atomic body op c = (case body op c of Commit c' r \<Rightarrow> (c', r) | Refuse r \<Rightarrow> (c, r))"

fun cas_replay :: "('op \<Rightarrow> u64 \<Rightarrow> 'r verdict) \<Rightarrow> u64 \<Rightarrow> 'op list \<Rightarrow> u64 \<times> 'r list" where
  "cas_replay body c [] = (c, [])"
| "cas_replay body c (op # ops) =
     (let (c', r) = cas_atomic body op c; (c'', rs) = cas_replay body c' ops in (c'', r # rs))"

lemma cas_replay_snoc:
  "cas_replay body c (ops @ [op]) =
     (let (c', rs) = cas_replay body c ops; (c'', r) = cas_atomic body op c' in (c'', rs @ [r]))"
  by (induction ops arbitrary: c) (simp_all split: prod.splits)

definition log_ops :: "(nat \<times> 'op \<times> 'r) list \<Rightarrow> 'op list" where
  "log_ops l = map (\<lambda>(_, op, _). op) l"

definition log_results :: "(nat \<times> 'op \<times> 'r) list \<Rightarrow> 'r list" where
  "log_results l = map (\<lambda>(_, _, r). r) l"

lemma log_snoc [simp]:
  "log_ops (l @ [(t, op, r)]) = log_ops l @ [op]"
  "log_results (l @ [(t, op, r)]) = log_results l @ [r]"
  by (simp_all add: log_ops_def log_results_def)

text \<open>
  The simulation: the cell is what the logged operations give when they run one after the
  other, with the results they returned.
\<close>

definition cas_linear :: "('op \<Rightarrow> u64 \<Rightarrow> 'r verdict) \<Rightarrow> u64 \<Rightarrow> ('op, 'r) cas_state \<Rightarrow> bool" where
  "cas_linear body c s \<longleftrightarrow> cas_replay body c (log_ops (log s)) = (cell s, log_results (log s))"

lemma cas_linear_init: "cas_linear body c (cas_init c)"
  by (simp add: cas_linear_def cas_init_def log_ops_def log_results_def)

lemma cas_linear_step: "cas_step body s s' \<Longrightarrow> cas_linear body c s \<Longrightarrow> cas_linear body c s'"
  by (induction rule: cas_step.induct)
     (simp_all add: cas_linear_def cas_replay_snoc cas_atomic_def)

lemma cas_reach_linear: "cas_reach body c s \<Longrightarrow> cas_linear body c s"
  by (induction rule: cas_reach.induct) (auto intro: cas_linear_init cas_linear_step)

text \<open>
  A thread about to return has its own operation in the log as its latest entry: the
  operation took effect between its call and its return, with the result it returns.
\<close>

definition last_of :: "nat \<Rightarrow> (nat \<times> 'op \<times> 'r) list \<Rightarrow> ('op \<times> 'r) option" where
  "last_of t l = map_of (rev l) t"

definition cas_returns_logged :: "('op, 'r) cas_state \<Rightarrow> bool" where
  "cas_returns_logged s \<longleftrightarrow>
     (\<forall>t op r. pcs s t = Returning op r \<longrightarrow> last_of t (log s) = Some (op, r))"

lemma cas_returns_step: "cas_step body s s' \<Longrightarrow> cas_returns_logged s \<Longrightarrow> cas_returns_logged s'"
  by (induction rule: cas_step.induct) (auto simp: cas_returns_logged_def last_of_def)

lemma cas_returns_init: "cas_returns_logged (cas_init c)"
  by (simp add: cas_returns_logged_def cas_init_def)

lemma cas_reach_returns: "cas_reach body c s \<Longrightarrow> cas_returns_logged s"
  by (induction rule: cas_reach.induct) (auto intro: cas_returns_init cas_returns_step)

text \<open>A thread that runs alone returns after its load and one exchange, with the atomic result.\<close>

lemma cas_alone_returns:
  assumes "pcs s t = Called op"
  shows "\<exists>s'. (cas_step body)\<^sup>*\<^sup>* s s'
    \<and> pcs s' t = Returning op (snd (cas_atomic body op (cell s)))
    \<and> cell s' = fst (cas_atomic body op (cell s))"
proof (cases "body op (cell s)")
  case (Refuse r)
  let ?s1 = "s\<lparr>pcs := (pcs s)(t := Returning op r), log := log s @ [(t, op, r)]\<rparr>"
  have "cas_step body s ?s1" using assms Refuse by (rule load_refuse)
  then show ?thesis
    by (intro exI [of _ ?s1]) (simp add: cas_atomic_def Refuse)
next
  case (Commit c r)
  let ?s1 = "s\<lparr>pcs := (pcs s)(t := Looping op (cell s))\<rparr>"
  let ?s2 = "?s1\<lparr>cell := c, pcs := (pcs ?s1)(t := Returning op r), log := log ?s1 @ [(t, op, r)]\<rparr>"
  have "cas_step body s ?s1" using assms Commit by (rule load)
  moreover have "cas_step body ?s1 ?s2" by (rule cas_ok) (simp_all add: Commit)
  ultimately have "(cas_step body)\<^sup>*\<^sup>* s ?s2" by (meson converse_rtranclp_into_rtranclp r_into_rtranclp)
  then show ?thesis
    by (intro exI [of _ ?s2]) (simp add: cas_atomic_def Commit)
qed

section \<open>Counters with a ceiling, and ledgers\<close>

text \<open>
  The contract of a capped counter: a commit never takes a counter that is within the limit
  above it. Every counter of the program that guards a quota promises it.
\<close>

locale capped_counter =
  fixes body :: "'op \<Rightarrow> u64 \<Rightarrow> 'r verdict" and limit :: nat
  assumes commit_le: "body op c = Commit c' r \<Longrightarrow> unat c \<le> limit \<Longrightarrow> unat c' \<le> limit"
begin

lemma atomic_le: "unat c \<le> limit \<Longrightarrow> unat (fst (cas_atomic body op c)) \<le> limit"
  by (auto simp: cas_atomic_def dest: commit_le split: verdict.split)

lemma replay_le: "unat c \<le> limit \<Longrightarrow> unat (fst (cas_replay body c ops)) \<le> limit"
proof (induction ops arbitrary: c)
  case Nil
  then show ?case by simp
next
  case (Cons op ops)
  have "unat (fst (cas_atomic body op c)) \<le> limit" using Cons.prems by (rule atomic_le)
  from Cons.IH [OF this] show ?case by (simp add: case_prod_unfold Let_def)
qed

lemma reach_le: "cas_reach body c s \<Longrightarrow> unat c \<le> limit \<Longrightarrow> unat (cell s) \<le> limit"
  using replay_le [of c "log_ops (log s)"] cas_reach_linear [of body c s]
  by (simp add: cas_linear_def)

end

text \<open>
  A ledger is a capped counter whose results say what they changed: \<open>gain op r\<close> is the signed
  number of bytes an operation that returned \<open>r\<close> moved. The counter then always equals the
  sum of what its callers were told, whatever the interleaving.
\<close>

locale cas_ledger = capped_counter +
  fixes gain :: "'a \<Rightarrow> 'b \<Rightarrow> int"
  assumes commit_gain: "body op c = Commit c' r \<Longrightarrow> int (unat c') = int (unat c) + gain op r"
    and refuse_gain: "body op c = Refuse r \<Longrightarrow> gain op r = 0"
begin

lemma atomic_gain: "cas_atomic body op c = (c', r) \<Longrightarrow> int (unat c') = int (unat c) + gain op r"
  by (auto simp: cas_atomic_def dest: commit_gain refuse_gain split: verdict.splits)

lemma replay_gain:
  "cas_replay body c ops = (c', rs) \<Longrightarrow>
     int (unat c') = int (unat c) + (\<Sum>(op, r)\<leftarrow>zip ops rs. gain op r)"
proof (induction ops arbitrary: c rs)
  case Nil
  then show ?case by simp
next
  case (Cons op ops)
  obtain c1 r where a: "cas_atomic body op c = (c1, r)" by (cases "cas_atomic body op c")
  with Cons.prems obtain rs1 where "cas_replay body c1 ops = (c', rs1)" and "rs = r # rs1"
    by (auto split: prod.splits)
  with Cons.IH [of c1 rs1] atomic_gain [OF a] show ?case by simp
qed

lemma zip_log: "zip (log_ops l) (log_results l) = map snd l"
  by (induction l) (auto simp: log_ops_def log_results_def)

lemma reach_gain:
  "cas_reach body c s \<Longrightarrow> int (unat (cell s)) = int (unat c) + (\<Sum>(_, op, r)\<leftarrow>log s. gain op r)"
  using replay_gain [of c "log_ops (log s)" "cell s" "log_results (log s)"] cas_reach_linear [of body c s]
  by (simp add: cas_linear_def zip_log comp_def case_prod_unfold)

end

end
