(* ===== verification/Token_Bucket.thy ===== *)
theory Token_Bucket
  imports Rust_Prelude
begin

text \<open>
  The per-tenant operation rate limiter of
  \<^verbatim>\<open>crates/tensor-wasm-tenant/src/context.rs\<close> (\<open>TokenBucket\<close>): a token bucket with
  fixed-point accounting in micro-tokens. The record merges \<open>TokenBucket\<close> with the
  \<open>TokenBucketState\<close> its mutex guards; every operation runs with the mutex held, so an
  operation is one function from the bucket to the next bucket. Instants and durations are
  nanosecond counts of type \<^typ>\<open>u128\<close>, the type of \<open>Duration::as_nanos\<close>.
\<close>

section \<open>Model\<close>

type_synonym instant = u128

record rate_limited =
  requested :: u64
  available :: u64
  rl_ops_per_sec :: u64
  rl_burst :: u64

definition MICRO_PER_TOKEN :: u64 where
  "MICRO_PER_TOKEN = 1000000"

record token_bucket =
  ops_per_sec :: u64
  burst :: u64
  capacity_micros :: u64
  micro_tokens :: u64
  last_refill :: instant

definition token_bucket_new :: "u64 \<Rightarrow> u64 \<Rightarrow> instant \<Rightarrow> token_bucket" where
  "token_bucket_new ops b now =
     (let b' = max b 1;
          ops' = max ops 1;
          cap = saturating_mul b' MICRO_PER_TOKEN
      in \<lparr>ops_per_sec = ops', burst = b', capacity_micros = cap,
          micro_tokens = cap, last_refill = now\<rparr>)"

definition refilled_micros :: "token_bucket \<Rightarrow> u64 \<Rightarrow> u128 \<Rightarrow> u64" where
  "refilled_micros tb current elapsed =
     (let credit = saturating_mul (saturating_mul elapsed (ucast (ops_per_sec tb)))
                     (ucast MICRO_PER_TOKEN) div 1000000000
      in min (saturating_add current (u64_try_from_or_max credit)) (capacity_micros tb))"

definition admit_locked ::
    "token_bucket \<Rightarrow> u64 \<Rightarrow> instant \<Rightarrow> token_bucket \<times> (rate_limited, unit) result" where
  "admit_locked tb n now =
     (let now' = max now (last_refill tb);
          elapsed = now' - last_refill tb;
          available_micros = refilled_micros tb (micro_tokens tb) elapsed;
          need_micros = saturating_mul n MICRO_PER_TOKEN
      in if available_micros < need_micros
         then (tb, Err \<lparr>requested = n, available = available_micros div MICRO_PER_TOKEN,
                         rl_ops_per_sec = ops_per_sec tb, rl_burst = burst tb\<rparr>)
         else (tb\<lparr>micro_tokens := available_micros - need_micros, last_refill := now'\<rparr>, Ok ()))"

text \<open>\<open>try_acquire_now\<close> samples the clock under the lock and runs the shared body.\<close>

definition try_acquire_now ::
    "token_bucket \<Rightarrow> u64 \<Rightarrow> instant \<Rightarrow> token_bucket \<times> (rate_limited, unit) result" where
  "try_acquire_now tb n clock_now = admit_locked tb n clock_now"

text \<open>A sequence of calls, each with its clock reading; the tokens admitted, call by call.\<close>

fun acquire_run :: "token_bucket \<Rightarrow> (u64 \<times> instant) list \<Rightarrow> token_bucket \<times> u64 list" where
  "acquire_run tb [] = (tb, [])"
| "acquire_run tb ((n, now) # calls) =
     (case try_acquire_now tb n now of
        (tb', Inl _) \<Rightarrow> acquire_run tb' calls
      | (tb', Inr _) \<Rightarrow> (let (tb'', ns) = acquire_run tb' calls in (tb'', n # ns)))"

subsection \<open>Equations for evaluation\<close>

lemma token_bucket_new_eval [evals]:
  "token_bucket_new ops b now =
     \<lparr>ops_per_sec = max ops 1, burst = max b 1,
      capacity_micros = saturating_mul (max b 1) MICRO_PER_TOKEN,
      micro_tokens = saturating_mul (max b 1) MICRO_PER_TOKEN, last_refill = now\<rparr>"
  by (simp add: token_bucket_new_def Let_def)

lemma refilled_micros_eval [evals]:
  "refilled_micros tb current elapsed =
     min (saturating_add current (u64_try_from_or_max
            (saturating_mul (saturating_mul elapsed (ucast (ops_per_sec tb)))
               (ucast MICRO_PER_TOKEN) div 1000000000)))
       (capacity_micros tb)"
  by (simp add: refilled_micros_def)

lemma admit_locked_eval [evals]:
  "admit_locked tb n now =
     (if refilled_micros tb (micro_tokens tb) (max now (last_refill tb) - last_refill tb)
           < saturating_mul n MICRO_PER_TOKEN
      then (tb, Err \<lparr>requested = n,
              available = refilled_micros tb (micro_tokens tb) (max now (last_refill tb) - last_refill tb)
                            div MICRO_PER_TOKEN,
              rl_ops_per_sec = ops_per_sec tb, rl_burst = burst tb\<rparr>)
      else (tb\<lparr>micro_tokens :=
                  refilled_micros tb (micro_tokens tb) (max now (last_refill tb) - last_refill tb)
                    - saturating_mul n MICRO_PER_TOKEN,
                last_refill := max now (last_refill tb)\<rparr>, Ok ()))"
  by (simp add: admit_locked_def Let_def)

lemma acquire_run_admit:
  "admit_locked tb n now = (tb1, Ok ()) \<Longrightarrow>
     acquire_run tb ((n, now) # calls) = apsnd (Cons n) (acquire_run tb1 calls)"
  by (simp add: try_acquire_now_def split: prod.splits)

lemma acquire_run_reject:
  "admit_locked tb n now = (tb1, Err e) \<Longrightarrow> acquire_run tb ((n, now) # calls) = acquire_run tb1 calls"
  by (simp add: try_acquire_now_def)

declare MICRO_PER_TOKEN_def [evals]

section \<open>Reading the arithmetic in nat\<close>

definition bucket_wf :: "token_bucket \<Rightarrow> bool" where
  "bucket_wf tb \<longleftrightarrow> 1 \<le> unat (ops_per_sec tb) \<and> 1 \<le> unat (burst tb)
     \<and> unat (capacity_micros tb) = sat 64 (unat (burst tb) * 1000000)
     \<and> unat (micro_tokens tb) \<le> unat (capacity_micros tb)"

text \<open>Micro-tokens credited for \<open>e\<close> nanoseconds, as the source's arithmetic computes them.\<close>

definition credit_micros :: "token_bucket \<Rightarrow> nat \<Rightarrow> nat" where
  "credit_micros tb e =
     sat 64 (sat 128 (sat 128 (e * unat (ops_per_sec tb)) * 1000000) div 1000000000)"

definition available_at :: "token_bucket \<Rightarrow> instant \<Rightarrow> nat" where
  "available_at tb now =
     min (sat 64 (unat (micro_tokens tb)
                + credit_micros tb (unat (max now (last_refill tb)) - unat (last_refill tb))))
       (unat (capacity_micros tb))"

definition need_at :: "u64 \<Rightarrow> nat" where
  "need_at n = sat 64 (unat n * 1000000)"

lemma unat_micro [simp]: "unat MICRO_PER_TOKEN = 1000000"
  by (simp add: MICRO_PER_TOKEN_def)

lemma micro_u128 [simp]: "unat (ucast MICRO_PER_TOKEN :: u128) = 1000000"
  by (simp add: unat_u64_as_u128)

lemma unat_refilled:
  "unat (refilled_micros tb c e) =
     min (sat 64 (unat c + credit_micros tb (unat e))) (unat (capacity_micros tb))"
  by (simp add: refilled_micros_def Let_def credit_micros_def unat_ops)

lemma admit_locked_cases:
  obtains (reject) r where "admit_locked tb n now = (tb, Err r)"
      and "available_at tb now < need_at n"
      and "requested r = n" and "unat (available r) = available_at tb now div 1000000"
      and "rl_burst r = burst tb" and "rl_ops_per_sec r = ops_per_sec tb"
  | (admit) tb' where "admit_locked tb n now = (tb', Ok ())"
      and "need_at n \<le> available_at tb now"
      and "unat (micro_tokens tb') = available_at tb now - need_at n"
      and "last_refill tb' = max now (last_refill tb)"
      and "ops_per_sec tb' = ops_per_sec tb" and "burst tb' = burst tb"
      and "capacity_micros tb' = capacity_micros tb"
proof -
  define av where "av = refilled_micros tb (micro_tokens tb) (max now (last_refill tb) - last_refill tb)"
  have av: "unat av = available_at tb now"
    by (simp add: av_def unat_refilled available_at_def unat_sub_nowrap)
  have need: "unat (saturating_mul n MICRO_PER_TOKEN) = need_at n"
    by (simp add: unat_ops need_at_def)
  have less: "av < saturating_mul n MICRO_PER_TOKEN \<longleftrightarrow> available_at tb now < need_at n"
    by (simp add: word_less_nat_alt av need)
  have diff: "unat (av - saturating_mul n MICRO_PER_TOKEN) = available_at tb now - need_at n"
    if "need_at n \<le> available_at tb now"
    using that by (simp add: unat_sub_nowrap word_le_nat_alt av need)
  show thesis
  proof (cases "av < saturating_mul n MICRO_PER_TOKEN")
    case True
    then show thesis
      using less av
      by (intro reject [of "\<lparr>requested = n, available = av div MICRO_PER_TOKEN,
                              rl_ops_per_sec = ops_per_sec tb, rl_burst = burst tb\<rparr>"])
         (simp_all add: admit_locked_def Let_def av_def [symmetric] unat_word_div)
  next
    case False
    then show thesis
      using less diff
      by (intro admit [of "tb\<lparr>micro_tokens := av - saturating_mul n MICRO_PER_TOKEN,
                              last_refill := max now (last_refill tb)\<rparr>"])
         (simp_all add: admit_locked_def Let_def av_def [symmetric])
  qed
qed

section \<open>Properties\<close>

lemma token_bucket_new_wf: "bucket_wf (token_bucket_new ops b now)"
  by (simp add: bucket_wf_def token_bucket_new_def Let_def unat_ops)

lemma token_bucket_new_fields [simp]:
  "micro_tokens (token_bucket_new ops b now) = capacity_micros (token_bucket_new ops b now)"
  "last_refill (token_bucket_new ops b now) = now"
  "burst (token_bucket_new ops b now) = max b 1"
  "ops_per_sec (token_bucket_new ops b now) = max ops 1"
  by (simp_all add: token_bucket_new_def Let_def)

lemma available_le_capacity: "available_at tb now \<le> unat (capacity_micros tb)"
  by (simp add: available_at_def)

lemma available_le_credit:
  "available_at tb now
     \<le> unat (micro_tokens tb) + credit_micros tb (unat (max now (last_refill tb)) - unat (last_refill tb))"
  unfolding available_at_def by (meson min.cobounded1 order_trans sat_le)

lemma admit_locked_wf:
  assumes "bucket_wf tb"
  shows "bucket_wf (fst (admit_locked tb n now))"
proof -
  have "available_at tb now - need_at n \<le> unat (capacity_micros tb)"
    using available_le_capacity [of tb now] by linarith
  with assms show ?thesis
    by (cases rule: admit_locked_cases [where tb = tb and n = n and now = now])
       (auto simp: bucket_wf_def)
qed

lemma credit_le: "credit_micros tb e \<le> e * unat (ops_per_sec tb) div 1000"
proof -
  let ?p = "e * unat (ops_per_sec tb)"
  have "sat 128 (sat 128 ?p * 1000000) \<le> ?p * 1000000"
    by (meson sat_le mult_le_mono1 order_trans)
  then have "sat 128 (sat 128 ?p * 1000000) div 1000000000 \<le> ?p * 1000000 div 1000000000"
    by (rule div_le_mono)
  also have "\<dots> = ?p * 1000000 div (1000000 * 1000)"
    by simp
  also have "\<dots> = ?p div 1000"
    by (simp only: div_mult2_eq)
  finally show ?thesis
    unfolding credit_micros_def by (rule order_trans [OF sat_le])
qed

lemma credit_ge:
  assumes "k * 1000 \<le> e * unat (ops_per_sec tb)" and "k < 2 ^ 64"
  shows "k \<le> credit_micros tb e"
proof -
  have "k * 1000 < 2 ^ 128" and "k * 1000000000 < 2 ^ 128" using assms(2) by simp_all
  with assms(1) have "k * 1000 * 1000000 \<le> sat 128 (e * unat (ops_per_sec tb)) * 1000000"
    by (intro mult_le_mono1) (simp only: le_sat_iff)
  with \<open>k * 1000000000 < 2 ^ 128\<close>
  have "k * 1000000000 \<le> sat 128 (sat 128 (e * unat (ops_per_sec tb)) * 1000000)"
    by (simp only: le_sat_iff) simp
  then have "k \<le> sat 128 (sat 128 (e * unat (ops_per_sec tb)) * 1000000) div 1000000000"
    by (simp only: less_eq_div_iff_mult_less_eq zero_less_numeral)
  then show ?thesis
    using assms(2) by (simp only: credit_micros_def le_sat_iff)
qed

lemma need_at_exact:
  assumes "bucket_wf tb" and "unat (burst tb) * 1000000 < u64_max" and "need_at n \<le> available_at tb now"
  shows "need_at n = unat n * 1000000"
proof (cases "unat n * 1000000 < 2 ^ 64")
  case True
  then show ?thesis by (simp only: need_at_def sat_id)
next
  case False
  have "need_at n \<le> unat (burst tb) * 1000000"
    using assms(1,3) available_le_capacity [of tb now] sat_le [of 64 "unat (burst tb) * 1000000"]
    unfolding bucket_wf_def by linarith
  moreover have "need_at n = u64_max"
    using False by (simp add: need_at_def sat_def)
  ultimately show ?thesis using assms(2) by linarith
qed

text \<open>One call spends at most what the clock paid for.\<close>

lemma admit_locked_spends:
  assumes wf: "bucket_wf tb" "unat (burst tb) * 1000000 < u64_max"
    and ok: "admit_locked tb n now = (tb', Ok ())"
  shows "unat n * 1000000 + unat (micro_tokens tb')
      \<le> unat (micro_tokens tb) + (unat (last_refill tb') - unat (last_refill tb)) * unat (ops_per_sec tb) div 1000"
proof (rule admit_locked_cases [where tb = tb and n = n and now = now])
  fix r
  assume "admit_locked tb n now = (tb, Err r)"
  with ok show ?thesis by simp
next
  fix tb''
  assume a: "admit_locked tb n now = (tb'', Ok ())" "need_at n \<le> available_at tb now"
    "unat (micro_tokens tb'') = available_at tb now - need_at n"
    "last_refill tb'' = max now (last_refill tb)"
  let ?e = "unat (last_refill tb') - unat (last_refill tb)"
  have "unat n * 1000000 + unat (micro_tokens tb') = available_at tb now"
    using a ok need_at_exact [OF wf a(2)] by simp
  also have "\<dots> \<le> unat (micro_tokens tb) + credit_micros tb ?e"
    using a ok available_le_credit [of tb now] by simp
  also have "\<dots> \<le> unat (micro_tokens tb) + ?e * unat (ops_per_sec tb) div 1000"
    using credit_le [of tb ?e] by simp
  finally show ?thesis .
qed

lemma admit_locked_frame:
  assumes "admit_locked tb n now = (tb', r)"
  shows "ops_per_sec tb' = ops_per_sec tb" "burst tb' = burst tb" "capacity_micros tb' = capacity_micros tb"
    "last_refill tb \<le> last_refill tb'"
  using assms by (auto simp: admit_locked_def Let_def split: if_splits)

lemma admit_locked_wf_pair: "bucket_wf tb \<Longrightarrow> admit_locked tb n now = (tb', r) \<Longrightarrow> bucket_wf tb'"
  using admit_locked_wf [of tb n now] by simp

lemma div_superadditive: "(a :: nat) div k + b div k \<le> (a + b) div k"
  by (subst div_add1_eq) simp

lemma acquire_run_cases:
  assumes "acquire_run tb ((n, now) # calls) = (tb', ns)"
  obtains (reject) e where "admit_locked tb n now = (tb, Err e)" and "acquire_run tb calls = (tb', ns)"
  | (admit) tb1 ns1 where "admit_locked tb n now = (tb1, Ok ())"
      and "acquire_run tb1 calls = (tb', ns1)" and "ns = n # ns1"
proof (rule admit_locked_cases [where tb = tb and n = n and now = now])
  fix r
  assume "admit_locked tb n now = (tb, Err r)"
  with assms reject show thesis by (simp add: try_acquire_now_def)
next
  fix tb1
  assume "admit_locked tb n now = (tb1, Ok ())"
  with assms admit show thesis
    by (cases "acquire_run tb1 calls") (simp add: try_acquire_now_def)
qed

lemma acquire_run_last_refill:
  "acquire_run tb calls = (tb', ns) \<Longrightarrow> last_refill tb \<le> last_refill tb'"
proof (induction calls arbitrary: tb ns)
  case Nil
  then show ?case by simp
next
  case (Cons c calls)
  obtain n now where "c = (n, now)" by (cases c)
  with Cons.prems have "acquire_run tb ((n, now) # calls) = (tb', ns)" by simp
  then show ?case
  proof (cases rule: acquire_run_cases)
    case reject
    then show ?thesis by (intro Cons.IH)
  next
    case (admit tb1 ns1)
    from admit_locked_frame(4) [OF admit(1)] Cons.IH [OF admit(2)] show ?thesis by (rule order_trans)
  qed
qed

text \<open>
  C28: a well-formed bucket whose burst is below \<open>u64::MAX / 10^6\<close> tokens keeps its rate over every
  sequence of acquire calls. Whatever the clock readings are (also stale ones that arrive out of
  order), the tokens admitted, in micro-tokens, plus the balance left are at most the opening
  balance plus the refill the bucket's own anchor advanced by: \<open>elapsed_ns * ops_per_sec / 1000\<close>
  micro-tokens. Above that burst the micro-token arithmetic saturates and the bound fails:
  \<open>saturated_bucket_admits_above_burst\<close>.
\<close>

theorem acquire_run_rate_bound:
  assumes "bucket_wf tb" and "unat (burst tb) * 1000000 < u64_max"
    and "acquire_run tb calls = (tb', ns)"
  shows "sum_list (map unat ns) * 1000000 + unat (micro_tokens tb')
      \<le> unat (micro_tokens tb)
        + (unat (last_refill tb') - unat (last_refill tb)) * unat (ops_per_sec tb) div 1000"
  using assms
proof (induction calls arbitrary: tb ns)
  case Nil
  then show ?case by simp
next
  case (Cons c calls)
  obtain n now where "c = (n, now)" by (cases c)
  with Cons.prems have "acquire_run tb ((n, now) # calls) = (tb', ns)" by simp
  then show ?case
  proof (cases rule: acquire_run_cases)
    case reject
    then show ?thesis using Cons.IH Cons.prems by blast
  next
    case (admit tb1 ns1)
    note frame = admit_locked_frame [OF admit(1)]
    have wf1: "bucket_wf tb1" "unat (burst tb1) * 1000000 < u64_max"
      using Cons.prems(1,2) admit_locked_wf_pair [OF _ admit(1)] frame by simp_all
    let ?ops = "unat (ops_per_sec tb)"
    let ?a = "(unat (last_refill tb1) - unat (last_refill tb)) * ?ops"
    let ?b = "(unat (last_refill tb') - unat (last_refill tb1)) * ?ops"
    have "?a + ?b = (unat (last_refill tb') - unat (last_refill tb)) * ?ops"
      using frame(4) acquire_run_last_refill [OF admit(2)]
      by (simp add: word_le_nat_alt flip: add_mult_distrib)
    moreover have "unat n * 1000000 + unat (micro_tokens tb1) \<le> unat (micro_tokens tb) + ?a div 1000"
      using admit_locked_spends [OF Cons.prems(1,2) admit(1)] .
    moreover have "sum_list (map unat ns1) * 1000000 + unat (micro_tokens tb')
        \<le> unat (micro_tokens tb1) + ?b div 1000"
      using Cons.IH [OF wf1 admit(2)] frame by simp
    moreover note div_superadditive [of ?a 1000 ?b]
    ultimately have "unat n * 1000000 + sum_list (map unat ns1) * 1000000 + unat (micro_tokens tb')
        \<le> unat (micro_tokens tb) + (unat (last_refill tb') - unat (last_refill tb)) * ?ops div 1000"
      by linarith
    then show ?thesis using admit(3) by (simp add: add_mult_distrib)
  qed
qed

theorem acquire_run_rate_bound_witness:
  "let tb = token_bucket_new 10 2 0;
       (tb', ns) = acquire_run tb [(2, 0), (1, 50000000), (1, 100000000)]
   in bucket_wf tb \<and> ns = [2, 1]
      \<and> sum_list (map unat ns) * 1000000 + unat (micro_tokens tb')
          \<le> unat (micro_tokens tb)
            + (unat (last_refill tb') - unat (last_refill tb)) * unat (ops_per_sec tb) div 1000"
proof -
  let ?tb = "token_bucket_new 10 2 0"
  let ?calls = "[(2, 0), (1, 50000000), (1, 100000000)]"
  obtain tb' ns where run: "acquire_run ?tb ?calls = (tb', ns)" by (cases "acquire_run ?tb ?calls")
  have "snd (acquire_run ?tb ?calls) = [2, 1]"
    by (simp add: evals acquire_run_admit acquire_run_reject del: acquire_run.simps(2))
  moreover have "unat (burst ?tb) * 1000000 < u64_max" by (simp add: evals)
  ultimately show ?thesis
    using acquire_run_rate_bound [OF token_bucket_new_wf _ run] run token_bucket_new_wf by simp
qed

text \<open>
  A rejected request is all-or-nothing and reported truthfully. The bucket is left
  untouched, the error carries the request and the configured burst, and the number of whole
  tokens it reports as available is strictly less than the number requested.
\<close>

theorem admit_locked_reject:
  assumes "admit_locked tb n now = (tb', Err r)"
  shows "tb' = tb \<and> requested r = n \<and> rl_burst r = burst tb \<and> available r < n"
proof (rule admit_locked_cases [where tb = tb and n = n and now = now])
  fix r'
  assume r': "admit_locked tb n now = (tb, Err r')" "available_at tb now < need_at n"
    "requested r' = n" "unat (available r') = available_at tb now div 1000000" "rl_burst r' = burst tb"
  have "available_at tb now < unat n * 1000000"
    using r'(2) sat_le [of 64 "unat n * 1000000"] unfolding need_at_def by linarith
  then have "available_at tb now div 1000000 < unat n"
    by (simp add: less_mult_imp_div_less)
  then show ?thesis using r' assms by (simp add: word_less_nat_alt)
next
  fix tb''
  assume "admit_locked tb n now = (tb'', Ok ())"
  with assms show ?thesis by simp
qed

theorem admit_locked_reject_witness:
  "let tb = token_bucket_new 10 2 0
   in \<exists>r. admit_locked tb 3 0 = (tb, Err r) \<and> available r = 2 \<and> available r < 3"
proof -
  let ?tb = "token_bucket_new 10 2 0"
  let ?r = "\<lparr>requested = 3, available = 2, rl_ops_per_sec = 10, rl_burst = 2\<rparr>"
  have call: "admit_locked ?tb 3 0 = (?tb, Err ?r)" by (simp add: evals)
  then show ?thesis using admit_locked_reject [OF call] by auto
qed

text \<open>
  No admissible tenant is starved. A request that fits the burst is admitted as soon as
  the time since the last admission pays for it (\<open>elapsed_ns * ops_per_sec >= n * 10^9\<close>),
  whatever the balance was, including over idle periods so long that the \<open>u128\<close> product
  saturates.
\<close>

theorem admit_locked_after_wait:
  assumes "bucket_wf tb" and "n \<le> burst tb" and "last_refill tb \<le> now"
    and "unat n * 1000000000 \<le> (unat now - unat (last_refill tb)) * unat (ops_per_sec tb)"
  shows "\<exists>tb'. admit_locked tb n now = (tb', Ok ())"
proof -
  let ?credit = "credit_micros tb (unat now - unat (last_refill tb))"
  have lt: "need_at n < 2 ^ 64"
    using sat_bound [of 64 "unat n * 1000000"] unfolding need_at_def by simp
  have "need_at n * 1000 \<le> unat n * 1000000 * 1000"
    unfolding need_at_def by (intro mult_le_mono1 sat_le)
  with assms(4) have "need_at n \<le> ?credit"
    by (intro credit_ge lt) linarith
  then have "need_at n \<le> sat 64 (unat (micro_tokens tb) + ?credit)"
    unfolding le_sat_iff using lt by simp
  moreover have "need_at n \<le> unat (capacity_micros tb)"
    using assms(1,2) by (simp add: bucket_wf_def need_at_def word_le_nat_alt sat_mono)
  ultimately have "need_at n \<le> available_at tb now"
    unfolding available_at_def max_absorb1 [OF assms(3)] by (simp only: min.bounded_iff)
  then show ?thesis
    by (cases rule: admit_locked_cases [where tb = tb and n = n and now = now]) auto
qed

theorem admit_locked_after_wait_witness:
  "let tb = token_bucket_new 10 2 0; tb1 = fst (admit_locked tb 2 0)
   in micro_tokens tb1 = 0 \<and> (\<exists>tb'. admit_locked tb1 2 200000000 = (tb', Ok ()))"
proof -
  let ?tb = "token_bucket_new 10 2 0"
  let ?tb1 = "fst (admit_locked ?tb 2 0)"
  have wf: "bucket_wf ?tb1" by (intro admit_locked_wf token_bucket_new_wf)
  have eq: "?tb1 = \<lparr>ops_per_sec = 10, burst = 2, capacity_micros = 2000000, micro_tokens = 0, last_refill = 0\<rparr>"
    by (simp add: evals)
  have "\<exists>tb'. admit_locked ?tb1 2 200000000 = (tb', Ok ())"
    by (rule admit_locked_after_wait [OF wf]) (simp_all only: eq, simp_all)
  then show ?thesis using eq by simp
qed

text \<open>
  A bucket whose capacity saturates at \<open>u64::MAX\<close> admits a request far above its burst: the
  saturated need equals the saturated capacity.
\<close>

lemma saturated_bucket_admits_above_burst:
  "burst (token_bucket_new 1 18446744073710 0) < word_max"
  "snd (admit_locked (token_bucket_new 1 18446744073710 0) word_max 0) = Ok ()"
  by (simp_all add: evals)

end
