(* ===== verification/Tenant_Context.thy ===== *)
theory Tenant_Context
  imports Core_Error Cas_Loop Token_Bucket
begin

text \<open>
  Per-tenant accounting, \<^verbatim>\<open>crates/tensor-wasm-tenant/src/context.rs\<close>: the host and GPU
  byte counters with their lock-free loops, the capability check in front of them, the
  operation rate limit, the driver-pool pin and the builder. A loop body is a function to
  \<open>verdict\<close>; the sequential operation is its atomic execution and the concurrent one the step
  relation of \<open>Cas_Loop\<close>, for which the theory discharges the \<open>cas_ledger\<close> contract.

  The identity of an \<open>Arc<()>\<close> registry token is a \<^typ>\<open>nat\<close>. The metrics gauges are the last
  values published. The driver memory pool is another crate behind a trait object: whether
  its \<open>set_release_threshold\<close> succeeds is the argument \<open>drv\<close>, a function of the threshold.
\<close>

section \<open>Model\<close>

datatype isolation_kind = Shared | StreamIsolated | ContextIsolated

fun isolation_kind_name :: "isolation_kind \<Rightarrow> string" where
  "isolation_kind_name Shared = ''shared''"
| "isolation_kind_name StreamIsolated = ''stream_isolated''"
| "isolation_kind_name ContextIsolated = ''context_isolated''"

record release_outcome =
  released :: u64
  clamped :: bool

record tenant_capability =
  cap_tenant_id :: tenant_id
  cap_registry_token :: nat

definition tenant_capability_mint :: "tenant_id \<Rightarrow> nat \<Rightarrow> tenant_capability" where
  "tenant_capability_mint t token = \<lparr>cap_tenant_id = t, cap_registry_token = token\<rparr>"

record tenant_context =
  tenant_id :: tenant_id
  isolation :: isolation_kind
  stream_id :: u64
  memory_quota_bytes :: u64
  bytes_in_use :: u64
  gpu_memory_bytes_cap :: "u64 option"
  gpu_bytes_in_use :: u64
  cuda_mem_pool_quota_bytes :: "u64 option"
  has_driver_mem_pool :: bool
  driver_pool_pinned :: bool
  rate_limiter :: "token_bucket option"
  has_cu_context :: bool
  has_metrics :: bool
  cpu_gauge :: u64
  gpu_gauge :: u64
  registry_token :: "nat option"

subsection \<open>The lock-free loops\<close>

definition consume_body :: "u64 \<Rightarrow> u64 \<Rightarrow> u64 \<Rightarrow> (tensor_wasm_error, u64) result verdict" where
  "consume_body limit n current =
     (case checked_add current n of
        Some v \<Rightarrow> if v \<le> limit then Commit v (Ok v) else Refuse (Err (MemoryExhausted n limit))
      | None \<Rightarrow> Refuse (Err (MemoryExhausted n limit)))"

definition release_body :: "u64 \<Rightarrow> u64 \<Rightarrow> (release_outcome \<times> u64) verdict" where
  "release_body n current =
     (let next = saturating_sub current n
      in Commit next (\<lparr>released = current - next, clamped = current < n\<rparr>, next))"

definition consume_cas :: "u64 \<Rightarrow> u64 \<Rightarrow> u64 \<Rightarrow> u64 \<times> (tensor_wasm_error, u64) result" where
  "consume_cas counter n limit = cas_atomic (consume_body limit) n counter"

definition release_cas :: "u64 \<Rightarrow> u64 \<Rightarrow> u64 \<times> (release_outcome \<times> u64)" where
  "release_cas counter n = cas_atomic release_body n counter"

definition GPU_BYTES_OVERFLOW_SENTINEL :: u64 where
  "GPU_BYTES_OVERFLOW_SENTINEL = word_max"

definition gpu_consume_body ::
    "u64 option \<Rightarrow> u64 \<Rightarrow> u64 \<Rightarrow> (tensor_wasm_error, u64) result verdict" where
  "gpu_consume_body limit n current =
     (case (case checked_add current n of
              Some v \<Rightarrow> Ok v
            | None \<Rightarrow> if limit = None then Ok GPU_BYTES_OVERFLOW_SENTINEL
                      else Err (GpuMemoryExhausted n (case limit of Some l \<Rightarrow> l | None \<Rightarrow> word_max) current)) of
        Inl e \<Rightarrow> Refuse (Err e)
      | Inr next \<Rightarrow>
          (case limit of
             Some cap \<Rightarrow> if next > cap then Refuse (Err (GpuMemoryExhausted n cap current))
                         else Commit next (Ok next)
           | None \<Rightarrow> Commit next (Ok next)))"

subsection \<open>Host memory quota\<close>

definition check_capability ::
    "tenant_context \<Rightarrow> tenant_capability \<Rightarrow> string \<Rightarrow> (tensor_wasm_error, unit) result" where
  "check_capability ctx cap resource =
     (if cap_tenant_id cap \<noteq> tenant_id ctx
      then Err (TenantIsolationViolation (cap_tenant_id cap) resource)
      else if registry_token ctx = Some (cap_registry_token cap) then Ok ()
      else Err (TenantIsolationViolation (cap_tenant_id cap) resource))"

definition publish_memory_gauge :: "tenant_context \<Rightarrow> u64 \<Rightarrow> tenant_context" where
  "publish_memory_gauge ctx new_total = (if has_metrics ctx then ctx\<lparr>cpu_gauge := new_total\<rparr> else ctx)"

definition publish_gpu_memory_gauge :: "tenant_context \<Rightarrow> u64 \<Rightarrow> tenant_context" where
  "publish_gpu_memory_gauge ctx new_total = (if has_metrics ctx then ctx\<lparr>gpu_gauge := new_total\<rparr> else ctx)"

definition consume_bytes_inner ::
    "tenant_context \<Rightarrow> u64 \<Rightarrow> tenant_context \<times> (tensor_wasm_error, unit) result" where
  "consume_bytes_inner ctx n =
     (case consume_cas (bytes_in_use ctx) n (memory_quota_bytes ctx) of
        (c, Inl e) \<Rightarrow> (ctx\<lparr>bytes_in_use := c\<rparr>, Err e)
      | (c, Inr next) \<Rightarrow> (publish_memory_gauge (ctx\<lparr>bytes_in_use := c\<rparr>) next, Ok ()))"

definition release_bytes_inner :: "tenant_context \<Rightarrow> u64 \<Rightarrow> tenant_context \<times> release_outcome" where
  "release_bytes_inner ctx n =
     (case release_cas (bytes_in_use ctx) n of
        (c, outcome, after) \<Rightarrow> (publish_memory_gauge (ctx\<lparr>bytes_in_use := c\<rparr>) after, outcome))"

definition consume_bytes_with_capability ::
    "tenant_context \<Rightarrow> tenant_capability \<Rightarrow> u64 \<Rightarrow> tenant_context \<times> (tensor_wasm_error, unit) result" where
  "consume_bytes_with_capability ctx cap n =
     (case check_capability ctx cap ''quota.consume_bytes'' of
        Inl e \<Rightarrow> (ctx, Err e)
      | Inr _ \<Rightarrow> consume_bytes_inner ctx n)"

definition release_bytes_with_capability ::
    "tenant_context \<Rightarrow> tenant_capability \<Rightarrow> u64 \<Rightarrow> tenant_context \<times> (tensor_wasm_error, release_outcome) result" where
  "release_bytes_with_capability ctx cap n =
     (case check_capability ctx cap ''quota.release_bytes'' of
        Inl e \<Rightarrow> (ctx, Err e)
      | Inr _ \<Rightarrow> (case release_bytes_inner ctx n of (ctx', out) \<Rightarrow> (ctx', Ok out)))"

subsection \<open>GPU memory quota\<close>

definition effective_driver_cap :: "tenant_context \<Rightarrow> u64 option" where
  "effective_driver_cap ctx =
     (case gpu_memory_bytes_cap ctx of Some c \<Rightarrow> Some c | None \<Rightarrow> cuda_mem_pool_quota_bytes ctx)"

definition pin_driver_pool :: "(u64 \<Rightarrow> bool) \<Rightarrow> tenant_context \<Rightarrow> tenant_context" where
  "pin_driver_pool drv ctx =
     (if driver_pool_pinned ctx then ctx
      else if \<not> has_driver_mem_pool ctx then ctx
      else (case effective_driver_cap ctx of
              None \<Rightarrow> ctx
            | Some cap \<Rightarrow> if drv cap then ctx\<lparr>driver_pool_pinned := True\<rparr> else ctx))"

definition consume_gpu_bytes ::
    "(u64 \<Rightarrow> bool) \<Rightarrow> tenant_context \<Rightarrow> u64 \<Rightarrow> tenant_context \<times> (tensor_wasm_error, unit) result" where
  "consume_gpu_bytes drv ctx n =
     (case cas_atomic (gpu_consume_body (gpu_memory_bytes_cap ctx)) n (gpu_bytes_in_use ctx) of
        (c, Inl e) \<Rightarrow> (ctx\<lparr>gpu_bytes_in_use := c\<rparr>, Err e)
      | (c, Inr next) \<Rightarrow>
          (pin_driver_pool drv (publish_gpu_memory_gauge (ctx\<lparr>gpu_bytes_in_use := c\<rparr>) next), Ok ()))"

definition release_gpu_bytes_inner :: "tenant_context \<Rightarrow> u64 \<Rightarrow> tenant_context \<times> release_outcome" where
  "release_gpu_bytes_inner ctx n =
     (case cas_atomic release_body n (gpu_bytes_in_use ctx) of
        (c, outcome, after) \<Rightarrow> (publish_gpu_memory_gauge (ctx\<lparr>gpu_bytes_in_use := c\<rparr>) after, outcome))"

definition consume_gpu_bytes_with_capability ::
    "(u64 \<Rightarrow> bool) \<Rightarrow> tenant_context \<Rightarrow> tenant_capability \<Rightarrow> u64
       \<Rightarrow> tenant_context \<times> (tensor_wasm_error, unit) result" where
  "consume_gpu_bytes_with_capability drv ctx cap n =
     (case check_capability ctx cap ''quota.consume_gpu_bytes'' of
        Inl e \<Rightarrow> (ctx, Err e)
      | Inr _ \<Rightarrow> consume_gpu_bytes drv ctx n)"

definition release_gpu_bytes_with_capability ::
    "tenant_context \<Rightarrow> tenant_capability \<Rightarrow> u64 \<Rightarrow> tenant_context \<times> (tensor_wasm_error, release_outcome) result" where
  "release_gpu_bytes_with_capability ctx cap n =
     (case check_capability ctx cap ''quota.release_gpu_bytes'' of
        Inl e \<Rightarrow> (ctx, Err e)
      | Inr _ \<Rightarrow> (case release_gpu_bytes_inner ctx n of (ctx', out) \<Rightarrow> (ctx', Ok out)))"

subsection \<open>Operation rate\<close>

definition try_acquire_ops ::
    "tenant_context \<Rightarrow> u64 \<Rightarrow> instant \<Rightarrow> tenant_context \<times> (rate_limited, unit) result" where
  "try_acquire_ops ctx n now =
     (case rate_limiter ctx of
        Some bucket \<Rightarrow> (case try_acquire_now bucket n now of
                          (bucket', r) \<Rightarrow> (ctx\<lparr>rate_limiter := Some bucket'\<rparr>, r))
      | None \<Rightarrow> (ctx, Ok ()))"

definition try_acquire_op :: "tenant_context \<Rightarrow> instant \<Rightarrow> tenant_context \<times> (rate_limited, unit) result" where
  "try_acquire_op ctx now = try_acquire_ops ctx 1 now"

subsection \<open>The builder\<close>

record tenant_context_builder =
  b_tenant_id :: tenant_id
  b_isolation :: isolation_kind
  b_stream_id :: u64
  b_memory_quota_bytes :: u64
  b_cuda_mem_pool_quota_bytes :: "u64 option"
  b_gpu_memory_bytes_cap :: "u64 option"
  b_driver_mem_pool :: bool
  b_rate_limit :: "(u64 \<times> u64) option"
  b_metrics :: bool

definition DEFAULT_QUOTA_BYTES :: u64 where
  "DEFAULT_QUOTA_BYTES = 8 * 1024 * 1024 * 1024"

definition builder_new :: "tenant_id \<Rightarrow> tenant_context_builder" where
  "builder_new t =
     \<lparr>b_tenant_id = t, b_isolation = StreamIsolated, b_stream_id = 0,
      b_memory_quota_bytes = DEFAULT_QUOTA_BYTES, b_cuda_mem_pool_quota_bytes = None,
      b_gpu_memory_bytes_cap = None, b_driver_mem_pool = False, b_rate_limit = None,
      b_metrics = False\<rparr>"

text \<open>
  \<open>cuda\<close> is \<open>None\<close> in a build without the \<open>cuda\<close> feature, and otherwise whether the driver
  calls of \<open>build_cuda_context\<close> succeed. The second result is the increment of the process-wide
  downgrade counter.
\<close>

definition build_cuda_context :: "bool \<Rightarrow> tenant_context_builder \<Rightarrow> bool" where
  "build_cuda_context driver_ok b = (b_isolation b = ContextIsolated \<and> driver_ok)"

definition build ::
    "bool option \<Rightarrow> (u64 \<Rightarrow> bool) \<Rightarrow> instant \<Rightarrow> tenant_context_builder \<Rightarrow> tenant_context \<times> nat" where
  "build cuda drv now b =
     (let built = (case cuda of None \<Rightarrow> False | Some ok \<Rightarrow> build_cuda_context ok b);
          downgrade = (cuda \<noteq> None \<and> b_isolation b = ContextIsolated \<and> \<not> built);
          iso = (if downgrade then StreamIsolated else b_isolation b);
          ctx = \<lparr>tenant_id = b_tenant_id b, isolation = iso, stream_id = b_stream_id b,
                 memory_quota_bytes = b_memory_quota_bytes b, bytes_in_use = 0,
                 gpu_memory_bytes_cap = b_gpu_memory_bytes_cap b, gpu_bytes_in_use = 0,
                 cuda_mem_pool_quota_bytes = b_cuda_mem_pool_quota_bytes b,
                 has_driver_mem_pool = b_driver_mem_pool b, driver_pool_pinned = False,
                 rate_limiter = map_option (\<lambda>(ops, burst). token_bucket_new ops burst now) (b_rate_limit b),
                 has_cu_context = built, has_metrics = b_metrics b, cpu_gauge = 0, gpu_gauge = 0,
                 registry_token = None\<rparr>
      in (pin_driver_pool drv ctx, if downgrade then 1 else 0))"

section \<open>The loops read in nat\<close>

lemma consume_body_eq:
  "consume_body limit n c =
     (if unat c + unat n \<le> unat limit then Commit (c + n) (Ok (c + n))
      else Refuse (Err (MemoryExhausted n limit)))"
proof (cases "checked_add c n")
  case None
  then have "unat limit < unat c + unat n"
    using unat_less_pow [of limit] by (simp add: checked_add_None_iff)
  with None show ?thesis by (simp add: consume_body_def)
next
  case (Some v)
  then have v: "unat v = unat c + unat n" by (simp add: checked_add_Some_iff)
  moreover have "v = c + n" using Some by (simp add: checked_add_def split: if_splits)
  ultimately show ?thesis using Some by (simp add: consume_body_def word_le_nat_alt)
qed

lemma unat_add_le_limit: "unat c + unat (n :: u64) \<le> unat (limit :: u64) \<Longrightarrow> unat (c + n) = unat c + unat n"
  using unat_less_pow [of limit] by (intro unat_add_nowrap) linarith

lemma release_body_eq:
  "release_body n c =
     Commit (saturating_sub c n) (\<lparr>released = min c n, clamped = c < n\<rparr>, saturating_sub c n)"
proof -
  have "c - saturating_sub c n = min c n"
    by (cases "n \<le> c") (auto simp: saturating_sub_def min_def)
  then show ?thesis by (simp add: release_body_def Let_def)
qed

lemma gpu_consume_body_capped:
  "gpu_consume_body (Some cap) n c =
     (if unat c + unat n \<le> unat cap then Commit (c + n) (Ok (c + n))
      else Refuse (Err (GpuMemoryExhausted n cap c)))"
proof (cases "checked_add c n")
  case None
  then have "unat cap < unat c + unat n"
    using unat_less_pow [of cap] by (simp add: checked_add_None_iff)
  with None show ?thesis by (simp add: gpu_consume_body_def)
next
  case (Some v)
  then have v: "unat v = unat c + unat n" by (simp add: checked_add_Some_iff)
  moreover have "v = c + n" using Some by (simp add: checked_add_def split: if_splits)
  ultimately show ?thesis using Some by (simp add: gpu_consume_body_def word_less_nat_alt)
qed

lemma gpu_consume_body_uncapped:
  "gpu_consume_body None n c = Commit (saturating_add c n) (Ok (saturating_add c n))"
  by (simp add: gpu_consume_body_def checked_add_def saturating_add_def GPU_BYTES_OVERFLOW_SENTINEL_def)

section \<open>Concurrent callers\<close>

datatype quota_op = Consume u64 | Release u64

datatype quota_result =
    Consumed "(tensor_wasm_error, u64) result"
  | Released "release_outcome \<times> u64"

fun quota_body :: "u64 \<Rightarrow> quota_op \<Rightarrow> u64 \<Rightarrow> quota_result verdict" where
  "quota_body limit (Consume n) c = map_verdict Consumed (consume_body limit n c)"
| "quota_body limit (Release n) c = map_verdict Released (release_body n c)"

fun gpu_quota_body :: "u64 option \<Rightarrow> quota_op \<Rightarrow> u64 \<Rightarrow> quota_result verdict" where
  "gpu_quota_body limit (Consume n) c = map_verdict Consumed (gpu_consume_body limit n c)"
| "gpu_quota_body limit (Release n) c = map_verdict Released (release_body n c)"

text \<open>The bytes an operation moved, as its result reports them.\<close>

fun quota_gain :: "quota_op \<Rightarrow> quota_result \<Rightarrow> int" where
  "quota_gain (Consume n) (Consumed (Inr _)) = int (unat n)"
| "quota_gain (Release _) (Released (out, _)) = - int (unat (released out))"
| "quota_gain _ _ = 0"

lemma saturating_sub_le: "unat (saturating_sub c n) \<le> unat (c :: u64)"
  by (simp add: unat_ops)

lemma release_gain: "int (unat (saturating_sub c n)) = int (unat c) - int (unat (min c (n :: u64)))"
  by (simp add: unat_ops of_nat_diff_if min_def)

interpretation mem_quota: cas_ledger "quota_body limit" "unat limit" quota_gain for limit :: u64
proof unfold_locales
  show "unat c' \<le> unat limit" if "quota_body limit op c = Commit c' r" "unat c \<le> unat limit" for op c c' r
    using that saturating_sub_le [of c]
    by (cases op) (auto simp: consume_body_eq release_body_eq unat_add_le_limit split: if_splits intro: order_trans)
  show "int (unat c') = int (unat c) + quota_gain op r" if "quota_body limit op c = Commit c' r" for op c c' r
    using that
    by (cases op) (auto simp: consume_body_eq release_body_eq unat_add_le_limit release_gain split: if_splits)
  show "quota_gain op r = 0" if "quota_body limit op c = Refuse r" for op c r
    using that by (cases op) (auto simp: consume_body_eq release_body_eq split: if_splits)
qed

interpretation gpu_quota: cas_ledger "gpu_quota_body (Some cap)" "unat cap" quota_gain for cap :: u64
proof unfold_locales
  show "unat c' \<le> unat cap" if "gpu_quota_body (Some cap) op c = Commit c' r" "unat c \<le> unat cap" for op c c' r
    using that saturating_sub_le [of c]
    by (cases op) (auto simp: gpu_consume_body_capped release_body_eq unat_add_le_limit split: if_splits intro: order_trans)
  show "int (unat c') = int (unat c) + quota_gain op r" if "gpu_quota_body (Some cap) op c = Commit c' r" for op c c' r
    using that
    by (cases op) (auto simp: gpu_consume_body_capped release_body_eq unat_add_le_limit release_gain split: if_splits)
  show "quota_gain op r = 0" if "gpu_quota_body (Some cap) op c = Refuse r" for op c r
    using that by (cases op) (auto simp: gpu_consume_body_capped release_body_eq split: if_splits)
qed

text \<open>
  C1: the host-memory quota holds under every interleaving of concurrent consume and release
  calls, with weak exchanges failing at any time: the counter never exceeds the quota, and it
  equals the bytes of the consumes that returned success minus the bytes the releases reported
  as released. No update is lost and none is counted twice.
\<close>

theorem mem_quota_concurrent:
  assumes "cas_reach (quota_body limit) 0 s"
  shows "unat (cell s) \<le> unat limit
    \<and> int (unat (cell s)) = (\<Sum>(_, op, r)\<leftarrow>log s. quota_gain op r)"
  using mem_quota.reach_le [OF assms] mem_quota.reach_gain [OF assms] by simp

text \<open>
  Two threads race for 60 bytes each under a quota of 100: both load 0, the first exchange
  wins, the second fails, observes 60 and is refused.
\<close>

definition race_pcs :: "(quota_op, quota_result) pc \<Rightarrow> (quota_op, quota_result) pc \<Rightarrow> nat \<Rightarrow> (quota_op, quota_result) pc" where
  "race_pcs p q = (\<lambda>_. Idle)(0 := p, 1 := q)"

definition race_state ::
    "u64 \<Rightarrow> (quota_op, quota_result) pc \<Rightarrow> (quota_op, quota_result) pc
       \<Rightarrow> (nat \<times> quota_op \<times> quota_result) list \<Rightarrow> (quota_op, quota_result) cas_state" where
  "race_state c p q l = \<lparr>cell = c, pcs = race_pcs p q, log = l\<rparr>"

lemma race_upd:
  "(race_pcs p q)(0 := p') = race_pcs p' q" "(race_pcs p q)(Suc 0 := q') = race_pcs p q'"
  "race_pcs p q 0 = p" "race_pcs p q (Suc 0) = q"
  by (auto simp: race_pcs_def fun_eq_iff)

lemma race_reachable:
  fixes op :: quota_op and ok err :: quota_result
  assumes op: "op = Consume 60" and ok: "ok = Consumed (Ok 60)"
    and err: "err = Consumed (Err (MemoryExhausted 60 100))"
  shows "cas_reach (quota_body 100) 0
    (race_state 60 (Returning op ok) (Returning op err) [(0, op, ok), (1, op, err)])"
proof -
  let ?b = "quota_body 100"
  have body: "?b op 0 = Commit 60 ok" "?b op 60 = Refuse err"
    by (simp_all add: op ok err consume_body_eq)
  have "cas_init 0 = race_state 0 Idle Idle []"
    by (simp add: cas_init_def race_state_def race_pcs_def fun_eq_iff)
  then have r0: "cas_reach ?b 0 (race_state 0 Idle Idle [])"
    by (metis cas_reach.init)
  have "cas_step ?b (race_state 0 Idle Idle []) (race_state 0 (Called op) Idle [])"
    using cas_step.call [of "race_state 0 Idle Idle []" 0 ?b op] by (simp add: race_state_def race_upd)
  from cas_reach.step [OF r0 this] have r1: "cas_reach ?b 0 (race_state 0 (Called op) Idle [])" .
  have "cas_step ?b (race_state 0 (Called op) Idle []) (race_state 0 (Called op) (Called op) [])"
    using cas_step.call [of "race_state 0 (Called op) Idle []" 1 ?b op] by (simp add: race_state_def race_upd)
  from cas_reach.step [OF r1 this] have r2: "cas_reach ?b 0 (race_state 0 (Called op) (Called op) [])" .
  have "cas_step ?b (race_state 0 (Called op) (Called op) []) (race_state 0 (Looping op 0) (Called op) [])"
    using cas_step.load [of "race_state 0 (Called op) (Called op) []" 0 op ?b 60 ok] body(1)
    by (simp add: race_state_def race_upd)
  from cas_reach.step [OF r2 this] have r3: "cas_reach ?b 0 (race_state 0 (Looping op 0) (Called op) [])" .
  have "cas_step ?b (race_state 0 (Looping op 0) (Called op) []) (race_state 0 (Looping op 0) (Looping op 0) [])"
    using cas_step.load [of "race_state 0 (Looping op 0) (Called op) []" 1 op ?b 60 ok] body(1)
    by (simp add: race_state_def race_upd)
  from cas_reach.step [OF r3 this] have r4: "cas_reach ?b 0 (race_state 0 (Looping op 0) (Looping op 0) [])" .
  have "cas_step ?b (race_state 0 (Looping op 0) (Looping op 0) [])
      (race_state 60 (Returning op ok) (Looping op 0) [(0, op, ok)])"
    using cas_step.cas_ok [of "race_state 0 (Looping op 0) (Looping op 0) []" 0 op ?b 60 ok] body(1)
    by (simp add: race_state_def race_upd)
  from cas_reach.step [OF r4 this]
  have r5: "cas_reach ?b 0 (race_state 60 (Returning op ok) (Looping op 0) [(0, op, ok)])" .
  have "cas_step ?b (race_state 60 (Returning op ok) (Looping op 0) [(0, op, ok)])
      (race_state 60 (Returning op ok) (Returning op err) [(0, op, ok), (1, op, err)])"
    using cas_step.cas_refuse [of "race_state 60 (Returning op ok) (Looping op 0) [(0, op, ok)]" 1 op 0 ?b err] body(2)
    by (simp add: race_state_def race_upd)
  from cas_reach.step [OF r5 this] show ?thesis .
qed

theorem mem_quota_concurrent_witness:
  "let s = race_state 60 (Returning (Consume 60) (Consumed (Ok 60)))
             (Returning (Consume 60) (Consumed (Err (MemoryExhausted 60 100))))
             [(0, Consume 60, Consumed (Ok 60)), (1, Consume 60, Consumed (Err (MemoryExhausted 60 100)))]
   in cas_reach (quota_body 100) 0 s \<and> unat (cell s) \<le> unat (100 :: u64)
      \<and> (\<Sum>(_, op, r)\<leftarrow>log s. quota_gain op r) = 60"
  using mem_quota_concurrent [OF race_reachable [OF refl refl refl]] race_reachable [OF refl refl refl]
  by (simp add: race_state_def)

text \<open>
  What the quota promises: a ledger over unbounded numbers, with no wrap-around, no retries and
  one operation at a time.
\<close>

datatype ledger_reply = Charged nat | Denied | Credited nat bool nat

fun ledger_step :: "nat \<Rightarrow> quota_op \<Rightarrow> nat \<Rightarrow> nat \<times> ledger_reply" where
  "ledger_step limit (Consume n) used =
     (if used + unat n \<le> limit then (used + unat n, Charged (used + unat n)) else (used, Denied))"
| "ledger_step limit (Release n) used =
     (used - unat n, Credited (min used (unat n)) (used < unat n) (used - unat n))"

fun ledger_run :: "nat \<Rightarrow> nat \<Rightarrow> quota_op list \<Rightarrow> nat \<times> ledger_reply list" where
  "ledger_run limit used [] = (used, [])"
| "ledger_run limit used (op # ops) =
     (let (used', r) = ledger_step limit op used; (used'', rs) = ledger_run limit used' ops in (used'', r # rs))"

fun reply_of :: "quota_result \<Rightarrow> ledger_reply" where
  "reply_of (Consumed (Inr v)) = Charged (unat v)"
| "reply_of (Consumed (Inl _)) = Denied"
| "reply_of (Released (out, after)) = Credited (unat (released out)) (clamped out) (unat after)"

lemma quota_atomic_refines:
  assumes "cas_atomic (quota_body limit) op c = (c', r)"
  shows "ledger_step (unat limit) op (unat c) = (unat c', reply_of r)"
  using assms
  by (cases op) (auto simp: cas_atomic_def consume_body_eq release_body_eq unat_add_le_limit unat_ops word_less_nat_alt
      min_def word_le_nat_alt split: if_splits)

lemma quota_replay_refines:
  "cas_replay (quota_body limit) c ops = (c', rs) \<Longrightarrow> ledger_run (unat limit) (unat c) ops = (unat c', map reply_of rs)"
proof (induction ops arbitrary: c rs)
  case (Cons op ops)
  obtain c1 r where a: "cas_atomic (quota_body limit) op c = (c1, r)" by (cases "cas_atomic (quota_body limit) op c")
  with Cons.prems obtain rs1 where "cas_replay (quota_body limit) c1 ops = (c', rs1)" and "rs = r # rs1"
    by (auto split: prod.splits)
  with Cons.IH [of c1 rs1] quota_atomic_refines [OF a] show ?case by simp
qed simp

text \<open>
  C30: the quota loops implement the ledger. In every state that concurrent consume and release
  calls reach, weak exchanges failing at any time, the calls that took effect can be put in an
  order in which the ledger, run on them one after another, grants, denies and returns exactly what
  each call reported, and ends with the bytes the counter holds; a thread about to return has its
  own call in that order, with the result it returns.
\<close>

theorem quota_calls_linearizable:
  assumes "cas_reach (quota_body limit) c s"
  shows "ledger_run (unat limit) (unat c) (log_ops (log s)) = (unat (cell s), map reply_of (log_results (log s)))
    \<and> (pcs s t = Returning op r \<longrightarrow> last_of t (log s) = Some (op, r))"
  using quota_replay_refines [of limit c] cas_reach_linear [OF assms] cas_reach_returns [OF assms]
  by (simp add: cas_linear_def cas_returns_logged_def)

theorem quota_calls_linearizable_witness:
  "let op = Consume 60; ok = Consumed (Ok 60); err = Consumed (Err (MemoryExhausted 60 100));
       s = race_state 60 (Returning op ok) (Returning op err) [(0, op, ok), (1, op, err)]
   in cas_reach (quota_body 100) 0 s
      \<and> ledger_run 100 0 [op, op] = (60, [Charged 60, Denied])
      \<and> last_of 1 (log s) = Some (op, err)"
  using quota_calls_linearizable [OF race_reachable [OF refl refl refl], of 1]
    race_reachable [OF refl refl refl]
  by (simp add: race_state_def race_upd log_ops_def log_results_def)

section \<open>Sequential behaviour\<close>

lemma consume_cas_eq:
  "consume_cas c n limit =
     (if unat c + unat n \<le> unat limit then (c + n, Ok (c + n)) else (c, Err (MemoryExhausted n limit)))"
  by (simp add: consume_cas_def cas_atomic_def consume_body_eq)

lemma release_cas_eq:
  "release_cas c n =
     (saturating_sub c n, \<lparr>released = min c n, clamped = c < n\<rparr>, saturating_sub c n)"
  by (simp add: release_cas_def cas_atomic_def release_body_eq)

lemma consume_bytes_inner_eq:
  "consume_bytes_inner ctx n =
     (if unat (bytes_in_use ctx) + unat n \<le> unat (memory_quota_bytes ctx)
      then (publish_memory_gauge (ctx\<lparr>bytes_in_use := bytes_in_use ctx + n\<rparr>) (bytes_in_use ctx + n), Ok ())
      else (ctx, Err (MemoryExhausted n (memory_quota_bytes ctx))))"
  by (simp add: consume_bytes_inner_def consume_cas_eq)

lemma release_bytes_inner_eq:
  "release_bytes_inner ctx n =
     (publish_memory_gauge (ctx\<lparr>bytes_in_use := saturating_sub (bytes_in_use ctx) n\<rparr>)
        (saturating_sub (bytes_in_use ctx) n),
      \<lparr>released = min (bytes_in_use ctx) n, clamped = bytes_in_use ctx < n\<rparr>)"
  by (simp add: release_bytes_inner_def release_cas_eq)

lemma publish_memory_gauge_fields [simp]:
  "bytes_in_use (publish_memory_gauge ctx v) = bytes_in_use ctx"
  "memory_quota_bytes (publish_memory_gauge ctx v) = memory_quota_bytes ctx"
  "gpu_bytes_in_use (publish_memory_gauge ctx v) = gpu_bytes_in_use ctx"
  "tenant_id (publish_memory_gauge ctx v) = tenant_id ctx"
  "registry_token (publish_memory_gauge ctx v) = registry_token ctx"
  by (simp_all add: publish_memory_gauge_def)

text \<open>
  A release reports exactly what it did: \<open>released\<close> is what left the counter, it is less
  than requested exactly when \<open>clamped\<close> is set, and that is exactly when more was released
  than was in use. The counter never wraps.
\<close>

theorem release_outcome_truthful:
  assumes "release_bytes_inner ctx n = (ctx', out)"
  shows "unat (bytes_in_use ctx) = unat (bytes_in_use ctx') + unat (released out)
    \<and> (clamped out \<longleftrightarrow> unat (bytes_in_use ctx) < unat n)
    \<and> (clamped out \<longleftrightarrow> released out < n)
    \<and> (\<not> clamped out \<longrightarrow> released out = n)"
  using assms by (auto simp: release_bytes_inner_eq unat_ops min_def word_unat_eq_iff split: if_splits)

theorem release_outcome_truthful_witness:
  "let ctx = fst (build None (\<lambda>_. True) 0 (builder_new 7))\<lparr>bytes_in_use := 10\<rparr>;
       (ctx', out) = release_bytes_inner ctx 25
   in clamped out \<and> released out = 10 \<and> unat (bytes_in_use ctx) = unat (bytes_in_use ctx') + unat (released out)"
proof -
  let ?ctx = "fst (build None (\<lambda>_. True) 0 (builder_new 7))\<lparr>bytes_in_use := 10\<rparr>"
  obtain ctx' out where call: "release_bytes_inner ?ctx 25 = (ctx', out)"
    by (cases "release_bytes_inner ?ctx 25")
  have "released out = 10" using call by (auto simp: release_bytes_inner_eq)
  then show ?thesis using release_outcome_truthful [OF call] call by simp
qed

text \<open>
  A quota counter can only be moved by its own tenant's capability from the registry that
  registered the context. With any other capability, or on a context that was never
  registered, all four capability-checked operations return an isolation violation naming the
  capability's tenant, and the context is unchanged.
\<close>

theorem foreign_capability_rejected:
  assumes "\<not> (cap_tenant_id cap = tenant_id ctx \<and> registry_token ctx = Some (cap_registry_token cap))"
  shows "consume_bytes_with_capability ctx cap n
        = (ctx, Err (TenantIsolationViolation (cap_tenant_id cap) ''quota.consume_bytes''))
    \<and> release_bytes_with_capability ctx cap n
        = (ctx, Err (TenantIsolationViolation (cap_tenant_id cap) ''quota.release_bytes''))
    \<and> consume_gpu_bytes_with_capability drv ctx cap n
        = (ctx, Err (TenantIsolationViolation (cap_tenant_id cap) ''quota.consume_gpu_bytes''))
    \<and> release_gpu_bytes_with_capability ctx cap n
        = (ctx, Err (TenantIsolationViolation (cap_tenant_id cap) ''quota.release_gpu_bytes''))"
  using assms
  by (auto simp: consume_bytes_with_capability_def release_bytes_with_capability_def
      consume_gpu_bytes_with_capability_def release_gpu_bytes_with_capability_def check_capability_def)

theorem foreign_capability_rejected_witness:
  "let ctx = (fst (build None (\<lambda>_. True) 0 (builder_new 7)))\<lparr>registry_token := Some 1\<rparr>;
       cap = tenant_capability_mint 7 2
   in consume_bytes_with_capability ctx cap 1
        = (ctx, Err (TenantIsolationViolation 7 ''quota.consume_bytes''))"
proof -
  let ?ctx = "(fst (build None (\<lambda>_. True) 0 (builder_new 7)))\<lparr>registry_token := Some 1\<rparr>"
  let ?cap = "tenant_capability_mint 7 2"
  have "\<not> (cap_tenant_id ?cap = tenant_id ?ctx \<and> registry_token ?ctx = Some (cap_registry_token ?cap))"
    by (simp add: tenant_capability_mint_def)
  from foreign_capability_rejected [OF this] show ?thesis
    by (simp add: tenant_capability_mint_def)
qed

subsection \<open>GPU counter\<close>

lemma pin_driver_pool_fields [simp]:
  "gpu_bytes_in_use (pin_driver_pool drv ctx) = gpu_bytes_in_use ctx"
  "isolation (pin_driver_pool drv ctx) = isolation ctx"
  "has_cu_context (pin_driver_pool drv ctx) = has_cu_context ctx"
  "gpu_memory_bytes_cap (pin_driver_pool drv ctx) = gpu_memory_bytes_cap ctx"
  "bytes_in_use (pin_driver_pool drv ctx) = bytes_in_use ctx"
  "registry_token (pin_driver_pool drv ctx) = registry_token ctx"
  "tenant_id (pin_driver_pool drv ctx) = tenant_id ctx"
  by (auto simp: pin_driver_pool_def split: option.split)

lemma publish_gpu_memory_gauge_fields [simp]:
  "gpu_bytes_in_use (publish_gpu_memory_gauge ctx v) = gpu_bytes_in_use ctx"
  "gpu_memory_bytes_cap (publish_gpu_memory_gauge ctx v) = gpu_memory_bytes_cap ctx"
  by (simp_all add: publish_gpu_memory_gauge_def)

lemma consume_gpu_bytes_capped:
  assumes "gpu_memory_bytes_cap ctx = Some cap"
  shows "consume_gpu_bytes drv ctx n =
     (if unat (gpu_bytes_in_use ctx) + unat n \<le> unat cap
      then (pin_driver_pool drv (publish_gpu_memory_gauge
              (ctx\<lparr>gpu_bytes_in_use := gpu_bytes_in_use ctx + n\<rparr>) (gpu_bytes_in_use ctx + n)), Ok ())
      else (ctx, Err (GpuMemoryExhausted n cap (gpu_bytes_in_use ctx))))"
  using assms by (simp add: consume_gpu_bytes_def cas_atomic_def gpu_consume_body_capped)

lemma check_allocation_eq:
  "check_allocation c n cap =
     (if unat c + unat n \<le> unat cap then Ok () else Err (GpuMemoryExhausted n cap c))"
  using gpu_consume_body_capped [of cap n c]
  by (auto simp: check_allocation_def gpu_consume_body_def not_le split: option.splits if_splits)

text \<open>
  The tenant's GPU counter takes the same decision as the shared quota predicate
  \<open>check_allocation\<close> of the core crate, with the same error, and a refused allocation leaves
  the context unchanged while an accepted one raises the counter by exactly the bytes asked
  for and never above the cap.
\<close>

theorem consume_gpu_bytes_is_check_allocation:
  assumes "gpu_memory_bytes_cap ctx = Some cap" and "consume_gpu_bytes drv ctx n = (ctx', r)"
  shows "r = check_allocation (gpu_bytes_in_use ctx) n cap
    \<and> (if is_ok r then unat (gpu_bytes_in_use ctx') = unat (gpu_bytes_in_use ctx) + unat n
                     \<and> gpu_bytes_in_use ctx' \<le> cap
       else ctx' = ctx)"
  using assms
  by (auto simp: consume_gpu_bytes_capped check_allocation_eq unat_add_le_limit word_le_nat_alt)

theorem consume_gpu_bytes_is_check_allocation_witness:
  "let ctx = fst (build None (\<lambda>_. True) 0 ((builder_new 7)\<lparr>b_gpu_memory_bytes_cap := Some 100\<rparr>));
       (ctx', r) = consume_gpu_bytes (\<lambda>_. True) ctx 60
   in r = Ok () \<and> gpu_bytes_in_use ctx' = 60 \<and> gpu_bytes_in_use ctx' \<le> 100
      \<and> r = check_allocation (gpu_bytes_in_use ctx) 60 100"
proof -
  let ?ctx = "fst (build None (\<lambda>_. True) 0 ((builder_new 7)\<lparr>b_gpu_memory_bytes_cap := Some 100\<rparr>))"
  have cap: "gpu_memory_bytes_cap ?ctx = Some 100" and use: "gpu_bytes_in_use ?ctx = 0"
    by (simp_all add: build_def Let_def builder_new_def)
  obtain ctx' r where call: "consume_gpu_bytes (\<lambda>_. True) ?ctx 60 = (ctx', r)"
    by (cases "consume_gpu_bytes (\<lambda>_. True) ?ctx 60")
  from consume_gpu_bytes_is_check_allocation [OF cap call] call show ?thesis
    by (auto simp: use check_allocation_eq word_unat_eq_iff consume_gpu_bytes_capped [OF cap])
qed

text \<open>
  A tenant without a GPU cap is never refused. The counter adds the bytes and sticks at
  \<open>u64::MAX\<close> instead of wrapping, and a release always brings it down by what it reports.
\<close>

theorem uncapped_gpu_never_refused:
  assumes "gpu_memory_bytes_cap ctx = None" and "consume_gpu_bytes drv ctx n = (ctx1, r)"
    and "release_gpu_bytes_inner ctx1 m = (ctx2, out)"
  shows "r = Ok () \<and> unat (gpu_bytes_in_use ctx1) = min (unat (gpu_bytes_in_use ctx) + unat n) u64_max
    \<and> unat (gpu_bytes_in_use ctx1) = unat (gpu_bytes_in_use ctx2) + unat (released out)
    \<and> (\<not> clamped out \<longrightarrow> released out = m)"
proof -
  have c1: "gpu_bytes_in_use ctx1 = saturating_add (gpu_bytes_in_use ctx) n" and "r = Ok ()"
    using assms(1,2) by (auto simp: consume_gpu_bytes_def cas_atomic_def gpu_consume_body_uncapped)
  moreover have c2: "gpu_bytes_in_use ctx2 = saturating_sub (gpu_bytes_in_use ctx1) m"
    and "out = \<lparr>released = min (gpu_bytes_in_use ctx1) m, clamped = gpu_bytes_in_use ctx1 < m\<rparr>"
    using assms(3) by (auto simp: release_gpu_bytes_inner_def cas_atomic_def release_body_eq)
  moreover have "unat (gpu_bytes_in_use ctx1) = min (unat (gpu_bytes_in_use ctx) + unat n) u64_max"
    unfolding c1 by (simp add: unat_saturating_add sat_def)
  ultimately show ?thesis
    by (auto simp: unat_saturating_sub unat_min min_def not_less word_le_nat_alt word_unat_eq_iff)
qed

theorem uncapped_gpu_never_refused_witness:
  "let ctx = (fst (build None (\<lambda>_. True) 0 (builder_new 7)))\<lparr>gpu_bytes_in_use := word_max - 10\<rparr>;
       (ctx1, r) = consume_gpu_bytes (\<lambda>_. True) ctx 100;
       (ctx2, out) = release_gpu_bytes_inner ctx1 4096
   in r = Ok () \<and> unat (gpu_bytes_in_use ctx1) = u64_max
      \<and> unat (gpu_bytes_in_use ctx1) = unat (gpu_bytes_in_use ctx2) + unat (released out)"
proof -
  let ?ctx = "(fst (build None (\<lambda>_. True) 0 (builder_new 7)))\<lparr>gpu_bytes_in_use := word_max - 10\<rparr>"
  have cap: "gpu_memory_bytes_cap ?ctx = None" by (simp add: build_def Let_def builder_new_def)
  have use: "unat (gpu_bytes_in_use ?ctx) = u64_max - 10" by simp
  obtain ctx1 r where c: "consume_gpu_bytes (\<lambda>_. True) ?ctx 100 = (ctx1, r)"
    by (cases "consume_gpu_bytes (\<lambda>_. True) ?ctx 100")
  obtain ctx2 out where d: "release_gpu_bytes_inner ctx1 4096 = (ctx2, out)"
    by (cases "release_gpu_bytes_inner ctx1 4096")
  have "unat (100 :: u64) = 100" by simp
  with uncapped_gpu_never_refused [OF cap c d] use have "r = Ok () \<and> unat (gpu_bytes_in_use ctx1) = u64_max
      \<and> unat (gpu_bytes_in_use ctx1) = unat (gpu_bytes_in_use ctx2) + unat (released out)"
    by simp
  then show ?thesis using c d by simp
qed

text \<open>
  A CUDA build reports the isolation it really provides: the built context says
  \<open>ContextIsolated\<close> exactly when a real CUDA context was created for it, and the downgrade
  counter moves exactly when the isolation reported is not the one requested.
\<close>

theorem build_reports_real_isolation:
  "(isolation (fst (build (Some driver_ok) drv now b)) = ContextIsolated
      \<longleftrightarrow> has_cu_context (fst (build (Some driver_ok) drv now b)))
   \<and> (snd (build (Some driver_ok) drv now b) = 1
      \<longleftrightarrow> isolation (fst (build (Some driver_ok) drv now b)) \<noteq> b_isolation b)"
  by (auto simp: build_def Let_def build_cuda_context_def)

end
