(* ===== verification/Tenant_Registry.thy ===== *)
theory Tenant_Registry
  imports Tenant_Context "HOL-Library.AList"
begin

text \<open>
  The process-wide tenant registry, \<^verbatim>\<open>crates/tensor-wasm-tenant/src/registry.rs\<close>:
  registration with the orphan check, unregistration into tombstones, pruning, and the
  capability-gated administrative operations in their legacy and strict forms.

  An \<open>Arc<TenantContext>\<close> is an address of the store \<open>ctxs\<close> with its strong count in
  \<open>strong\<close>; the two \<open>DashMap\<close>s are association lists with distinct keys. Each operation holds
  the shard guard of its key for its whole decision, so it is one atomic step. The step
  relation adds what other holders of an \<open>Arc\<close> may do at any time: clone it, upgrade a
  \<open>Weak\<close> while it is alive, drop it, and call the context's own operations, which change its
  counters and never its tenant or its registry.
\<close>

section \<open>Model\<close>

datatype registry_error =
    AlreadyRegistered tenant_id
  | OrphanStillAlive tenant_id
  | CapabilityFromForeignRegistry

record admin_capability =
  admin_token :: nat

record registry =
  inner_map :: "(tenant_id \<times> nat) list"
  tombstones :: "(tenant_id \<times> nat) list"
  reg_token :: nat
  ctxs :: "nat \<Rightarrow> tenant_context"
  strong :: "nat \<Rightarrow> nat"
  next_arc :: nat
  foreign_cap_rejections :: nat

definition PRUNE_TOMBSTONE_THRESHOLD :: nat where
  "PRUNE_TOMBSTONE_THRESHOLD = 1024"

definition registry_new :: "nat \<Rightarrow> (nat \<Rightarrow> tenant_context) \<Rightarrow> registry \<times> admin_capability" where
  "registry_new token junk =
     (\<lparr>inner_map = [], tombstones = [], reg_token = token, ctxs = junk,
       strong = (\<lambda>_. 0), next_arc = 0, foreign_cap_rejections = 0\<rparr>,
      \<lparr>admin_token = token\<rparr>)"

definition prune_dead_tombstones_except :: "registry \<Rightarrow> tenant_id \<Rightarrow> registry" where
  "prune_dead_tombstones_except r skip_id =
     r\<lparr>tombstones := filter (\<lambda>(i, a). i = skip_id \<or> strong r a > 0) (tombstones r)\<rparr>"

definition maybe_prune_dead_tombstones_except :: "registry \<Rightarrow> tenant_id \<Rightarrow> registry" where
  "maybe_prune_dead_tombstones_except r skip_id =
     (if length (tombstones r) > PRUNE_TOMBSTONE_THRESHOLD
      then prune_dead_tombstones_except r skip_id else r)"

text \<open>
  The insert of the success arm: the context is stamped with the registry's token, moved into
  a fresh \<open>Arc\<close>, and the map and the caller hold one strong reference each.
\<close>

definition insert_registered :: "registry \<Rightarrow> tenant_context \<Rightarrow> registry" where
  "insert_registered r ctx =
     (let a = next_arc r
      in r\<lparr>inner_map := AList.update (tenant_id ctx) a (inner_map r),
           tombstones := AList.delete (tenant_id ctx) (tombstones r),
           ctxs := (ctxs r)(a := ctx\<lparr>registry_token := Some (reg_token r)\<rparr>),
           strong := (strong r)(a := 2), next_arc := Suc a\<rparr>)"

definition register_with_capability ::
    "registry \<Rightarrow> tenant_context \<Rightarrow> registry \<times> (registry_error, nat \<times> tenant_capability) result" where
  "register_with_capability r ctx =
     (let i = tenant_id ctx
      in case map_of (inner_map r) i of
           Some _ \<Rightarrow> (r, Err (AlreadyRegistered i))
         | None \<Rightarrow>
             (case map_of (tombstones r) i of
                Some tomb \<Rightarrow>
                  if strong r tomb > 0 then (r, Err (OrphanStillAlive i))
                  else (maybe_prune_dead_tombstones_except (insert_registered r ctx) i,
                        Ok (next_arc r, tenant_capability_mint i (reg_token r)))
              | None \<Rightarrow>
                  (maybe_prune_dead_tombstones_except (insert_registered r ctx) i,
                   Ok (next_arc r, tenant_capability_mint i (reg_token r)))))"

definition register :: "registry \<Rightarrow> tenant_context \<Rightarrow> registry \<times> (registry_error, nat) result" where
  "register r ctx = apsnd (map_sum id fst) (register_with_capability r ctx)"

definition check_admin_cap :: "registry \<Rightarrow> admin_capability \<Rightarrow> registry \<times> (registry_error, unit) result" where
  "check_admin_cap r cap =
     (if reg_token r = admin_token cap then (r, Ok ())
      else (r\<lparr>foreign_cap_rejections := Suc (foreign_cap_rejections r)\<rparr>, Err CapabilityFromForeignRegistry))"

text \<open>Cloning an \<open>Arc\<close> out of the map raises its strong count.\<close>

definition clone_arc :: "nat \<Rightarrow> registry \<Rightarrow> registry" where
  "clone_arc a r = r\<lparr>strong := (strong r)(a := Suc (strong r a))\<rparr>"

definition get_strict :: "registry \<Rightarrow> tenant_id \<Rightarrow> admin_capability \<Rightarrow> registry \<times> (registry_error, nat option) result" where
  "get_strict r i cap =
     (case check_admin_cap r cap of
        (r', Inl e) \<Rightarrow> (r', Err e)
      | (r', Inr _) \<Rightarrow>
          (case map_of (inner_map r') i of
             None \<Rightarrow> (r', Ok None)
           | Some a \<Rightarrow> (clone_arc a r', Ok (Some a))))"

definition get :: "registry \<Rightarrow> tenant_id \<Rightarrow> admin_capability \<Rightarrow> registry \<times> nat option" where
  "get r i cap =
     (case check_admin_cap r cap of
        (r', Inl e) \<Rightarrow> (r', None)
      | (r', Inr _) \<Rightarrow>
          (case map_of (inner_map r') i of
             None \<Rightarrow> (r', None)
           | Some a \<Rightarrow> (clone_arc a r', Some a)))"

text \<open>
  The tombstone is inserted before the slot is emptied; the map's reference moves to the
  caller, so the strong count stays as it is.
\<close>

definition unregister_entry :: "registry \<Rightarrow> tenant_id \<Rightarrow> nat \<Rightarrow> registry" where
  "unregister_entry r i a =
     maybe_prune_dead_tombstones_except
       (r\<lparr>tombstones := AList.update i a (tombstones r), inner_map := AList.delete i (inner_map r)\<rparr>) i"

definition unregister :: "registry \<Rightarrow> tenant_id \<Rightarrow> admin_capability \<Rightarrow> registry \<times> nat option" where
  "unregister r i cap =
     (case check_admin_cap r cap of
        (r', Inl e) \<Rightarrow> (r', None)
      | (r', Inr _) \<Rightarrow>
          (case map_of (inner_map r') i of
             None \<Rightarrow> (r', None)
           | Some a \<Rightarrow> (unregister_entry r' i a, Some a)))"

definition unregister_strict :: "registry \<Rightarrow> tenant_id \<Rightarrow> admin_capability \<Rightarrow> registry \<times> (registry_error, nat option) result" where
  "unregister_strict r i cap =
     (case check_admin_cap r cap of
        (r', Inl e) \<Rightarrow> (r', Err e)
      | (r', Inr _) \<Rightarrow>
          (case map_of (inner_map r') i of
             None \<Rightarrow> (r', Ok None)
           | Some a \<Rightarrow> (unregister_entry r' i a, Ok (Some a))))"

definition collect_tombstones :: "registry \<Rightarrow> admin_capability \<Rightarrow> registry \<times> nat" where
  "collect_tombstones r cap =
     (case check_admin_cap r cap of
        (r', Inl e) \<Rightarrow> (r', 0)
      | (r', Inr _) \<Rightarrow>
          (r'\<lparr>tombstones := filter (\<lambda>(_, a). strong r' a \<noteq> 0) (tombstones r')\<rparr>,
           length (filter (\<lambda>(_, a). strong r' a = 0) (tombstones r'))))"

definition tombstone_count :: "registry \<Rightarrow> nat" where
  "tombstone_count r = length (tombstones r)"

definition registry_len :: "registry \<Rightarrow> admin_capability \<Rightarrow> registry \<times> nat" where
  "registry_len r cap =
     (case check_admin_cap r cap of (r', Inl e) \<Rightarrow> (r', 0) | (r', Inr _) \<Rightarrow> (r', length (inner_map r')))"

definition registry_len_strict :: "registry \<Rightarrow> admin_capability \<Rightarrow> registry \<times> (registry_error, nat) result" where
  "registry_len_strict r cap =
     (case check_admin_cap r cap of (r', Inl e) \<Rightarrow> (r', Err e) | (r', Inr _) \<Rightarrow> (r', Ok (length (inner_map r'))))"

definition clone_all :: "registry \<Rightarrow> registry" where
  "clone_all r = fold clone_arc (map snd (inner_map r)) r"

definition tenants :: "registry \<Rightarrow> admin_capability \<Rightarrow> registry \<times> nat list" where
  "tenants r cap =
     (case check_admin_cap r cap of
        (r', Inl e) \<Rightarrow> (r', [])
      | (r', Inr _) \<Rightarrow> (clone_all r', map snd (inner_map r')))"

definition tenants_strict :: "registry \<Rightarrow> admin_capability \<Rightarrow> registry \<times> (registry_error, nat list) result" where
  "tenants_strict r cap =
     (case check_admin_cap r cap of
        (r', Inl e) \<Rightarrow> (r', Err e)
      | (r', Inr _) \<Rightarrow> (clone_all r', Ok (map snd (inner_map r'))))"

definition tenant_ids :: "registry \<Rightarrow> admin_capability \<Rightarrow> registry \<times> tenant_id list" where
  "tenant_ids r cap =
     (case check_admin_cap r cap of (r', Inl e) \<Rightarrow> (r', []) | (r', Inr _) \<Rightarrow> (r', map fst (inner_map r')))"

subsection \<open>MPS probe\<close>

datatype mps_decision = Mps string | Fallback

text \<open>
  \<open>is_absolute\<close> and \<open>exists\<close> are the path and file-system queries; \<open>join_control\<close> appends
  \<open>control\<close> to a directory.
\<close>

definition MPS_CONTROL_PATH :: string where
  "MPS_CONTROL_PATH = ''/tmp/nvidia-mps''"

definition probe_mps_env_and_disk ::
    "(string \<Rightarrow> bool) \<Rightarrow> (string \<Rightarrow> string) \<Rightarrow> (string \<Rightarrow> bool) \<Rightarrow> string option \<Rightarrow> mps_decision" where
  "probe_mps_env_and_disk is_absolute join_control file_exists env_dir =
     (case env_dir of
        Some d \<Rightarrow> if \<not> is_absolute d then Fallback
                  else if file_exists (join_control d) then Mps d else Fallback
      | None \<Rightarrow> if file_exists (join_control MPS_CONTROL_PATH) then Mps MPS_CONTROL_PATH else Fallback)"

section \<open>The step relation\<close>

text \<open>The references the map itself holds to an \<open>Arc\<close>; the rest are other holders'.\<close>

definition map_refs :: "registry \<Rightarrow> nat \<Rightarrow> nat" where
  "map_refs r a = length (filter (\<lambda>(_, b). b = a) (inner_map r))"

inductive registry_step :: "registry \<Rightarrow> registry \<Rightarrow> bool" where
  register: "registry_step r (fst (register_with_capability r ctx))"
| get: "registry_step r (fst (get_strict r i cap))"
| unregister: "registry_step r (fst (unregister_strict r i cap))"
| collect: "registry_step r (fst (collect_tombstones r cap))"
| list: "registry_step r (fst (tenants_strict r cap))"
| clone: "strong r a > 0 \<Longrightarrow> registry_step r (clone_arc a r)"
| drop: "strong r a > map_refs r a \<Longrightarrow> registry_step r (r\<lparr>strong := (strong r)(a := strong r a - 1)\<rparr>)"
| mutate: "tenant_id c = tenant_id (ctxs r a) \<Longrightarrow> registry_token c = registry_token (ctxs r a)
    \<Longrightarrow> registry_step r (r\<lparr>ctxs := (ctxs r)(a := c)\<rparr>)"

inductive registry_reach :: "registry \<Rightarrow> bool" where
  start: "registry_reach (fst (registry_new token junk))"
| step: "registry_reach r \<Longrightarrow> registry_step r r' \<Longrightarrow> registry_reach r'"

section \<open>The invariant\<close>

text \<open>
  Beside the map's own facts, the invariant says where every live context is: it is the one
  registered under its tenant, or the tombstone of its tenant points to it.
\<close>

definition registry_wf :: "registry \<Rightarrow> bool" where
  "registry_wf r \<longleftrightarrow>
     distinct (map fst (inner_map r)) \<and> distinct (map fst (tombstones r))
   \<and> (\<forall>i a. map_of (inner_map r) i = Some a \<longrightarrow>
        map_of (tombstones r) i = None \<and> a < next_arc r \<and> strong r a > 0
        \<and> tenant_id (ctxs r a) = i \<and> registry_token (ctxs r a) = Some (reg_token r))
   \<and> (\<forall>i a. map_of (tombstones r) i = Some a \<longrightarrow> a < next_arc r \<and> tenant_id (ctxs r a) = i)
   \<and> (\<forall>a. strong r a > 0 \<longrightarrow> a < next_arc r
        \<and> (map_of (inner_map r) (tenant_id (ctxs r a)) = Some a
            \<or> map_of (tombstones r) (tenant_id (ctxs r a)) = Some a))"

declare map_of_eq_Some_iff [simp del] Some_eq_map_of_iff [simp del]

lemma map_of_filter_Some_iff:
  "distinct (map fst al) \<Longrightarrow> map_of (filter P al) i = Some a \<longleftrightarrow> map_of al i = Some a \<and> P (i, a)"
  by (simp add: map_of_eq_Some_iff distinct_map_filter)

lemma map_of_filter_None:
  "distinct (map fst al) \<Longrightarrow> map_of al i = None \<Longrightarrow> map_of (filter P al) i = None"
  by (metis map_of_filter_Some_iff not_None_eq)

lemma registry_wf_new: "registry_wf (fst (registry_new token junk))"
  by (simp add: registry_wf_def registry_new_def)

text \<open>Removing dead tombstones keeps the invariant: only live ones are needed.\<close>

lemma registry_wf_filter:
  assumes "registry_wf r" and "\<And>i a. strong r a > 0 \<Longrightarrow> P (i, a)"
  shows "registry_wf (r\<lparr>tombstones := filter P (tombstones r)\<rparr>)"
proof -
  have d: "distinct (map fst (tombstones r))" using assms(1) by (simp add: registry_wf_def)
  have keep: "map_of (filter P (tombstones r)) i = Some a"
    if "map_of (tombstones r) i = Some a" "strong r a > 0" for i a
    using that assms(2) map_of_filter_Some_iff [OF d] by blast
  have orig: "map_of (tombstones r) i = Some a" if "map_of (filter P (tombstones r)) i = Some a" for i a
    using that map_of_filter_Some_iff [OF d] by blast
  show ?thesis
    using assms(1) unfolding registry_wf_def
    by (auto simp: distinct_map_filter map_of_filter_None [OF d] dest: orig) (metis keep)
qed

lemma registry_wf_maybe_prune: "registry_wf r \<Longrightarrow> registry_wf (maybe_prune_dead_tombstones_except r i)"
  by (auto simp: maybe_prune_dead_tombstones_except_def prune_dead_tombstones_except_def
      intro!: registry_wf_filter)

lemma registry_wf_insert:
  assumes "registry_wf r" and "map_of (inner_map r) (tenant_id ctx) = None"
    and "\<And>a. map_of (tombstones r) (tenant_id ctx) = Some a \<Longrightarrow> strong r a = 0"
  shows "registry_wf (insert_registered r ctx)"
proof -
  have fresh: "strong r (next_arc r) = 0" using assms(1) by (auto simp: registry_wf_def)
  have live: "tenant_id (ctxs r a) \<noteq> tenant_id ctx" if "strong r a > 0" for a
  proof
    assume eq: "tenant_id (ctxs r a) = tenant_id ctx"
    have "map_of (inner_map r) (tenant_id (ctxs r a)) = Some a
        \<or> map_of (tombstones r) (tenant_id (ctxs r a)) = Some a"
      using assms(1) that by (simp add: registry_wf_def)
    with eq that assms(2,3) show False by fastforce
  qed
  show ?thesis
    using assms(1) fresh live unfolding registry_wf_def insert_registered_def Let_def
    by (auto simp: update_conv' delete_conv' distinct_update distinct_delete less_SucI)
qed

lemma registry_wf_register: "registry_wf r \<Longrightarrow> registry_wf (fst (register_with_capability r ctx))"
  by (auto simp: register_with_capability_def Let_def
      intro!: registry_wf_maybe_prune registry_wf_insert split: option.split)

lemma registry_wf_unregister_entry:
  assumes "registry_wf r" and "map_of (inner_map r) i = Some a"
  shows "registry_wf (unregister_entry r i a)"
proof -
  have "registry_wf (r\<lparr>tombstones := AList.update i a (tombstones r), inner_map := AList.delete i (inner_map r)\<rparr>)"
    using assms unfolding registry_wf_def
    by (auto simp: update_conv' delete_conv' distinct_update distinct_delete)
       (metis option.distinct(1) option.inject)
  then show ?thesis unfolding unregister_entry_def by (rule registry_wf_maybe_prune)
qed

lemma registry_wf_foreign: "registry_wf (r\<lparr>foreign_cap_rejections := k\<rparr>) = registry_wf r"
  by (simp add: registry_wf_def)

lemma check_admin_cap_cases:
  obtains (own) "reg_token r = admin_token cap" and "check_admin_cap r cap = (r, Ok ())"
  | (foreign) "reg_token r \<noteq> admin_token cap"
      and "check_admin_cap r cap =
        (r\<lparr>foreign_cap_rejections := Suc (foreign_cap_rejections r)\<rparr>, Err CapabilityFromForeignRegistry)"
  by (auto simp: check_admin_cap_def)

lemma registry_wf_unregister: "registry_wf r \<Longrightarrow> registry_wf (fst (unregister_strict r i cap))"
  by (rule check_admin_cap_cases [where r = r and cap = cap])
     (auto simp: unregister_strict_def registry_wf_foreign registry_wf_unregister_entry split: option.split)

lemma registry_wf_clone: "registry_wf r \<Longrightarrow> strong r a > 0 \<Longrightarrow> registry_wf (clone_arc a r)"
  by (auto simp: registry_wf_def clone_arc_def)

lemma registry_wf_get: "registry_wf r \<Longrightarrow> registry_wf (fst (get_strict r i cap))"
  by (rule check_admin_cap_cases [where r = r and cap = cap])
     (auto simp: get_strict_def registry_wf_foreign registry_wf_def [of r]
       intro!: registry_wf_clone split: option.split)

lemma strong_clone_all: "\<forall>a \<in> set as. strong r a > 0 \<Longrightarrow> registry_wf r \<Longrightarrow> registry_wf (fold clone_arc as r)"
proof (induction as arbitrary: r)
  case Nil
  then show ?case by simp
next
  case (Cons a as)
  then have "registry_wf (clone_arc a r)" by (simp add: registry_wf_clone)
  moreover have "\<forall>b \<in> set as. strong (clone_arc a r) b > 0" using Cons.prems(1) by (simp add: clone_arc_def)
  ultimately show ?case by (simp add: Cons.IH)
qed

lemma registry_wf_registered_live: "registry_wf r \<Longrightarrow> \<forall>a \<in> set (map snd (inner_map r)). strong r a > 0"
  by (auto simp: registry_wf_def map_of_eq_Some_iff)

lemma registry_wf_tenants: "registry_wf r \<Longrightarrow> registry_wf (fst (tenants_strict r cap))"
  by (rule check_admin_cap_cases [where r = r and cap = cap])
     (simp_all add: tenants_strict_def registry_wf_foreign clone_all_def strong_clone_all
       registry_wf_registered_live)

lemma registry_wf_collect: "registry_wf r \<Longrightarrow> registry_wf (fst (collect_tombstones r cap))"
  by (rule check_admin_cap_cases [where r = r and cap = cap])
     (auto simp: collect_tombstones_def registry_wf_foreign intro!: registry_wf_filter)

lemma map_refs_pos: "map_of (inner_map r) i = Some a \<Longrightarrow> map_refs r a > 0"
  by (auto simp: map_refs_def filter_empty_conv dest: map_of_SomeD)

lemma registry_wf_drop:
  assumes "registry_wf r" and "strong r a > map_refs r a"
  shows "registry_wf (r\<lparr>strong := (strong r)(a := strong r a - 1)\<rparr>)"
proof -
  have "strong r a - 1 > 0" if "map_of (inner_map r) i = Some a" for i
    using map_refs_pos [OF that] assms(2) by linarith
  with assms(1) show ?thesis unfolding registry_wf_def by auto
qed

lemma registry_wf_mutate:
  "registry_wf r \<Longrightarrow> tenant_id c = tenant_id (ctxs r a) \<Longrightarrow> registry_token c = registry_token (ctxs r a)
    \<Longrightarrow> registry_wf (r\<lparr>ctxs := (ctxs r)(a := c)\<rparr>)"
  by (auto simp: registry_wf_def)

lemma registry_wf_step: "registry_step r r' \<Longrightarrow> registry_wf r \<Longrightarrow> registry_wf r'"
  by (induction rule: registry_step.induct)
     (simp_all add: registry_wf_register registry_wf_get registry_wf_unregister registry_wf_collect
        registry_wf_tenants registry_wf_clone registry_wf_drop registry_wf_mutate del: One_nat_def)

lemma registry_reach_wf: "registry_reach r \<Longrightarrow> registry_wf r"
  by (induction rule: registry_reach.induct) (auto intro: registry_wf_new registry_wf_step)

section \<open>Registration\<close>

lemma registry_wf_live:
  assumes "registry_wf r" and "strong r a > 0"
  shows "map_of (inner_map r) (tenant_id (ctxs r a)) = Some a
    \<or> map_of (inner_map r) (tenant_id (ctxs r a)) = None
       \<and> map_of (tombstones r) (tenant_id (ctxs r a)) = Some a"
proof -
  have place: "map_of (inner_map r) (tenant_id (ctxs r a)) = Some a
      \<or> map_of (tombstones r) (tenant_id (ctxs r a)) = Some a"
    using assms by (simp add: registry_wf_def)
  have exclusive: "map_of (tombstones r) i = None" if "map_of (inner_map r) i = Some b" for i b
    using assms(1) that by (simp add: registry_wf_def)
  show ?thesis
    by (cases "map_of (inner_map r) (tenant_id (ctxs r a))") (use place exclusive in fastforce)+
qed

lemma registry_wf_unique:
  assumes "registry_wf r" and "strong r a > 0" and "strong r b > 0"
    and "tenant_id (ctxs r a) = tenant_id (ctxs r b)"
  shows "a = b"
  using registry_wf_live [OF assms(1,2)] registry_wf_live [OF assms(1,3)]
  unfolding assms(4) by (elim disjE conjE) simp_all

lemma register_with_capability_cases:
  assumes "registry_wf r"
  obtains (already) a where "map_of (inner_map r) (tenant_id ctx) = Some a"
      and "strong r a > 0" and "tenant_id (ctxs r a) = tenant_id ctx"
      and "register_with_capability r ctx = (r, Err (AlreadyRegistered (tenant_id ctx)))"
  | (orphan) a where "map_of (inner_map r) (tenant_id ctx) = None"
      and "map_of (tombstones r) (tenant_id ctx) = Some a"
      and "strong r a > 0" and "tenant_id (ctxs r a) = tenant_id ctx"
      and "register_with_capability r ctx = (r, Err (OrphanStillAlive (tenant_id ctx)))"
  | (fresh) "\<And>a. strong r a > 0 \<Longrightarrow> tenant_id (ctxs r a) \<noteq> tenant_id ctx"
      and "register_with_capability r ctx =
        (maybe_prune_dead_tombstones_except (insert_registered r ctx) (tenant_id ctx),
         Ok (next_arc r, tenant_capability_mint (tenant_id ctx) (reg_token r)))"
proof (cases "map_of (inner_map r) (tenant_id ctx)")
  case (Some a)
  with assms show ?thesis
    by (intro already [of a]) (auto simp: registry_wf_def register_with_capability_def Let_def)
next
  case none: None
  show ?thesis
  proof (cases "\<exists>a. map_of (tombstones r) (tenant_id ctx) = Some a \<and> strong r a > 0")
    case True
    with assms none show ?thesis
      by (auto simp: registry_wf_def register_with_capability_def Let_def intro: orphan)
  next
    case False
    have "tenant_id (ctxs r a) \<noteq> tenant_id ctx" if "strong r a > 0" for a
      using registry_wf_live [OF assms that] none False that by auto
    then show ?thesis
      using none False
      by (intro fresh) (auto simp: register_with_capability_def Let_def split: option.split)
  qed
qed

lemma maybe_prune_simps [simp]:
  "inner_map (maybe_prune_dead_tombstones_except r i) = inner_map r"
  "ctxs (maybe_prune_dead_tombstones_except r i) = ctxs r"
  "strong (maybe_prune_dead_tombstones_except r i) = strong r"
  "reg_token (maybe_prune_dead_tombstones_except r i) = reg_token r"
  "next_arc (maybe_prune_dead_tombstones_except r i) = next_arc r"
  by (simp_all add: maybe_prune_dead_tombstones_except_def prune_dead_tombstones_except_def)

lemma insert_registered_sel [simp]:
  "inner_map (insert_registered r ctx) = AList.update (tenant_id ctx) (next_arc r) (inner_map r)"
  "ctxs (insert_registered r ctx) = (ctxs r)(next_arc r := ctx\<lparr>registry_token := Some (reg_token r)\<rparr>)"
  "strong (insert_registered r ctx) = (strong r)(next_arc r := 2)"
  "reg_token (insert_registered r ctx) = reg_token r"
  by (simp_all add: insert_registered_def Let_def)

lemma check_capability_tenant: "check_capability c cap res = Ok () \<Longrightarrow> tenant_id c = cap_tenant_id cap"
  by (auto simp: check_capability_def split: if_splits)

text \<open>
  C4: whatever registrations, evictions, prunes, clones and drops happen in whatever order, no
  two live contexts ever belong to the same tenant, so a tenant has one set of quota counters.
\<close>

theorem one_live_context_per_tenant:
  "registry_reach r \<Longrightarrow> inj_on (\<lambda>a. tenant_id (ctxs r a)) {a. strong r a > 0}"
  by (auto simp: inj_on_def intro: registry_wf_unique registry_reach_wf)

text \<open>Two tenants, the first evicted while a caller still holds its context.\<close>

definition demo_context :: "tenant_id \<Rightarrow> tenant_context" where
  "demo_context i = fst (build None (\<lambda>_. True) 0 (builder_new i))"

definition demo_start :: registry where
  "demo_start = fst (registry_new 1 (\<lambda>_. demo_context 0))"

definition demo_evicted :: registry where
  "demo_evicted =
     fst (register_with_capability
       (fst (unregister_strict (fst (register_with_capability demo_start (demo_context 7))) 7 \<lparr>admin_token = 1\<rparr>))
       (demo_context 8))"

lemma demo_evicted_reach: "registry_reach demo_evicted"
  unfolding demo_evicted_def demo_start_def
  by (intro registry_reach.step [OF _ registry_step.register] registry_reach.step [OF _ registry_step.unregister]
      registry_reach.start)

lemma demo_tenant [simp]: "tenant_id (demo_context i) = i"
  by (simp add: demo_context_def build_def builder_new_def pin_driver_pool_def Let_def)

lemmas demo_evals = demo_evicted_def demo_start_def registry_new_def register_with_capability_def
  unregister_strict_def check_admin_cap_def unregister_entry_def insert_registered_def
  maybe_prune_dead_tombstones_except_def PRUNE_TOMBSTONE_THRESHOLD_def Let_def

lemma demo_evicted_eq:
  "inner_map demo_evicted = [(8, 1)]" "tombstones demo_evicted = [(7, 0)]"
  "strong demo_evicted = (\<lambda>_. 0)(0 := 2, Suc 0 := 2)" "reg_token demo_evicted = 1"
  "tenant_id (ctxs demo_evicted 0) = 7" "tenant_id (ctxs demo_evicted (Suc 0)) = 8"
  by (simp_all add: demo_evals)

theorem one_live_context_per_tenant_witness:
  "strong demo_evicted 0 > 0 \<and> strong demo_evicted 1 > 0
   \<and> tenant_id (ctxs demo_evicted 0) \<noteq> tenant_id (ctxs demo_evicted 1)"
  using inj_onD [OF one_live_context_per_tenant [OF demo_evicted_reach], of 0 1]
  by (auto simp: demo_evicted_eq)

text \<open>
  C35: registration succeeds exactly when no context of the tenant is alive anywhere, registered
  or orphaned. A refused registration changes nothing and names the reason; a successful one
  leaves every other context alone, and the context it installs is the one a lookup with the
  registry's own capability returns and the only one the minted capability opens.
\<close>

theorem register_with_capability_spec:
  assumes "registry_reach r"
  shows "case register_with_capability r ctx of
      (r', Inl e) \<Rightarrow> r' = r
        \<and> (\<exists>a. strong r a > 0 \<and> tenant_id (ctxs r a) = tenant_id ctx
              \<and> e = (if map_of (inner_map r) (tenant_id ctx) = Some a then AlreadyRegistered (tenant_id ctx)
                     else OrphanStillAlive (tenant_id ctx)))
    | (r', Inr (a, cap)) \<Rightarrow>
        (\<forall>b. strong r b > 0 \<longrightarrow> tenant_id (ctxs r b) \<noteq> tenant_id ctx)
        \<and> snd (get r' (tenant_id ctx) \<lparr>admin_token = reg_token r\<rparr>) = Some a
        \<and> ctxs r' = (ctxs r)(a := ctx\<lparr>registry_token := Some (reg_token r)\<rparr>)
        \<and> strong r' = (strong r)(a := 2) \<and> strong r a = 0
        \<and> (\<forall>b res. strong r' b > 0 \<longrightarrow> check_capability (ctxs r' b) cap res = Ok () \<longrightarrow> b = a)
        \<and> check_capability (ctxs r' a) cap res = Ok ()"
proof -
  have wf: "registry_wf r" using assms by (rule registry_reach_wf)
  show ?thesis
    using wf
  proof (cases rule: register_with_capability_cases [where ctx = ctx])
    case (already a)
    then show ?thesis by auto
  next
    case (orphan a)
    then show ?thesis by auto
  next
    case fresh
    have unused: "strong r (next_arc r) = 0" using wf by (auto simp: registry_wf_def)
    have only: "b = next_arc r" if "strong (insert_registered r ctx) b > 0"
        "check_capability (ctxs (insert_registered r ctx) b) (tenant_capability_mint (tenant_id ctx) (reg_token r)) x = Ok ()"
      for b x
      using that(1) check_capability_tenant [OF that(2)] fresh(1) [of b]
      by (simp add: tenant_capability_mint_def split: if_splits)
    have opens: "check_capability (ctxs (insert_registered r ctx) (next_arc r))
        (tenant_capability_mint (tenant_id ctx) (reg_token r)) res = Ok ()"
      by (simp add: check_capability_def tenant_capability_mint_def)
    show ?thesis
      unfolding fresh(2) prod.case sum.case maybe_prune_simps
    proof (intro conjI allI impI)
      show "snd (get (maybe_prune_dead_tombstones_except (insert_registered r ctx) (tenant_id ctx))
          (tenant_id ctx) \<lparr>admin_token = reg_token r\<rparr>) = Some (next_arc r)"
        by (simp add: get_def check_admin_cap_def update_conv')
    qed (fact fresh(1) insert_registered_sel(2,3) unused opens | erule (1) only)+
  qed
qed

theorem register_with_capability_spec_witness:
  "snd (register_with_capability demo_evicted (demo_context 7)) = Err (OrphanStillAlive 7)
   \<and> fst (register_with_capability demo_evicted (demo_context 7)) = demo_evicted"
proof -
  have out: "snd (register_with_capability demo_evicted (demo_context 7)) = Err (OrphanStillAlive 7)"
    by (simp add: register_with_capability_def demo_evicted_eq)
  show ?thesis
    using register_with_capability_spec [OF demo_evicted_reach, of "demo_context 7"] out
    by (cases "register_with_capability demo_evicted (demo_context 7)") simp
qed

section \<open>Administrative capabilities\<close>

text \<open>
  A capability of another registry learns nothing and changes nothing but the rejection
  counter. Every gated operation answers it as if the registry were empty, and the strict forms
  say \<open>CapabilityFromForeignRegistry\<close>.
\<close>

theorem foreign_admin_cap_inert:
  assumes "admin_token cap \<noteq> reg_token r"
  defines "r' \<equiv> r\<lparr>foreign_cap_rejections := Suc (foreign_cap_rejections r)\<rparr>"
  shows "get r i cap = (r', None) \<and> get_strict r i cap = (r', Err CapabilityFromForeignRegistry)
    \<and> unregister r i cap = (r', None) \<and> unregister_strict r i cap = (r', Err CapabilityFromForeignRegistry)
    \<and> registry_len r cap = (r', 0) \<and> registry_len_strict r cap = (r', Err CapabilityFromForeignRegistry)
    \<and> tenants r cap = (r', []) \<and> tenants_strict r cap = (r', Err CapabilityFromForeignRegistry)
    \<and> tenant_ids r cap = (r', []) \<and> collect_tombstones r cap = (r', 0)"
proof -
  have "check_admin_cap r cap = (r', Err CapabilityFromForeignRegistry)"
    using assms by (simp add: check_admin_cap_def)
  then show ?thesis
    by (simp add: get_def get_strict_def unregister_def unregister_strict_def registry_len_def
        registry_len_strict_def tenants_def tenants_strict_def tenant_ids_def collect_tombstones_def)
qed

theorem foreign_admin_cap_inert_witness:
  "snd (unregister demo_evicted 8 \<lparr>admin_token = 2\<rparr>) = None
   \<and> inner_map (fst (unregister demo_evicted 8 \<lparr>admin_token = 2\<rparr>)) = [(8, 1)]
   \<and> snd (unregister demo_evicted 8 \<lparr>admin_token = 1\<rparr>) = Some 1"
proof -
  have "admin_token \<lparr>admin_token = 2\<rparr> \<noteq> reg_token demo_evicted" by (simp add: demo_evicted_eq)
  from foreign_admin_cap_inert [OF this, of 8] show ?thesis
    by (simp add: demo_evicted_eq) (simp add: unregister_def check_admin_cap_def demo_evicted_eq)
qed

text \<open>
  Eviction closes the tenant's slot until the evicted context is gone. Right after
  \<open>unregister\<close> the caller holds the context, every registration of the tenant is refused with
  \<open>OrphanStillAlive\<close>, also from a capability's holder; once the last reference is dropped a
  registration succeeds.
\<close>

theorem unregister_then_register:
  assumes "registry_reach r" and "map_of (inner_map r) (tenant_id ctx) = Some a"
  defines "r' \<equiv> fst (unregister r (tenant_id ctx) \<lparr>admin_token = reg_token r\<rparr>)"
  shows "snd (unregister r (tenant_id ctx) \<lparr>admin_token = reg_token r\<rparr>) = Some a
    \<and> map_of (inner_map r') (tenant_id ctx) = None
    \<and> snd (register_with_capability r' ctx) = Err (OrphanStillAlive (tenant_id ctx))
    \<and> is_ok (snd (register_with_capability (r'\<lparr>strong := (strong r)(a := 0)\<rparr>) ctx))"
proof -
  have wf: "registry_wf r" using assms(1) by (rule registry_reach_wf)
  have d: "distinct (map fst (AList.update (tenant_id ctx) a (tombstones r)))"
    using wf by (simp add: registry_wf_def distinct_update)
  have live: "strong r a > 0" using wf assms(2) by (simp add: registry_wf_def)
  have r': "r' = unregister_entry r (tenant_id ctx) a"
    using assms(2) by (simp add: r'_def unregister_def check_admin_cap_def)
  have gone: "map_of (inner_map r') (tenant_id ctx) = None"
    by (simp add: r' unregister_entry_def delete_conv')
  have tomb: "map_of (tombstones r') (tenant_id ctx) = Some a"
    using map_of_filter_Some_iff [OF d] by (simp add: r' unregister_entry_def update_conv'
        maybe_prune_dead_tombstones_except_def prune_dead_tombstones_except_def)
  have str: "strong r' = strong r" by (simp add: r' unregister_entry_def)
  show ?thesis
    using gone tomb live str assms(2)
    by (simp add: register_with_capability_def Let_def unregister_def check_admin_cap_def)
qed

theorem unregister_then_register_witness:
  "let r = fst (unregister demo_evicted 8 \<lparr>admin_token = 1\<rparr>)
   in snd (register_with_capability r (demo_context 8)) = Err (OrphanStillAlive 8)
      \<and> is_ok (snd (register_with_capability (r\<lparr>strong := (strong demo_evicted)(1 := 0)\<rparr>) (demo_context 8)))"
  using unregister_then_register [OF demo_evicted_reach, of "demo_context 8" 1]
  by (simp add: demo_evicted_eq Let_def)

end
