(* ===== verification/Gpu_Abi.thy ===== *)
theory Gpu_Abi
  imports Cas_Loop "HOL-Library.AList"
begin

text \<open>
  The shared vocabulary of the \<^verbatim>\<open>wasi-cuda\<close> host interface,
  \<^verbatim>\<open>crates/tensor-wasm-wasi-gpu/src/abi.rs\<close>: the error codes of the wire and the caps the
  host enforces; and the contract of an owner-checked handle table, which the kernel registry
  and the device-memory registry both implement. The isolation facts a host relies on are
  proved once in the locales and reached through their interpretations.
\<close>

section \<open>Error codes and caps\<close>

type_synonym instance_id = u64
type_synonym kernel_id = u64

datatype abi_error =
    NotAvailable
  | InvalidPointer
  | InvalidKernel
  | MalformedPtx
  | LaunchFailed
  | QuotaExceeded
  | Internal
  | InvalidDimensions
  | InvalidArgs
  | KernelArgsUnsupported
  | InvalidHandle

fun abi_error_code :: "abi_error \<Rightarrow> int" where
  "abi_error_code NotAvailable = -1"
| "abi_error_code InvalidPointer = -2"
| "abi_error_code InvalidKernel = -3"
| "abi_error_code MalformedPtx = -4"
| "abi_error_code LaunchFailed = -5"
| "abi_error_code QuotaExceeded = -6"
| "abi_error_code Internal = -7"
| "abi_error_code InvalidDimensions = -8"
| "abi_error_code InvalidArgs = -9"
| "abi_error_code KernelArgsUnsupported = -10"
| "abi_error_code InvalidHandle = -11"

fun abi_error_name :: "abi_error \<Rightarrow> string" where
  "abi_error_name NotAvailable = ''not_available''"
| "abi_error_name InvalidPointer = ''invalid_pointer''"
| "abi_error_name InvalidKernel = ''invalid_kernel''"
| "abi_error_name MalformedPtx = ''malformed_ptx''"
| "abi_error_name LaunchFailed = ''launch_failed''"
| "abi_error_name QuotaExceeded = ''quota_exceeded''"
| "abi_error_name Internal = ''internal''"
| "abi_error_name InvalidDimensions = ''invalid_dimensions''"
| "abi_error_name InvalidArgs = ''invalid_args''"
| "abi_error_name KernelArgsUnsupported = ''kernel_args_unsupported''"
| "abi_error_name InvalidHandle = ''invalid_handle''"

definition MAX_PTX_BYTES :: nat where
  "MAX_PTX_BYTES = 8 * 1024 * 1024"

definition MAX_KERNELS_PER_INSTANCE :: nat where
  "MAX_KERNELS_PER_INSTANCE = 256"

definition MAX_THREADS_PER_BLOCK :: nat where
  "MAX_THREADS_PER_BLOCK = 1024"

definition MAX_BLOCK_DIM :: nat where
  "MAX_BLOCK_DIM = 1024"

definition MAX_GRID_DIM :: nat where
  "MAX_GRID_DIM = 2 ^ 31 - 1"

text \<open>Every code is negative and tells its error, so a guest can match on the number alone.\<close>

lemma abi_error_code_inject: "abi_error_code a = abi_error_code b \<longleftrightarrow> a = b"
  by (cases a; cases b) simp_all

lemma abi_error_code_neg: "abi_error_code a < 0"
  by (cases a) simp_all

section \<open>Reservation loops\<close>

text \<open>
  The compare-and-swap loop that \<open>KernelRegistry::register\<close>, \<open>DeviceMemRegistry::insert\<close> and
  \<open>DeviceMemBudget::try_reserve\<close> share, with the cap as a parameter, and the \<open>fetch_update\<close>
  that credits bytes back.
\<close>

definition reserve_body :: "u64 \<Rightarrow> u64 \<Rightarrow> u64 \<Rightarrow> (abi_error, unit) result verdict" where
  "reserve_body cap n current =
     (let next = saturating_add current n
      in if next > cap then Refuse (Err QuotaExceeded) else Commit next (Ok ()))"

definition credit_body :: "u64 \<Rightarrow> u64 \<Rightarrow> (abi_error, unit) result verdict" where
  "credit_body n current = Commit (saturating_sub current n) (Ok ())"

definition reserve :: "u64 \<Rightarrow> u64 \<Rightarrow> u64 \<Rightarrow> u64 \<times> (abi_error, unit) result" where
  "reserve cap n current = cas_atomic (reserve_body cap) n current"

definition credit :: "u64 \<Rightarrow> u64 \<Rightarrow> u64" where
  "credit n current = fst (cas_atomic credit_body n current)"

lemma credit_eq: "credit n current = saturating_sub current n"
  by (simp add: credit_def cas_atomic_def credit_body_def)

lemma unat_credit [unat_ops]: "unat (credit n current) = unat current - unat n"
  by (simp add: credit_eq unat_ops)

text \<open>
  With a cap below the type's maximum the saturating addition decides exactly as addition on
  \<^typ>\<open>nat\<close> would: a saturated sum is above every such cap.
\<close>

lemma reserve_body_eq:
  assumes "cap < word_max"
  shows "reserve_body cap n c =
    (if unat c + unat n \<le> unat cap then Commit (c + n) (Ok ()) else Refuse (Err QuotaExceeded))"
proof (cases "unat c + unat n < 2 ^ 64")
  case True
  then show ?thesis
    by (auto simp: reserve_body_def saturating_add_def word_less_nat_alt unat_add_nowrap)
next
  case False
  have "unat cap < 2 ^ 64" using unsigned_less [of cap, where 'a = nat] by simp
  with False assms show ?thesis by (simp add: reserve_body_def saturating_add_def)
qed

lemma reserve_eq:
  assumes "cap < word_max"
  shows "reserve cap n c =
    (if unat c + unat n \<le> unat cap then (c + n, Ok ()) else (c, Err QuotaExceeded))"
  by (simp add: reserve_def cas_atomic_def reserve_body_eq [OF assms])

lemma unat_add_le_cap: "unat c + unat n \<le> unat (cap :: u64) \<Longrightarrow> unat (c + n :: u64) = unat c + unat n"
  using unsigned_less [of cap, where 'a = nat] by (intro unat_add_nowrap) simp

datatype counter_op = Reserve u64 | Credit u64

fun counter_body :: "u64 \<Rightarrow> counter_op \<Rightarrow> u64 \<Rightarrow> (abi_error, unit) result verdict" where
  "counter_body cap (Reserve n) c = reserve_body cap n c"
| "counter_body cap (Credit n) c = credit_body n c"

interpretation byte_counter: capped_counter "counter_body cap" "unat cap" for cap :: u64
proof unfold_locales
  show "unat c' \<le> unat cap" if "counter_body cap op c = Commit c' r" "unat c \<le> unat cap" for op c c' r
    using that
    by (cases op) (auto simp: reserve_body_def credit_body_def Let_def unat_ops split: if_splits)
qed

section \<open>Sums over a table\<close>

text \<open>What a counter beside a table accounts for: the sizes of the entries of the table.\<close>

definition table_sum :: "('e \<Rightarrow> nat) \<Rightarrow> ('k \<times> 'e) list \<Rightarrow> nat" where
  "table_sum f al = (\<Sum>(_, e)\<leftarrow>al. f e)"

lemma table_sum_simps [simp]:
  "table_sum f [] = 0"
  "table_sum f (x # al) = f (snd x) + table_sum f al"
  by (simp_all add: table_sum_def case_prod_unfold)

lemma table_sum_update: "map_of al h = None \<Longrightarrow> table_sum f (AList.update h e al) = table_sum f al + f e"
  by (induction al) (auto split: if_splits)

lemma length_update_fresh: "map_of al h = None \<Longrightarrow> length (AList.update h e al) = Suc (length al)"
  by (induction al) (auto split: if_splits)

lemma delete_notin: "map_of al h = None \<Longrightarrow> AList.delete h al = al"
  by (induction al) (auto simp: AList.delete_eq split: if_splits)

lemma delete_update_fresh: "map_of al h = None \<Longrightarrow> AList.delete h (AList.update h e al) = al"
  by (induction al) (auto split: if_splits)

lemma table_sum_delete:
  "distinct (map fst al) \<Longrightarrow> map_of al h = Some e \<Longrightarrow> table_sum f al = table_sum f (AList.delete h al) + f e"
proof (induction al)
  case (Cons x al)
  show ?case
  proof (cases "fst x = h")
    case True
    with Cons.prems(1) have "map_of al h = None" by (simp add: map_of_eq_None_iff)
    with True Cons.prems(2) show ?thesis by (cases x) (simp add: delete_notin)
  next
    case False
    with Cons show ?thesis by (cases x) simp
  qed
qed simp

lemma length_delete:
  "distinct (map fst al) \<Longrightarrow> map_of al h = Some e \<Longrightarrow> length al = Suc (length (AList.delete h al))"
  using table_sum_delete [of al h e "\<lambda>_. 1"] by (simp add: table_sum_def sum_list_triv case_prod_unfold)

section \<open>Owner-checked handle tables\<close>

text \<open>
  \<open>room n s\<close>: the handle counter of \<open>s\<close> can issue \<open>n\<close> more handles before it wraps.
\<close>

locale owned_table =
  fixes insert :: "'s \<Rightarrow> 'e \<Rightarrow> 's \<times> (abi_error, u64) result"
    and lookup :: "'s \<Rightarrow> u64 \<Rightarrow> instance_id \<Rightarrow> (abi_error, 'e) result"
    and owner :: "'e \<Rightarrow> instance_id"
    and missing :: abi_error
    and inv :: "'s \<Rightarrow> bool"
    and room :: "nat \<Rightarrow> 's \<Rightarrow> bool"
  assumes lookup_owner: "lookup s h o' = Ok e \<Longrightarrow> owner e = o'"
    and lookup_same: "lookup s h o1 = Ok e1 \<Longrightarrow> lookup s h o2 = Ok e2 \<Longrightarrow> e1 = e2"
    and lookup_missing: "lookup s h o' = Err x \<Longrightarrow> x = missing"
    and insert_inv: "inv s \<Longrightarrow> room (Suc n) s \<Longrightarrow> inv (fst (insert s e)) \<and> room n (fst (insert s e))"
    and insert_ok: "inv s \<Longrightarrow> room 1 s \<Longrightarrow> insert s e = (s', Ok h) \<Longrightarrow>
      lookup s' h (owner e) = Ok e \<and> (\<forall>o'. lookup s h o' = Err missing)
      \<and> (\<forall>h' o'. h' \<noteq> h \<longrightarrow> lookup s' h' o' = lookup s h' o')"
    and insert_err: "inv s \<Longrightarrow> insert s e = (s', Err x) \<Longrightarrow> s' = s \<and> x = QuotaExceeded"
    and room_mono: "room (Suc n) s \<Longrightarrow> room n s"
begin

lemma lookup_cases: "lookup s h o' = Err missing \<or> (\<exists>e. lookup s h o' = Ok e \<and> owner e = o')"
  by (cases "lookup s h o'") (auto dest: lookup_owner lookup_missing)

lemma room_one: "room (Suc n) s \<Longrightarrow> room 1 s"
  by (induction n) (auto dest: room_mono)

text \<open>Inserting for one owner is invisible to every other owner, at every handle.\<close>

lemma insert_invisible:
  assumes "inv s" and "room 1 s" and "owner e \<noteq> o'"
  shows "lookup (fst (insert s e)) h o' = lookup s h o'"
proof (cases "insert s e")
  case (Pair s' out)
  show ?thesis
  proof (cases out)
    case (Inl x)
    with Pair insert_err [OF assms(1)] show ?thesis by auto
  next
    case (Inr k)
    note ok = insert_ok [OF assms(1,2) Pair [unfolded Inr]]
    have "lookup s' k o' = Err missing"
      using lookup_cases [of s' k o'] lookup_same [of s' k "owner e" e o'] ok assms(3) by blast
    then show ?thesis using Pair Inr ok by (cases "h = k") auto
  qed
qed

end

text \<open>A sequence of operations on a table, and the instance each one acts for.\<close>

datatype 'e table_op = TInsert 'e | TFree u64 instance_id

primrec table_run ::
    "('s \<Rightarrow> 'e \<Rightarrow> 's \<times> (abi_error, u64) result)
     \<Rightarrow> ('s \<Rightarrow> u64 \<Rightarrow> instance_id \<Rightarrow> 's \<times> (abi_error, 'e) result) \<Rightarrow> 's \<Rightarrow> 'e table_op list \<Rightarrow> 's" where
  "table_run ins fr s [] = s"
| "table_run ins fr s (op # ops) =
     table_run ins fr (case op of TInsert e \<Rightarrow> fst (ins s e) | TFree h o' \<Rightarrow> fst (fr s h o')) ops"

primrec actor :: "('e \<Rightarrow> instance_id) \<Rightarrow> 'e table_op \<Rightarrow> instance_id" where
  "actor own (TInsert e) = own e"
| "actor own (TFree h o') = o'"

locale freeable_table = owned_table insert lookup owner missing inv room
  for insert :: "'s \<Rightarrow> 'e \<Rightarrow> 's \<times> (abi_error, u64) result"
    and lookup :: "'s \<Rightarrow> u64 \<Rightarrow> instance_id \<Rightarrow> (abi_error, 'e) result"
    and owner :: "'e \<Rightarrow> instance_id"
    and missing :: abi_error
    and inv :: "'s \<Rightarrow> bool"
    and room :: "nat \<Rightarrow> 's \<Rightarrow> bool" +
  fixes free :: "'s \<Rightarrow> u64 \<Rightarrow> instance_id \<Rightarrow> 's \<times> (abi_error, 'e) result"
  assumes free_lookup: "snd (free s h o') = lookup s h o'"
    and free_inv: "inv s \<Longrightarrow> inv (fst (free s h o')) \<and> (room n s \<longrightarrow> room n (fst (free s h o')))"
    and free_err: "lookup s h o' = Err x \<Longrightarrow> fst (free s h o') = s"
    and free_ok: "inv s \<Longrightarrow> lookup s h o' = Ok e \<Longrightarrow> (\<forall>p. lookup (fst (free s h o')) h p = Err missing)
      \<and> (\<forall>k p. k \<noteq> h \<longrightarrow> lookup (fst (free s h o')) k p = lookup s k p)"
begin

text \<open>Freeing as one owner is invisible to every other owner.\<close>

lemma free_invisible:
  assumes "inv s" and "o' \<noteq> p"
  shows "lookup (fst (free s h o')) k p = lookup s k p"
proof (cases "lookup s h o'")
  case (Inl x)
  then show ?thesis by (simp add: free_err)
next
  case (Inr e)
  note ok = free_ok [OF assms(1) Inr]
  have "lookup s h p = Err missing"
    using lookup_cases [of s h p] lookup_same [OF Inr, of p] lookup_owner [OF Inr] assms(2) by blast
  with ok show ?thesis by (cases "k = h") auto
qed

lemma double_free: "inv s \<Longrightarrow> snd (free (fst (free s h o')) h p) = Err missing \<or> lookup s h o' = Err missing"
  using lookup_cases [of s h o'] free_ok by (auto simp: free_lookup)

lemma run_noninterference:
  assumes "inv s" and "room (length ops) s" and "\<forall>op \<in> set ops. actor owner op \<noteq> p"
  shows "lookup (table_run insert free s ops) h p = lookup s h p"
  using assms
proof (induction ops arbitrary: s)
  case Nil
  then show ?case by simp
next
  case (Cons op ops)
  show ?case
  proof (cases op)
    case (TInsert e)
    have "lookup (table_run insert free (fst (insert s e)) ops) h p = lookup (fst (insert s e)) h p"
      using Cons.prems insert_inv [of s "length ops" e] by (intro Cons.IH) auto
    also have "\<dots> = lookup s h p"
      using Cons.prems TInsert room_one by (intro insert_invisible) auto
    finally show ?thesis by (simp add: TInsert)
  next
    case (TFree k o')
    have "lookup (table_run insert free (fst (free s k o')) ops) h p = lookup (fst (free s k o')) h p"
      using Cons.prems free_inv [of s k o' "length ops"] room_mono by (intro Cons.IH) auto
    also have "\<dots> = lookup s h p"
      using Cons.prems TFree by (intro free_invisible) auto
    finally show ?thesis by (simp add: TFree)
  qed
qed

end

end
