(* ===== verification/Kernel_Registry.thy ===== *)
theory Kernel_Registry
  imports Gpu_Abi
begin

text \<open>
  The per-instance registry of compiled kernels,
  \<^verbatim>\<open>crates/tensor-wasm-wasi-gpu/src/registry.rs\<close>: the random id seed, registration under the
  count and byte caps, owner-checked lookup, and removal. The \<open>DashMap\<close> is an association
  list with distinct keys. The module pointer of CUDA builds is not part of the entry: no
  decision of the registry reads it.
\<close>

unbundle bit_operations_syntax

declare map_of_eq_Some_iff [simp del] Some_eq_map_of_iff [simp del]

section \<open>Model\<close>

definition MAX_TOTAL_PTX_BYTES :: u64 where
  "MAX_TOTAL_PTX_BYTES = of_nat (64 * MAX_PTX_BYTES)"

record kernel_entry =
  kernel_owner :: instance_id
  kernel_symbol :: string
  ptx_bytes_len :: u64
  has_module :: bool \<comment> \<open>\<open>module.is_some()\<close>, on CUDA builds\<close>

record kernel_registry =
  next_id :: u64
  kernels :: "(kernel_id \<times> kernel_entry) list"
  total_ptx_bytes :: u64

text \<open>\<open>raw\<close> is the output of the randomly keyed hasher.\<close>

definition random_kernel_id_seed :: "u64 \<Rightarrow> u64" where
  "random_kernel_id_seed raw = (raw AND 0x7fffffffffff0000) OR 1"

definition kernel_registry_new :: "u64 \<Rightarrow> kernel_registry" where
  "kernel_registry_new raw = \<lparr>next_id = random_kernel_id_seed raw, kernels = [], total_ptx_bytes = 0\<rparr>"

definition register_kernel :: "kernel_registry \<Rightarrow> kernel_entry \<Rightarrow> kernel_registry \<times> (abi_error, kernel_id) result" where
  "register_kernel r e =
     (if length (kernels r) \<ge> MAX_KERNELS_PER_INSTANCE then (r, Err QuotaExceeded)
      else case reserve MAX_TOTAL_PTX_BYTES (ptx_bytes_len e) (total_ptx_bytes r) of
             (_, Inl x) \<Rightarrow> (r, Err x)
           | (t, Inr _) \<Rightarrow>
               (r\<lparr>total_ptx_bytes := t, next_id := next_id r + 1,
                  kernels := AList.update (next_id r) e (kernels r)\<rparr>, Ok (next_id r)))"

definition lookup_kernel :: "kernel_registry \<Rightarrow> kernel_id \<Rightarrow> instance_id \<Rightarrow> (abi_error, kernel_entry) result" where
  "lookup_kernel r i own =
     (case map_of (kernels r) i of
        None \<Rightarrow> Err InvalidKernel
      | Some e \<Rightarrow> if kernel_owner e \<noteq> own then Err InvalidKernel else Ok e)"

definition remove_kernel :: "kernel_registry \<Rightarrow> kernel_id \<Rightarrow> kernel_registry \<times> kernel_entry option" where
  "remove_kernel r i =
     (case map_of (kernels r) i of
        None \<Rightarrow> (r, None)
      | Some e \<Rightarrow>
          (r\<lparr>kernels := AList.delete i (kernels r),
             total_ptx_bytes := credit (ptx_bytes_len e) (total_ptx_bytes r)\<rparr>, Some e))"

section \<open>Invariant\<close>

text \<open>
  The byte counter is the sum over the entries, both caps hold, and the ids in use are below
  the counter, which starts in the lower half of the type.
\<close>

definition kernels_wf :: "kernel_registry \<Rightarrow> bool" where
  "kernels_wf r \<longleftrightarrow>
     distinct (map fst (kernels r))
   \<and> (\<forall>i e. map_of (kernels r) i = Some e \<longrightarrow> 0 < i \<and> i < next_id r) \<and> 0 < next_id r
   \<and> length (kernels r) \<le> MAX_KERNELS_PER_INSTANCE
   \<and> unat (total_ptx_bytes r) = table_sum (unat \<circ> ptx_bytes_len) (kernels r)
   \<and> unat (total_ptx_bytes r) \<le> unat MAX_TOTAL_PTX_BYTES"

definition kernels_room :: "nat \<Rightarrow> kernel_registry \<Rightarrow> bool" where
  "kernels_room n r \<longleftrightarrow> unat (next_id r) + n < 2 ^ 64"

lemma MAX_TOTAL_PTX_BYTES_lt: "MAX_TOTAL_PTX_BYTES < word_max"
  by (simp add: MAX_TOTAL_PTX_BYTES_def MAX_PTX_BYTES_def word_less_nat_alt unat_word_max)

lemmas reserve_ptx = reserve_eq [OF MAX_TOTAL_PTX_BYTES_lt]

lemma register_kernel_eq:
  "register_kernel r e =
     (if length (kernels r) < MAX_KERNELS_PER_INSTANCE
         \<and> unat (total_ptx_bytes r) + unat (ptx_bytes_len e) \<le> unat MAX_TOTAL_PTX_BYTES
      then (r\<lparr>total_ptx_bytes := total_ptx_bytes r + ptx_bytes_len e, next_id := next_id r + 1,
              kernels := AList.update (next_id r) e (kernels r)\<rparr>, Ok (next_id r))
      else (r, Err QuotaExceeded))"
  by (auto simp: register_kernel_def reserve_ptx)

lemma next_fresh: "kernels_wf r \<Longrightarrow> map_of (kernels r) (next_id r) = None"
  by (cases "map_of (kernels r) (next_id r)") (auto simp: kernels_wf_def)

lemma unat_next: "kernels_room (Suc n) r \<Longrightarrow> unat (next_id r + 1) = Suc (unat (next_id r))"
  using unat_add_nowrap [of "next_id r" 1] by (simp add: kernels_room_def)

lemma kernels_wf_new: "kernels_wf (kernel_registry_new raw)"
proof -
  have "bit (random_kernel_id_seed raw) 0"
    by (simp add: random_kernel_id_seed_def bit_or_iff bit_1_iff)
  then have "random_kernel_id_seed raw \<noteq> 0" by auto
  then show ?thesis
    by (simp add: kernels_wf_def kernel_registry_new_def word_neq_0_conv)
qed

lemma kernels_wf_register:
  assumes "kernels_wf r" and "kernels_room (Suc n) r"
  shows "kernels_wf (fst (register_kernel r e)) \<and> kernels_room n (fst (register_kernel r e))"
proof -
  have up: "next_id r < next_id r + 1" using unat_next [OF assms(2)] by (simp add: word_less_nat_alt)
  have old: "i < next_id r + 1" if "i < next_id r" for i using that up by (rule less_trans)
  show ?thesis
    using assms up unat_next [OF assms(2)] next_fresh [OF assms(1)]
    by (auto simp: register_kernel_eq kernels_wf_def kernels_room_def table_sum_update length_update_fresh
        distinct_update unat_add_le_cap update_conv' old)
qed

lemma kernels_wf_remove: "kernels_wf r \<Longrightarrow> kernels_wf (fst (remove_kernel r i))"
  by (auto simp: remove_kernel_def kernels_wf_def unat_ops distinct_delete delete_conv'
      dest: table_sum_delete [where f = "unat \<circ> ptx_bytes_len"] length_delete split: option.split)

section \<open>The contract\<close>

interpretation kernel_table: owned_table register_kernel lookup_kernel kernel_owner InvalidKernel kernels_wf kernels_room
proof unfold_locales
  fix r s' e h n and own :: instance_id
  show "kernels_wf r \<Longrightarrow> kernels_room (Suc n) r \<Longrightarrow>
      kernels_wf (fst (register_kernel r e)) \<and> kernels_room n (fst (register_kernel r e))"
    by (rule kernels_wf_register)
  show "lookup_kernel s' h (kernel_owner e) = Ok e \<and> (\<forall>own. lookup_kernel r h own = Err InvalidKernel)
      \<and> (\<forall>h' own. h' \<noteq> h \<longrightarrow> lookup_kernel s' h' own = lookup_kernel r h' own)"
    if "kernels_wf r" "register_kernel r e = (s', Ok h)"
    using that next_fresh [OF that(1)]
    by (auto simp: register_kernel_eq lookup_kernel_def update_conv' split: if_splits)
qed (auto simp: lookup_kernel_def register_kernel_eq kernels_room_def split: option.splits if_splits)

text \<open>The operations of one registry in sequence.\<close>

datatype kernel_op = KRegister kernel_entry | KRemove kernel_id

primrec kernel_run :: "kernel_registry \<Rightarrow> kernel_op list \<Rightarrow> kernel_registry" where
  "kernel_run r [] = r"
| "kernel_run r (op # ops) =
     kernel_run (case op of KRegister e \<Rightarrow> fst (register_kernel r e) | KRemove i \<Rightarrow> fst (remove_kernel r i)) ops"

lemma kernels_room_remove: "kernels_room n (fst (remove_kernel r i)) = kernels_room n r"
  by (auto simp: remove_kernel_def kernels_room_def split: option.split)

lemma kernel_run_wf: "kernels_wf r \<Longrightarrow> kernels_room (length ops) r \<Longrightarrow> kernels_wf (kernel_run r ops)"
proof (induction ops arbitrary: r)
  case (Cons op ops)
  show ?case
  proof (cases op)
    case (KRegister e)
    with Cons kernels_wf_register [of r "length ops" e] show ?thesis by simp
  next
    case (KRemove i)
    with Cons kernels_wf_remove [of r i] kernel_table.room_mono [of "length ops" r] show ?thesis
      by (simp add: kernels_room_remove)
  qed
qed simp

lemma seed_bounds: "unat (random_kernel_id_seed raw) < 2 ^ 63"
proof -
  have top: "n < 63" if "n < 64" "bit (0x7fffffffffff0000 :: u64) n" for n
    using that by (cases "n = 63") auto
  have "take_bit 63 (random_kernel_id_seed raw) = random_kernel_id_seed raw"
    by (rule bit_eqI) (auto simp: random_kernel_id_seed_def bit_simps intro: top)
  then show ?thesis
    by (metis take_bit_nat_less_exp unsigned_take_bit_eq)
qed

text \<open>
  C40: through any sequence of up to \<open>2^63\<close> registrations and removals from a fresh registry,
  whatever its random seed, the byte counter equals the PTX bytes of the kernels registered at
  that time, both per-instance caps hold, and no id in use is zero.
\<close>

theorem kernel_registry_accounting:
  fixes raw :: u64
  assumes "length ops \<le> 2 ^ 63"
  defines "r \<equiv> kernel_run (kernel_registry_new raw) ops"
  shows "unat (total_ptx_bytes r) = (\<Sum>(_, e)\<leftarrow>kernels r. unat (ptx_bytes_len e))
    \<and> unat (total_ptx_bytes r) \<le> 64 * 8 * 1024 * 1024
    \<and> length (kernels r) \<le> 256 \<and> distinct (map fst (kernels r)) \<and> 0 \<notin> fst ` set (kernels r)"
proof -
  have "kernels_room (length ops) (kernel_registry_new raw)"
    using assms(1) seed_bounds [of raw] by (simp add: kernels_room_def kernel_registry_new_def)
  then have wf: "kernels_wf r"
    unfolding r_def by (intro kernel_run_wf kernels_wf_new)
  then have "map_of (kernels r) 0 = None"
    by (cases "map_of (kernels r) 0") (auto simp: kernels_wf_def)
  with wf show ?thesis
    by (auto simp: kernels_wf_def table_sum_def comp_def map_of_eq_None_iff MAX_KERNELS_PER_INSTANCE_def
        MAX_TOTAL_PTX_BYTES_def MAX_PTX_BYTES_def)
qed

definition demo_kernel :: "instance_id \<Rightarrow> kernel_entry" where
  "demo_kernel own = \<lparr>kernel_owner = own, kernel_symbol = ''main'', ptx_bytes_len = 100, has_module = False\<rparr>"

theorem kernel_registry_accounting_witness:
  "let r = kernel_run (kernel_registry_new 0) [KRegister (demo_kernel 3), KRegister (demo_kernel 4), KRemove 1]
   in kernels r = [(2, demo_kernel 4)] \<and> unat (total_ptx_bytes r) = 100"
proof -
  let ?ops = "[KRegister (demo_kernel 3), KRegister (demo_kernel 4), KRemove 1]"
  have "kernels (kernel_run (kernel_registry_new 0) ?ops) = [(2, demo_kernel 4)]"
    by (simp add: register_kernel_eq remove_kernel_def kernel_registry_new_def random_kernel_id_seed_def
        demo_kernel_def MAX_KERNELS_PER_INSTANCE_def MAX_TOTAL_PTX_BYTES_def MAX_PTX_BYTES_def)
  with kernel_registry_accounting [of ?ops 0] show ?thesis by (simp add: demo_kernel_def Let_def)
qed

text \<open>
  A kernel is visible to the instance that registered it and to no other. After a
  registration by one instance, every lookup by any other instance at any id, the new one
  included, answers exactly what it answered before; the owner's lookup returns the entry.
\<close>

theorem kernel_lookup_isolated:
  assumes "kernels_wf r" and "kernels_room 1 r" and "register_kernel r e = (r', Ok i)"
  shows "lookup_kernel r' i (kernel_owner e) = Ok e
    \<and> (\<forall>own. own \<noteq> kernel_owner e \<longrightarrow> lookup_kernel r' i own = Err InvalidKernel)
    \<and> (\<forall>j own. own \<noteq> kernel_owner e \<longrightarrow> lookup_kernel r' j own = lookup_kernel r j own)"
proof -
  have inv: "lookup_kernel r' j own = lookup_kernel r j own" if "own \<noteq> kernel_owner e" for j own
    using kernel_table.insert_invisible [OF assms(1,2), of e own j] that assms(3) by simp
  then show ?thesis using kernel_table.insert_ok [OF assms] by simp
qed

theorem kernel_lookup_isolated_witness:
  "let (r', out) = register_kernel (kernel_registry_new 0) (demo_kernel 3)
   in out = Ok 1 \<and> lookup_kernel r' 1 3 = Ok (demo_kernel 3) \<and> lookup_kernel r' 1 4 = Err InvalidKernel"
proof -
  obtain r' where r': "register_kernel (kernel_registry_new 0) (demo_kernel 3) = (r', Ok 1)"
    by (simp add: register_kernel_eq kernel_registry_new_def random_kernel_id_seed_def
        demo_kernel_def MAX_KERNELS_PER_INSTANCE_def MAX_TOTAL_PTX_BYTES_def MAX_PTX_BYTES_def)
  have room: "kernels_room 1 (kernel_registry_new 0)"
    by (simp add: kernels_room_def kernel_registry_new_def random_kernel_id_seed_def)
  have "lookup_kernel (kernel_registry_new 0) 1 4 = Err InvalidKernel"
    by (simp add: lookup_kernel_def kernel_registry_new_def)
  then show ?thesis
    using kernel_lookup_isolated [OF kernels_wf_new room r'] r' by (simp add: demo_kernel_def)
qed

end
