(* ===== verification/Device_Memory.thy ===== *)
theory Device_Memory
  imports Gpu_Abi "HOL-Library.Multiset"
begin

text \<open>
  Device-memory handles, \<^verbatim>\<open>crates/tensor-wasm-wasi-gpu/src/device_mem.rs\<close>: the process-wide
  budget, the per-instance registry, and their four operations.

  The first part has each operation as one function, as it behaves when no other call runs.
  The second part splits \<open>insert\<close> and \<open>free\<close> into their atomic accesses and lets any number
  of calls on any number of registries interleave; the compare-and-swap loops are one access
  each, which the simulation of the theory \<open>Cas_Loop\<close> justifies. The third part is about a
  registry that is dropped.
\<close>

declare map_of_eq_Some_iff [simp del] Some_eq_map_of_iff [simp del]

section \<open>Model\<close>

definition MAX_DEVICE_ALLOC_BYTES :: u64 where
  "MAX_DEVICE_ALLOC_BYTES = 256 * 1024 * 1024"

definition MAX_DEVICE_ALLOCS_PER_INSTANCE :: nat where
  "MAX_DEVICE_ALLOCS_PER_INSTANCE = 4096"

definition MAX_TOTAL_DEVICE_BYTES :: u64 where
  "MAX_TOTAL_DEVICE_BYTES = 16 * MAX_DEVICE_ALLOC_BYTES"

definition MAX_PROCESS_DEVICE_BYTES :: u64 where
  "MAX_PROCESS_DEVICE_BYTES = 4 * MAX_TOTAL_DEVICE_BYTES"

definition MAX_PROCESS_DEVICE_ALLOCS :: nat where
  "MAX_PROCESS_DEVICE_ALLOCS = 4 * MAX_DEVICE_ALLOCS_PER_INSTANCE"

record device_budget =
  total_bytes :: u64
  total_allocs :: u64

record device_mem_entry =
  mem_owner :: instance_id
  mem_size :: u64
  device_ptr :: u64 \<comment> \<open>on CUDA builds; 0 where the field is compiled out\<close>

record device_registry =
  next_handle :: u64
  buffers :: "(u64 \<times> device_mem_entry) list"
  total_device_bytes :: u64

definition device_budget_new :: device_budget where
  "device_budget_new = \<lparr>total_bytes = 0, total_allocs = 0\<rparr>"

definition try_reserve :: "device_budget \<Rightarrow> u64 \<Rightarrow> device_budget \<times> (abi_error, unit) result" where
  "try_reserve b n =
     (let prev_allocs = total_allocs b;
          b1 = b\<lparr>total_allocs := prev_allocs + 1\<rparr>;
          undo = b1\<lparr>total_allocs := total_allocs b1 - 1\<rparr>
      in if prev_allocs \<ge> of_nat MAX_PROCESS_DEVICE_ALLOCS then (undo, Err QuotaExceeded)
         else case reserve MAX_PROCESS_DEVICE_BYTES n (total_bytes b1) of
                (_, Inl x) \<Rightarrow> (undo, Err x)
              | (t, Inr _) \<Rightarrow> (b1\<lparr>total_bytes := t\<rparr>, Ok ()))"

definition release :: "device_budget \<Rightarrow> u64 \<Rightarrow> device_budget" where
  "release b n = b\<lparr>total_bytes := credit n (total_bytes b), total_allocs := credit 1 (total_allocs b)\<rparr>"

definition device_registry_new :: device_registry where
  "device_registry_new = \<lparr>next_handle = 1, buffers = [], total_device_bytes = 0\<rparr>"

definition insert_buffer ::
    "device_budget \<times> device_registry \<Rightarrow> device_mem_entry
     \<Rightarrow> (device_budget \<times> device_registry) \<times> (abi_error, u64) result" where
  "insert_buffer = (\<lambda>(b, r) e.
     if length (buffers r) \<ge> MAX_DEVICE_ALLOCS_PER_INSTANCE then ((b, r), Err QuotaExceeded)
     else case reserve MAX_TOTAL_DEVICE_BYTES (mem_size e) (total_device_bytes r) of
            (_, Inl x) \<Rightarrow> ((b, r), Err x)
          | (t, Inr _) \<Rightarrow>
              (case try_reserve b (mem_size e) of
                 (b', Inl x) \<Rightarrow> ((b', r\<lparr>total_device_bytes := credit (mem_size e) t\<rparr>), Err x)
               | (b', Inr _) \<Rightarrow>
                   ((b', r\<lparr>total_device_bytes := t, next_handle := next_handle r + 1,
                           buffers := AList.update (next_handle r) e (buffers r)\<rparr>), Ok (next_handle r))))"

definition lookup_buffer ::
    "device_budget \<times> device_registry \<Rightarrow> u64 \<Rightarrow> instance_id \<Rightarrow> (abi_error, device_mem_entry) result" where
  "lookup_buffer s h own =
     (case map_of (buffers (snd s)) h of
        None \<Rightarrow> Err InvalidHandle
      | Some e \<Rightarrow> if mem_owner e \<noteq> own then Err InvalidHandle else Ok e)"

definition free_buffer ::
    "device_budget \<times> device_registry \<Rightarrow> u64 \<Rightarrow> instance_id
     \<Rightarrow> (device_budget \<times> device_registry) \<times> (abi_error, device_mem_entry) result" where
  "free_buffer s h own =
     (case lookup_buffer s h own of
        Inl x \<Rightarrow> (s, Err x)
      | Inr _ \<Rightarrow>
          (case s of (b, r) \<Rightarrow>
             case map_of (buffers r) h of
               None \<Rightarrow> (s, Err InvalidHandle)
             | Some e \<Rightarrow>
                 ((release b (mem_size e),
                   r\<lparr>buffers := AList.delete h (buffers r),
                     total_device_bytes := credit (mem_size e) (total_device_bytes r)\<rparr>), Ok e)))"

lemmas device_caps = MAX_DEVICE_ALLOC_BYTES_def MAX_DEVICE_ALLOCS_PER_INSTANCE_def
  MAX_TOTAL_DEVICE_BYTES_def MAX_PROCESS_DEVICE_BYTES_def MAX_PROCESS_DEVICE_ALLOCS_def

section \<open>Interleaved calls\<close>

text \<open>
  Where a call is between two of its atomic accesses. The handle that \<open>fetch_add\<close> draws stays
  private to its call until the entry is published, so the two are one access.
\<close>

datatype device_call =
    InsLocal nat device_mem_entry \<comment> \<open>past the length check\<close>
  | InsCount nat device_mem_entry \<comment> \<open>holds its bytes in the registry's counter\<close>
  | InsBytes nat device_mem_entry \<comment> \<open>holds one allocation of the budget\<close>
  | InsPublish nat device_mem_entry \<comment> \<open>holds its bytes in the budget too\<close>
  | InsUndoCount nat device_mem_entry
  | InsUndoLocal nat device_mem_entry
  | FreeRemove nat u64 \<comment> \<open>the owner was authorised\<close>
  | FreeLocal nat device_mem_entry \<comment> \<open>the entry is out of the table\<close>
  | FreeBytes device_mem_entry
  | FreeCount

record device_world =
  budget :: device_budget
  regs :: "nat \<Rightarrow> device_registry"
  calls :: "device_call multiset"

abbreviation set_total :: "u64 \<Rightarrow> device_registry \<Rightarrow> device_registry" where
  "set_total t r \<equiv> r\<lparr>total_device_bytes := t\<rparr>"

definition upd_reg :: "nat \<Rightarrow> device_registry \<Rightarrow> device_world \<Rightarrow> device_world" where
  "upd_reg k r w = w\<lparr>regs := (regs w)(k := r)\<rparr>"

text \<open>
  One access of one call, on a world with \<open>n\<close> registries. At most \<open>2^32\<close> calls are in flight
  at a time, one per thread, and a registry issues fewer than \<open>2^64\<close> handles.
\<close>

inductive device_step :: "nat \<Rightarrow> device_world \<Rightarrow> device_world \<Rightarrow> bool" for n :: nat where
  ins_start: "k < n \<Longrightarrow> length (buffers (regs w k)) < MAX_DEVICE_ALLOCS_PER_INSTANCE
    \<Longrightarrow> size (calls w) < 2 ^ 32
    \<Longrightarrow> device_step n w (w\<lparr>calls := add_mset (InsLocal k e) (calls w)\<rparr>)"
| ins_local_ok: "calls w = add_mset (InsLocal k e) m
    \<Longrightarrow> reserve MAX_TOTAL_DEVICE_BYTES (mem_size e) (total_device_bytes (regs w k)) = (t, Ok ())
    \<Longrightarrow> device_step n w (upd_reg k (set_total t (regs w k)) (w\<lparr>calls := add_mset (InsCount k e) m\<rparr>))"
| ins_local_err: "calls w = add_mset (InsLocal k e) m
    \<Longrightarrow> reserve MAX_TOTAL_DEVICE_BYTES (mem_size e) (total_device_bytes (regs w k)) = (t, Err x)
    \<Longrightarrow> device_step n w (w\<lparr>calls := m\<rparr>)"
| ins_count: "calls w = add_mset (InsCount k e) m
    \<Longrightarrow> device_step n w (w\<lparr>budget := (budget w)\<lparr>total_allocs := total_allocs (budget w) + 1\<rparr>,
          calls := add_mset (if total_allocs (budget w) \<ge> of_nat MAX_PROCESS_DEVICE_ALLOCS
                             then InsUndoCount k e else InsBytes k e) m\<rparr>)"
| ins_bytes_ok: "calls w = add_mset (InsBytes k e) m
    \<Longrightarrow> reserve MAX_PROCESS_DEVICE_BYTES (mem_size e) (total_bytes (budget w)) = (t, Ok ())
    \<Longrightarrow> device_step n w (w\<lparr>budget := (budget w)\<lparr>total_bytes := t\<rparr>, calls := add_mset (InsPublish k e) m\<rparr>)"
| ins_bytes_err: "calls w = add_mset (InsBytes k e) m
    \<Longrightarrow> reserve MAX_PROCESS_DEVICE_BYTES (mem_size e) (total_bytes (budget w)) = (t, Err x)
    \<Longrightarrow> device_step n w (w\<lparr>calls := add_mset (InsUndoCount k e) m\<rparr>)"
| ins_undo_count: "calls w = add_mset (InsUndoCount k e) m
    \<Longrightarrow> device_step n w (w\<lparr>budget := (budget w)\<lparr>total_allocs := total_allocs (budget w) - 1\<rparr>,
          calls := add_mset (InsUndoLocal k e) m\<rparr>)"
| ins_undo_local: "calls w = add_mset (InsUndoLocal k e) m
    \<Longrightarrow> device_step n w (upd_reg k
          (set_total (credit (mem_size e) (total_device_bytes (regs w k))) (regs w k)) (w\<lparr>calls := m\<rparr>))"
| ins_publish: "calls w = add_mset (InsPublish k e) m \<Longrightarrow> next_handle (regs w k) < word_max
    \<Longrightarrow> device_step n w (upd_reg k
          ((regs w k)\<lparr>next_handle := next_handle (regs w k) + 1,
                      buffers := AList.update (next_handle (regs w k)) e (buffers (regs w k))\<rparr>)
          (w\<lparr>calls := m\<rparr>))"
| free_start: "k < n \<Longrightarrow> lookup_buffer (budget w, regs w k) h own = Ok e \<Longrightarrow> size (calls w) < 2 ^ 32
    \<Longrightarrow> device_step n w (w\<lparr>calls := add_mset (FreeRemove k h) (calls w)\<rparr>)"
| free_remove: "calls w = add_mset (FreeRemove k h) m \<Longrightarrow> map_of (buffers (regs w k)) h = Some e
    \<Longrightarrow> device_step n w (upd_reg k ((regs w k)\<lparr>buffers := AList.delete h (buffers (regs w k))\<rparr>)
          (w\<lparr>calls := add_mset (FreeLocal k e) m\<rparr>))"
| free_gone: "calls w = add_mset (FreeRemove k h) m \<Longrightarrow> map_of (buffers (regs w k)) h = None
    \<Longrightarrow> device_step n w (w\<lparr>calls := m\<rparr>)"
| free_local: "calls w = add_mset (FreeLocal k e) m
    \<Longrightarrow> device_step n w (upd_reg k
          (set_total (credit (mem_size e) (total_device_bytes (regs w k))) (regs w k))
          (w\<lparr>calls := add_mset (FreeBytes e) m\<rparr>))"
| free_bytes: "calls w = add_mset (FreeBytes e) m
    \<Longrightarrow> device_step n w (w\<lparr>budget := (budget w)\<lparr>total_bytes := credit (mem_size e) (total_bytes (budget w))\<rparr>,
          calls := add_mset FreeCount m\<rparr>)"
| free_count: "calls w = add_mset FreeCount m
    \<Longrightarrow> device_step n w (w\<lparr>budget := (budget w)\<lparr>total_allocs := credit 1 (total_allocs (budget w))\<rparr>,
          calls := m\<rparr>)"

definition device_start :: device_world where
  "device_start = \<lparr>budget = device_budget_new, regs = (\<lambda>_. device_registry_new), calls = {#}\<rparr>"

abbreviation device_reach :: "nat \<Rightarrow> device_world \<Rightarrow> bool" where
  "device_reach n w \<equiv> (device_step n)\<^sup>*\<^sup>* device_start w"

section \<open>Accounting\<close>

text \<open>
  What a call in flight holds: bytes of its registry's counter, bytes of the budget, and one
  allocation of the budget. \<open>granted\<close> leaves out a call that is about to give its allocation
  back.
\<close>

fun held_local :: "nat \<Rightarrow> device_call \<Rightarrow> nat" where
  "held_local k (InsCount j e) = (if j = k then unat (mem_size e) else 0)"
| "held_local k (InsBytes j e) = (if j = k then unat (mem_size e) else 0)"
| "held_local k (InsPublish j e) = (if j = k then unat (mem_size e) else 0)"
| "held_local k (InsUndoCount j e) = (if j = k then unat (mem_size e) else 0)"
| "held_local k (InsUndoLocal j e) = (if j = k then unat (mem_size e) else 0)"
| "held_local k (FreeLocal j e) = (if j = k then unat (mem_size e) else 0)"
| "held_local k _ = 0"

fun held_bytes :: "device_call \<Rightarrow> nat" where
  "held_bytes (InsPublish j e) = unat (mem_size e)"
| "held_bytes (FreeLocal j e) = unat (mem_size e)"
| "held_bytes (FreeBytes e) = unat (mem_size e)"
| "held_bytes _ = 0"

fun granted :: "device_call \<Rightarrow> nat" where
  "granted (InsBytes j e) = 1"
| "granted (InsPublish j e) = 1"
| "granted (FreeLocal j e) = 1"
| "granted (FreeBytes e) = 1"
| "granted FreeCount = 1"
| "granted _ = 0"

fun undoing :: "device_call \<Rightarrow> nat" where
  "undoing (InsUndoCount j e) = 1"
| "undoing _ = 0"

fun call_in :: "nat \<Rightarrow> device_call \<Rightarrow> bool" where
  "call_in n (InsLocal k e) = (k < n)"
| "call_in n (InsCount k e) = (k < n)"
| "call_in n (InsBytes k e) = (k < n)"
| "call_in n (InsPublish k e) = (k < n)"
| "call_in n (InsUndoCount k e) = (k < n)"
| "call_in n (InsUndoLocal k e) = (k < n)"
| "call_in n (FreeRemove k h) = (k < n)"
| "call_in n (FreeLocal k e) = (k < n)"
| "call_in n _ = True"

definition reg_bytes :: "device_registry \<Rightarrow> nat" where
  "reg_bytes r = table_sum (unat \<circ> mem_size) (buffers r)"

definition live_bytes :: "nat \<Rightarrow> device_world \<Rightarrow> nat" where
  "live_bytes n w = (\<Sum>k<n. reg_bytes (regs w k))"

definition live_count :: "nat \<Rightarrow> device_world \<Rightarrow> nat" where
  "live_count n w = (\<Sum>k<n. length (buffers (regs w k)))"

definition reg_wf :: "device_registry \<Rightarrow> bool" where
  "reg_wf r \<longleftrightarrow> distinct (map fst (buffers r)) \<and> 0 < next_handle r
     \<and> (\<forall>h e. map_of (buffers r) h = Some e \<longrightarrow> 0 < h \<and> h < next_handle r)"

definition local_ok :: "device_world \<Rightarrow> nat \<Rightarrow> bool" where
  "local_ok w k \<longleftrightarrow> unat (total_device_bytes (regs w k))
       = reg_bytes (regs w k) + (\<Sum>c\<in>#calls w. held_local k c)
     \<and> unat (total_device_bytes (regs w k)) \<le> unat MAX_TOTAL_DEVICE_BYTES"

definition bytes_ok :: "nat \<Rightarrow> device_world \<Rightarrow> bool" where
  "bytes_ok n w \<longleftrightarrow> unat (total_bytes (budget w)) = live_bytes n w + (\<Sum>c\<in>#calls w. held_bytes c)
     \<and> unat (total_bytes (budget w)) \<le> unat MAX_PROCESS_DEVICE_BYTES"

definition count_ok :: "nat \<Rightarrow> device_world \<Rightarrow> bool" where
  "count_ok n w \<longleftrightarrow>
     unat (total_allocs (budget w))
       = live_count n w + (\<Sum>c\<in>#calls w. granted c) + (\<Sum>c\<in>#calls w. undoing c)
     \<and> live_count n w + (\<Sum>c\<in>#calls w. granted c) \<le> MAX_PROCESS_DEVICE_ALLOCS"

lemma sum_upd:
  fixes g :: "'a \<Rightarrow> nat" and k n :: nat
  assumes "k < n"
  shows "(\<Sum>i<n. g ((f(k := x)) i)) + g (f k) = (\<Sum>i<n. g (f i)) + g x"
proof -
  have k: "k \<in> {..<n}" using assms by simp
  have "(\<Sum>i\<in>{..<n} - {k}. g ((f(k := x)) i)) = (\<Sum>i\<in>{..<n} - {k}. g (f i))"
    by (rule sum.cong) auto
  then show ?thesis
    using sum.remove [OF finite_lessThan k, of "\<lambda>i. g ((f(k := x)) i)"]
      sum.remove [OF finite_lessThan k, of "\<lambda>i. g (f i)"]
    by simp
qed

lemma live_upd:
  assumes "k < n"
  shows "live_bytes n (upd_reg k r w) + reg_bytes (regs w k) = live_bytes n w + reg_bytes r"
    and "live_count n (upd_reg k r w) + length (buffers (regs w k)) = live_count n w + length (buffers r)"
  using sum_upd [OF assms, of reg_bytes "regs w" r]
    sum_upd [OF assms, of "\<lambda>r. length (buffers r)" "regs w" r]
  by (simp_all add: live_bytes_def live_count_def upd_reg_def)

lemma live_simps [simp]:
  "live_bytes n (w\<lparr>calls := m\<rparr>) = live_bytes n w" "live_bytes n (w\<lparr>budget := b\<rparr>) = live_bytes n w"
  "live_count n (w\<lparr>calls := m\<rparr>) = live_count n w" "live_count n (w\<lparr>budget := b\<rparr>) = live_count n w"
  "regs (upd_reg k r w) = (regs w)(k := r)" "calls (upd_reg k r w) = calls w"
  "budget (upd_reg k r w) = budget w"
  by (simp_all add: live_bytes_def live_count_def upd_reg_def)

lemma live_set_total [simp]:
  "live_bytes n (upd_reg k (set_total t (regs w k)) (w\<lparr>calls := m\<rparr>)) = live_bytes n w"
  "live_count n (upd_reg k (set_total t (regs w k)) (w\<lparr>calls := m\<rparr>)) = live_count n w"
  unfolding live_bytes_def live_count_def by (rule sum.cong; simp add: reg_bytes_def)+

lemma caps_lt_max: "MAX_TOTAL_DEVICE_BYTES < word_max" "MAX_PROCESS_DEVICE_BYTES < word_max"
  by (simp_all add: device_caps word_less_nat_alt unat_word_max)

lemmas reserve_local = reserve_eq [OF caps_lt_max(1)]
lemmas reserve_process = reserve_eq [OF caps_lt_max(2)]

lemma fresh_handle: "reg_wf r \<Longrightarrow> map_of (buffers r) (next_handle r) = None"
  by (cases "map_of (buffers r) (next_handle r)") (auto simp: reg_wf_def)

text \<open>What publishing and removing an entry do to one registry.\<close>

abbreviation published :: "device_mem_entry \<Rightarrow> device_registry \<Rightarrow> device_registry" where
  "published e r \<equiv> r\<lparr>next_handle := next_handle r + 1, buffers := AList.update (next_handle r) e (buffers r)\<rparr>"

lemma unat_succ: "h < word_max \<Longrightarrow> unat (h + 1 :: u64) = Suc (unat h)"
  by (subst unat_add_nowrap) (simp_all add: word_less_nat_alt unat_word_max)

lemma reg_wf_published:
  assumes "reg_wf r" and "next_handle r < word_max"
  shows "reg_wf (published e r)"
proof -
  have up: "next_handle r < next_handle r + 1" using unat_succ [OF assms(2)] by (simp add: word_less_nat_alt)
  then have "h < next_handle r + 1" if "h < next_handle r" for h using that by (rule less_trans [rotated])
  with assms(1) up show ?thesis
    by (auto simp: reg_wf_def distinct_update update_conv' intro: less_trans)
qed

lemma published_sums:
  "reg_wf r \<Longrightarrow> reg_bytes (published e r) = reg_bytes r + unat (mem_size e)"
  "reg_wf r \<Longrightarrow> length (AList.update (next_handle r) e (buffers r)) = Suc (length (buffers r))"
  by (simp_all add: reg_bytes_def table_sum_update length_update_fresh fresh_handle)

lemma reg_wf_removed: "reg_wf r \<Longrightarrow> reg_wf (r\<lparr>buffers := AList.delete h (buffers r)\<rparr>)"
  by (auto simp: reg_wf_def distinct_delete delete_conv')

lemma removed_sums:
  assumes "reg_wf r" and "map_of (buffers r) h = Some e"
  shows "reg_bytes r = reg_bytes (r\<lparr>buffers := AList.delete h (buffers r)\<rparr>) + unat (mem_size e)"
    and "length (buffers r) = Suc (length (AList.delete h (buffers r)))"
  using assms table_sum_delete [of "buffers r" h e "unat \<circ> mem_size"] length_delete [of "buffers r" h e]
  by (simp_all add: reg_bytes_def reg_wf_def)

lemma reg_simps [simp]:
  "reg_bytes (set_total t r) = reg_bytes r" "reg_wf (set_total t r) = reg_wf r"
  by (simp_all add: reg_bytes_def reg_wf_def)

definition world_ok :: "nat \<Rightarrow> device_world \<Rightarrow> bool" where
  "world_ok n w \<longleftrightarrow> (\<forall>c\<in>#calls w. call_in n c) \<and> size (calls w) \<le> 2 ^ 32
     \<and> (\<forall>k. reg_wf (regs w k)) \<and> (\<forall>k. local_ok w k) \<and> bytes_ok n w \<and> count_ok n w"

lemma calls_step:
  "device_step n w w' \<Longrightarrow> (\<forall>c\<in>#calls w. call_in n c) \<and> size (calls w) \<le> 2 ^ 32
    \<Longrightarrow> (\<forall>c\<in>#calls w'. call_in n c) \<and> size (calls w') \<le> 2 ^ 32"
  by (induction rule: device_step.induct) auto

lemma regs_step: "device_step n w w' \<Longrightarrow> \<forall>k. reg_wf (regs w k) \<Longrightarrow> \<forall>k. reg_wf (regs w' k)"
  by (induction rule: device_step.induct) (simp_all add: reg_wf_published reg_wf_removed)

lemma local_step:
  "device_step n w w' \<Longrightarrow> \<forall>k. reg_wf (regs w k) \<Longrightarrow> local_ok w j \<Longrightarrow> local_ok w' j"
proof (induction rule: device_step.induct)
  case (ins_local_ok w k e m t)
  then show ?case
    by (auto simp: local_ok_def reserve_local unat_add_le_cap split: if_splits)
next
  case (free_remove w k h m e)
  then show ?case
    using removed_sums(1) [of "regs w k" h e] by (auto simp: local_ok_def)
qed (auto simp: local_ok_def published_sums unat_ops)

lemma bytes_step:
  "device_step n w w' \<Longrightarrow> \<forall>c\<in>#calls w. call_in n c \<Longrightarrow> \<forall>k. reg_wf (regs w k) \<Longrightarrow> bytes_ok n w \<Longrightarrow> bytes_ok n w'"
proof (induction rule: device_step.induct)
  case (ins_bytes_ok w k e m t)
  then show ?case
    by (auto simp: bytes_ok_def reserve_process unat_add_le_cap split: if_splits)
next
  case (ins_publish w k e m)
  then have "k < n" by simp
  from live_upd(1) [OF this, of "published e (regs w k)" "w\<lparr>calls := m\<rparr>"] ins_publish
  show ?case by (simp add: bytes_ok_def published_sums)
next
  case (free_remove w k h m e)
  then have "k < n" by simp
  from live_upd(1) [OF this, of "(regs w k)\<lparr>buffers := AList.delete h (buffers (regs w k))\<rparr>"
        "w\<lparr>calls := add_mset (FreeLocal k e) m\<rparr>"] free_remove removed_sums(1) [of "regs w k" h e]
  show ?case by (simp add: bytes_ok_def)
qed (auto simp: bytes_ok_def unat_ops)

lemma undoing_le: "(\<Sum>c\<in>#m. undoing c) \<le> size m"
proof (induction m)
  case (add c m)
  have "undoing c \<le> 1" by (cases c) simp_all
  with add show ?case by simp
qed simp

lemma count_step:
  "device_step n w w' \<Longrightarrow> \<forall>c\<in>#calls w. call_in n c \<Longrightarrow> \<forall>k. reg_wf (regs w k) \<Longrightarrow> size (calls w) \<le> 2 ^ 32
    \<Longrightarrow> count_ok n w \<Longrightarrow> count_ok n w'"
proof (induction rule: device_step.induct)
  case (ins_count w k e m)
  let ?a = "total_allocs (budget w)"
  have max: "unat (of_nat MAX_PROCESS_DEVICE_ALLOCS :: u64) = MAX_PROCESS_DEVICE_ALLOCS"
    by (simp add: device_caps)
  have "unat ?a \<le> MAX_PROCESS_DEVICE_ALLOCS + 2 ^ 32"
    using ins_count undoing_le [of "calls w"] unfolding count_ok_def by linarith
  then have "unat (?a + 1) = Suc (unat ?a)"
    by (intro unat_succ) (simp add: word_less_nat_alt unat_word_max device_caps)
  with ins_count max show ?case by (auto simp: count_ok_def word_le_nat_alt)
next
  case (ins_undo_count w k e m)
  then have "1 \<le> total_allocs (budget w)" by (simp add: count_ok_def word_le_nat_alt)
  then have "unat (total_allocs (budget w) - 1) = unat (total_allocs (budget w)) - 1"
    using unat_sub_nowrap by fastforce
  with ins_undo_count show ?case by (simp add: count_ok_def)
next
  case (ins_publish w k e m)
  then have "k < n" by simp
  from live_upd(2) [OF this, of "published e (regs w k)" "w\<lparr>calls := m\<rparr>"] ins_publish
  show ?case by (simp add: count_ok_def published_sums)
next
  case (free_remove w k h m e)
  then have "k < n" by simp
  from live_upd(2) [OF this, of "(regs w k)\<lparr>buffers := AList.delete h (buffers (regs w k))\<rparr>"
        "w\<lparr>calls := add_mset (FreeLocal k e) m\<rparr>"] free_remove removed_sums(2) [of "regs w k" h e]
  show ?case by (simp add: count_ok_def)
qed (auto simp: count_ok_def unat_ops)

lemma world_ok_start: "world_ok n device_start"
  by (simp add: world_ok_def device_start_def device_registry_new_def device_budget_new_def reg_wf_def
      local_ok_def bytes_ok_def count_ok_def live_bytes_def live_count_def reg_bytes_def)

lemma world_ok_step: "device_step n w w' \<Longrightarrow> world_ok n w \<Longrightarrow> world_ok n w'"
  unfolding world_ok_def using calls_step regs_step local_step bytes_step count_step by presburger

lemma device_reach_ok: "device_reach n w \<Longrightarrow> world_ok n w"
  by (induction rule: rtranclp_induct) (auto intro: world_ok_start world_ok_step)

text \<open>
  The cap on the number of buffers of one instance is checked before the other accesses of an
  insert, so it bounds the buffers only up to the inserts that overlap. A run in which at most \<open>c\<close>
  inserts of an instance are in flight at a time:
\<close>

fun inserting :: "nat \<Rightarrow> device_call \<Rightarrow> bool" where
  "inserting k (InsLocal j e) = (j = k)"
| "inserting k (InsCount j e) = (j = k)"
| "inserting k (InsBytes j e) = (j = k)"
| "inserting k (InsPublish j e) = (j = k)"
| "inserting k (InsUndoCount j e) = (j = k)"
| "inserting k (InsUndoLocal j e) = (j = k)"
| "inserting k _ = False"

definition inserts :: "nat \<Rightarrow> device_world \<Rightarrow> nat" where
  "inserts k w = size (filter_mset (inserting k) (calls w))"

definition overlap_step :: "nat \<Rightarrow> nat \<Rightarrow> device_world \<Rightarrow> device_world \<Rightarrow> bool" where
  "overlap_step c n w w' \<longleftrightarrow> device_step n w w' \<and> (\<forall>k. inserts k w' \<le> c)"

lemma size_update_le: "length (AList.update k v xs) \<le> Suc (length xs)"
  by (induction xs) auto

lemma size_delete_le: "length (AList.delete k xs) \<le> length xs"
  by (simp add: AList.delete_eq)

lemma overlap_step_count:
  assumes "overlap_step c n w w'" and "length (buffers (regs w k)) + inserts k w \<le> MAX_DEVICE_ALLOCS_PER_INSTANCE + (c - 1)"
  shows "length (buffers (regs w' k)) + inserts k w' \<le> MAX_DEVICE_ALLOCS_PER_INSTANCE + (c - 1)"
  using assms(1) [unfolded overlap_step_def, THEN conjunct1]
proof cases
  case (ins_start j e)
  have "inserts k w' \<le> c" using assms(1) by (simp add: overlap_step_def)
  then show ?thesis using ins_start assms(2) by (cases "j = k") (auto simp: inserts_def)
next
  case (ins_publish j e m)
  then show ?thesis
    using assms(2) size_update_le [of "next_handle (regs w k)" e "buffers (regs w k)"] by (cases "j = k") (auto simp: inserts_def)
next
  case (free_remove j h m e)
  then show ?thesis using assms(2) size_delete_le [of h "buffers (regs w k)"] by (cases "j = k") (auto simp: inserts_def)
qed (use assms(2) in \<open>auto simp: inserts_def split: if_splits\<close>)

lemma overlap_reach_count:
  assumes "(overlap_step c n)\<^sup>*\<^sup>* device_start w"
  shows "length (buffers (regs w k)) + inserts k w \<le> MAX_DEVICE_ALLOCS_PER_INSTANCE + (c - 1)"
  using assms
proof (induction rule: rtranclp_induct)
  case base
  show ?case by (simp add: device_start_def device_registry_new_def inserts_def)
next
  case (step v w)
  show ?case by (rule overlap_step_count [OF step.hyps(2) step.IH])
qed

text \<open>Every run is one of these, for the number of calls the process can have in flight.\<close>

lemma inserts_le: "inserts k w \<le> size (calls w)"
  unfolding inserts_def by (rule size_filter_mset_lesseq)

lemma device_reach_overlaps: "device_reach n w \<Longrightarrow> (overlap_step (2 ^ 32) n)\<^sup>*\<^sup>* device_start w"
proof (induction rule: rtranclp_induct)
  case (step v w)
  have "world_ok n w" by (rule device_reach_ok) (rule rtranclp.rtrancl_into_rtrancl [OF step.hyps])
  then have "inserts k w \<le> 2 ^ 32" for k using inserts_le [of k w] by (simp add: world_ok_def)
  then have "overlap_step (2 ^ 32) n v w" using step.hyps(2) by (simp add: overlap_step_def)
  with step.IH show ?case by (rule rtranclp.rtrancl_into_rtrancl)
qed simp

text \<open>
  C2: the byte and allocation ceilings hold for any number of instances under every interleaving of
  their allocations and frees, roll-backs included. At no time do the live buffers of all instances
  together exceed the process caps of 16 GiB and 16384 buffers, nor those of one instance its byte
  cap of 4 GiB. The number of buffers of one instance exceeds its cap of 4096 by less than the
  number of its inserts that were ever in flight together, so not at all if they did not overlap.
\<close>

theorem device_caps_concurrent:
  assumes "device_reach n w"
  shows "(\<Sum>k<n. reg_bytes (regs w k)) \<le> 16 * 2 ^ 30
    \<and> (\<Sum>k<n. length (buffers (regs w k))) \<le> 16384
    \<and> reg_bytes (regs w k) \<le> 4 * 2 ^ 30
    \<and> (\<forall>c. (overlap_step c n)\<^sup>*\<^sup>* device_start w \<longrightarrow> length (buffers (regs w k)) \<le> 4096 + (c - 1))"
proof -
  have "length (buffers (regs w k)) \<le> 4096 + (c - 1)" if "(overlap_step c n)\<^sup>*\<^sup>* device_start w" for c
    using overlap_reach_count [OF that, of k] by (simp add: MAX_DEVICE_ALLOCS_PER_INSTANCE_def)
  then show ?thesis
    using device_reach_ok [OF assms]
    by (auto simp: world_ok_def local_ok_def bytes_ok_def count_ok_def live_bytes_def live_count_def device_caps
        dest: spec [of _ k])
qed

text \<open>
  C31: the counters never drift. Whenever no call is in flight, the registry's counter equals the
  bytes of its live buffers and the budget's two counters equal the bytes and the number of the
  live buffers of all instances, whatever calls ran before, failed ones included.
\<close>

theorem device_counters_exact:
  assumes "device_reach n w" and "calls w = {#}"
  shows "unat (total_device_bytes (regs w k)) = reg_bytes (regs w k)
    \<and> unat (total_bytes (budget w)) = (\<Sum>k<n. reg_bytes (regs w k))
    \<and> unat (total_allocs (budget w)) = (\<Sum>k<n. length (buffers (regs w k)))"
  using device_reach_ok [OF assms(1)] assms(2)
  by (auto simp: world_ok_def local_ok_def bytes_ok_def count_ok_def live_bytes_def live_count_def)

section \<open>Calls that run alone\<close>

lemma try_reserve_eq:
  "try_reserve b n =
     (if unat (total_allocs b) < MAX_PROCESS_DEVICE_ALLOCS
         \<and> unat (total_bytes b) + unat n \<le> unat MAX_PROCESS_DEVICE_BYTES
      then (b\<lparr>total_bytes := total_bytes b + n, total_allocs := total_allocs b + 1\<rparr>, Ok ())
      else (b, Err QuotaExceeded))"
proof -
  have "unat (of_nat MAX_PROCESS_DEVICE_ALLOCS :: u64) = MAX_PROCESS_DEVICE_ALLOCS"
    by (simp add: device_caps)
  then show ?thesis
    by (auto simp: try_reserve_def Let_def reserve_process word_le_nat_alt)
qed

lemma credit_back: "unat a + unat n \<le> unat (c :: u64) \<Longrightarrow> credit n (a + n) = a"
  by (simp add: word_unat_eq_iff unat_ops unat_add_le_cap)

definition admits :: "device_budget \<times> device_registry \<Rightarrow> device_mem_entry \<Rightarrow> bool" where
  "admits s e \<longleftrightarrow>
     length (buffers (snd s)) < MAX_DEVICE_ALLOCS_PER_INSTANCE
   \<and> unat (total_device_bytes (snd s)) + unat (mem_size e) \<le> unat MAX_TOTAL_DEVICE_BYTES
   \<and> unat (total_allocs (fst s)) < MAX_PROCESS_DEVICE_ALLOCS
   \<and> unat (total_bytes (fst s)) + unat (mem_size e) \<le> unat MAX_PROCESS_DEVICE_BYTES"

lemma insert_buffer_eq:
  "insert_buffer (b, r) e =
     (if admits (b, r) e
      then ((b\<lparr>total_bytes := total_bytes b + mem_size e, total_allocs := total_allocs b + 1\<rparr>,
             (published e r)\<lparr>total_device_bytes := total_device_bytes r + mem_size e\<rparr>), Ok (next_handle r))
      else ((b, r), Err QuotaExceeded))"
proof -
  have "r\<lparr>total_device_bytes := credit (mem_size e) (total_device_bytes r + mem_size e)\<rparr> = r"
    if "unat (total_device_bytes r) + unat (mem_size e) \<le> unat MAX_TOTAL_DEVICE_BYTES"
    using credit_back [OF that] by simp
  then show ?thesis
    by (auto simp: insert_buffer_def admits_def reserve_local try_reserve_eq)
qed

lemma free_buffer_eq:
  "free_buffer (b, r) h own =
     (case lookup_buffer (b, r) h own of
        Inl x \<Rightarrow> ((b, r), Err InvalidHandle)
      | Inr e \<Rightarrow> ((release b (mem_size e),
           r\<lparr>buffers := AList.delete h (buffers r),
             total_device_bytes := credit (mem_size e) (total_device_bytes r)\<rparr>), Ok e))"
  by (auto simp: free_buffer_def lookup_buffer_def split: option.splits)

definition handle_room :: "nat \<Rightarrow> device_budget \<times> device_registry \<Rightarrow> bool" where
  "handle_room n s \<longleftrightarrow> unat (next_handle (snd s)) + n < 2 ^ 64"

lemma handle_room_lt: "handle_room (Suc n) s \<Longrightarrow> next_handle (snd s) < word_max"
  by (simp add: handle_room_def word_less_nat_alt unat_word_max)

interpretation device_table: freeable_table insert_buffer lookup_buffer mem_owner InvalidHandle
  "reg_wf \<circ> snd" handle_room free_buffer
proof unfold_locales
  fix s s' :: "device_budget \<times> device_registry" and e :: device_mem_entry and h own n
  obtain b r where s: "s = (b, r)" by (cases s)
  show "(reg_wf \<circ> snd) (fst (insert_buffer s e)) \<and> handle_room n (fst (insert_buffer s e))"
    if "(reg_wf \<circ> snd) s" "handle_room (Suc n) s"
    using that unat_succ [OF handle_room_lt [OF that(2)]] reg_wf_published [of r e] handle_room_lt [OF that(2)]
    by (simp add: s insert_buffer_eq handle_room_def)
  show "lookup_buffer s' h (mem_owner e) = Ok e \<and> (\<forall>own. lookup_buffer s h own = Err InvalidHandle)
      \<and> (\<forall>h' own. h' \<noteq> h \<longrightarrow> lookup_buffer s' h' own = lookup_buffer s h' own)"
    if "(reg_wf \<circ> snd) s" "insert_buffer s e = (s', Ok h)"
    using that fresh_handle [of r]
    by (auto simp: s insert_buffer_eq lookup_buffer_def update_conv' split: if_splits)
  show "s' = s \<and> x = QuotaExceeded" if "insert_buffer s e = (s', Err x)" for x
    using that by (auto simp: s insert_buffer_eq split: if_splits)
  show "snd (free_buffer s h own) = lookup_buffer s h own"
    by (auto simp: s free_buffer_eq lookup_buffer_def split: option.split sum.split)
  show "(reg_wf \<circ> snd) (fst (free_buffer s h own))
      \<and> (handle_room n s \<longrightarrow> handle_room n (fst (free_buffer s h own)))" if "(reg_wf \<circ> snd) s"
    using that reg_wf_removed [of r h] by (auto simp: s free_buffer_eq handle_room_def split: sum.split)
  show "fst (free_buffer s h own) = s" if "lookup_buffer s h own = Err x" for x
    using that by (simp add: s free_buffer_eq)
  show "(\<forall>p. lookup_buffer (fst (free_buffer s h own)) h p = Err InvalidHandle)
      \<and> (\<forall>k p. k \<noteq> h \<longrightarrow> lookup_buffer (fst (free_buffer s h own)) k p = lookup_buffer s k p)"
    if "lookup_buffer s h own = Ok e"
    using that by (simp add: s free_buffer_eq) (simp add: lookup_buffer_def delete_conv')
qed (auto simp: lookup_buffer_def handle_room_def split: option.splits if_splits)

section \<open>The calls as runs of the interleaved model\<close>

text \<open>The world in which registry \<open>k\<close> and the budget are as the pair says.\<close>

definition put :: "nat \<Rightarrow> device_budget \<times> device_registry \<Rightarrow> device_world \<Rightarrow> device_world" where
  "put k s w = w\<lparr>budget := fst s, regs := (regs w)(k := snd s)\<rparr>"

definition holding :: "nat \<Rightarrow> device_mem_entry \<Rightarrow> device_call \<Rightarrow> device_world \<Rightarrow> device_world" where
  "holding k e c w = w\<lparr>regs := (regs w)(k := set_total (total_device_bytes (regs w k) + mem_size e) (regs w k)),
                       calls := add_mset c (calls w)\<rparr>"

lemma device_stepI:
  "device_step n w w' \<Longrightarrow> budget w' = budget w'' \<Longrightarrow> regs w' = regs w'' \<Longrightarrow> calls w' = calls w''
    \<Longrightarrow> device_step n w w''"
  by (metis device_world.equality old.unit.exhaust)

lemma run2: "device_step n a b \<Longrightarrow> device_step n b c \<Longrightarrow> (device_step n)\<^sup>*\<^sup>* a c"
  by (meson converse_rtranclp_into_rtranclp r_into_rtranclp)

lemma run_cons: "device_step n a b \<Longrightarrow> (device_step n)\<^sup>*\<^sup>* b c \<Longrightarrow> (device_step n)\<^sup>*\<^sup>* a c"
  by (rule converse_rtranclp_into_rtranclp)

lemma total_last:
  "(r :: device_registry)\<lparr>total_device_bytes := t, next_handle := h, buffers := bs\<rparr>
     = r\<lparr>next_handle := h, buffers := bs, total_device_bytes := t\<rparr>"
  by (rule device_registry.equality) simp_all

lemmas world_evals = total_last holding_def put_def upd_reg_def fun_upd_idem

lemma run_reserve_local:
  assumes "k < n" and "size (calls w) < 2 ^ 32" and "length (buffers (regs w k)) < MAX_DEVICE_ALLOCS_PER_INSTANCE"
    and "unat (total_device_bytes (regs w k)) + unat (mem_size e) \<le> unat MAX_TOTAL_DEVICE_BYTES"
  shows "(device_step n)\<^sup>*\<^sup>* w (holding k e (InsCount k e) w)"
proof (rule run2)
  let ?w1 = "w\<lparr>calls := add_mset (InsLocal k e) (calls w)\<rparr>"
  show "device_step n w ?w1" using assms(1,3,2) by (rule ins_start)
  show "device_step n ?w1 (holding k e (InsCount k e) w)"
    by (rule device_stepI [OF ins_local_ok [of _ k e "calls w" "total_device_bytes (regs w k) + mem_size e"]])
       (use assms in \<open>simp_all add: reserve_local world_evals\<close>)
qed

text \<open>The world after the speculative count, and the way back from it.\<close>

abbreviation counted :: "device_world \<Rightarrow> device_world" where
  "counted w \<equiv> w\<lparr>budget := (budget w)\<lparr>total_allocs := total_allocs (budget w) + 1\<rparr>\<rparr>"

lemma run_undo:
  assumes "unat (total_device_bytes (regs w k)) + unat (mem_size e) \<le> unat MAX_TOTAL_DEVICE_BYTES"
  shows "(device_step n)\<^sup>*\<^sup>* (holding k e (InsUndoCount k e) (counted w)) w"
proof (rule run2)
  show "device_step n (holding k e (InsUndoCount k e) (counted w)) (holding k e (InsUndoLocal k e) w)"
    by (rule device_stepI [OF ins_undo_count [of _ k e "calls w"]]) (simp_all add: world_evals)
  show "device_step n (holding k e (InsUndoLocal k e) w) w"
    by (rule device_stepI [OF ins_undo_local [of _ k e "calls w"]])
       (simp_all add: world_evals credit_back [OF assms])
qed

lemma process_allocs_le: "of_nat MAX_PROCESS_DEVICE_ALLOCS \<le> (a :: u64) \<longleftrightarrow> MAX_PROCESS_DEVICE_ALLOCS \<le> unat a"
  by (simp add: device_caps word_le_nat_alt)

lemma step_count:
  "device_step n (holding k e (InsCount k e) w)
     (holding k e (if MAX_PROCESS_DEVICE_ALLOCS \<le> unat (total_allocs (budget w))
                   then InsUndoCount k e else InsBytes k e) (counted w))"
  by (rule device_stepI [OF ins_count [of _ k e "calls w"]]) (simp_all add: world_evals process_allocs_le)

text \<open>Past the registry's own checks, the budget decides.\<close>

lemma run_charge:
  assumes "unat (total_device_bytes (regs w k)) + unat (mem_size e) \<le> unat MAX_TOTAL_DEVICE_BYTES"
    and "length (buffers (regs w k)) < MAX_DEVICE_ALLOCS_PER_INSTANCE" and "next_handle (regs w k) < word_max"
  shows "(device_step n)\<^sup>*\<^sup>* (holding k e (InsCount k e) w) (put k (fst (insert_buffer (budget w, regs w k) e)) w)"
proof -
  have refused: "put k (fst (insert_buffer (budget w, regs w k) e)) w = w" if "\<not> admits (budget w, regs w k) e"
    using that by (simp add: insert_buffer_eq world_evals)
  show ?thesis
  proof (cases "MAX_PROCESS_DEVICE_ALLOCS \<le> unat (total_allocs (budget w))")
    case True
    with step_count [of n k e w] run_undo [OF assms(1), of n] refused show ?thesis
      by (auto simp: admits_def intro: run_cons)
  next
    case False
    then have c: "device_step n (holding k e (InsCount k e) w) (holding k e (InsBytes k e) (counted w))"
      using step_count [of n k e w] by simp
    show ?thesis
    proof (cases "unat (total_bytes (budget w)) + unat (mem_size e) \<le> unat MAX_PROCESS_DEVICE_BYTES")
      case True
      let ?w2 = "holding k e (InsPublish k e) (w\<lparr>budget := (budget w)\<lparr>total_bytes := total_bytes (budget w) + mem_size e,
          total_allocs := total_allocs (budget w) + 1\<rparr>\<rparr>)"
      have "device_step n (holding k e (InsBytes k e) (counted w)) ?w2"
        by (rule device_stepI [OF ins_bytes_ok [of _ k e "calls w" "total_bytes (budget w) + mem_size e"]])
           (use True in \<open>simp_all add: world_evals reserve_process\<close>)
      moreover have "device_step n ?w2 (put k (fst (insert_buffer (budget w, regs w k) e)) w)"
        by (rule device_stepI [OF ins_publish [of _ k e "calls w"]])
           (use assms True False in \<open>simp_all add: world_evals insert_buffer_eq admits_def\<close>)
      ultimately show ?thesis using c by (meson run_cons run2)
    next
      case over: False
      have "device_step n (holding k e (InsBytes k e) (counted w)) (holding k e (InsUndoCount k e) (counted w))"
        by (rule device_stepI [OF ins_bytes_err [of _ k e "calls w" "total_bytes (budget w)" QuotaExceeded]])
           (use over in \<open>simp_all add: world_evals reserve_process\<close>)
      with c run_undo [OF assms(1), of n] have "(device_step n)\<^sup>*\<^sup>* (holding k e (InsCount k e) w) w"
        by (meson run_cons)
      with refused over show ?thesis by (simp add: admits_def)
    qed
  qed
qed

lemma run_insert:
  assumes "k < n" and "size (calls w) < 2 ^ 32" and "next_handle (regs w k) < word_max"
  shows "(device_step n)\<^sup>*\<^sup>* w (put k (fst (insert_buffer (budget w, regs w k) e)) w)"
proof (cases "unat (total_device_bytes (regs w k)) + unat (mem_size e) \<le> unat MAX_TOTAL_DEVICE_BYTES
    \<and> length (buffers (regs w k)) < MAX_DEVICE_ALLOCS_PER_INSTANCE")
  case True
  with run_reserve_local [of k n w e] run_charge [of w k e n] assms show ?thesis
    by (meson rtranclp_trans)
next
  case False
  then have same: "put k (fst (insert_buffer (budget w, regs w k) e)) w = w"
    by (auto simp: insert_buffer_eq admits_def world_evals)
  show ?thesis
  proof (cases "length (buffers (regs w k)) < MAX_DEVICE_ALLOCS_PER_INSTANCE")
    case True
    let ?w1 = "w\<lparr>calls := add_mset (InsLocal k e) (calls w)\<rparr>"
    have "device_step n w ?w1" using assms(1) True assms(2) by (rule ins_start)
    moreover have "device_step n ?w1 w"
      by (rule device_stepI [OF ins_local_err [of _ k e "calls w" "total_device_bytes (regs w k)" QuotaExceeded]])
         (use True False in \<open>simp_all add: reserve_local\<close>)
    ultimately show ?thesis unfolding same by (rule run2)
  qed (simp add: same)
qed

lemma run_free:
  assumes "k < n" and "size (calls w) < 2 ^ 32"
  shows "(device_step n)\<^sup>*\<^sup>* w (put k (fst (free_buffer (budget w, regs w k) h own)) w)"
proof (cases "lookup_buffer (budget w, regs w k) h own")
  case (Inl x)
  then show ?thesis by (simp add: free_buffer_eq world_evals)
next
  case (Inr e)
  let ?r = "(regs w k)\<lparr>buffers := AList.delete h (buffers (regs w k))\<rparr>"
  let ?r' = "set_total (credit (mem_size e) (total_device_bytes (regs w k))) ?r"
  let ?b = "(budget w)\<lparr>total_bytes := credit (mem_size e) (total_bytes (budget w))\<rparr>"
  let ?w1 = "w\<lparr>calls := add_mset (FreeRemove k h) (calls w)\<rparr>"
  let ?w2 = "w\<lparr>regs := (regs w)(k := ?r), calls := add_mset (FreeLocal k e) (calls w)\<rparr>"
  let ?w3 = "w\<lparr>regs := (regs w)(k := ?r'), calls := add_mset (FreeBytes e) (calls w)\<rparr>"
  let ?w4 = "w\<lparr>budget := ?b, regs := (regs w)(k := ?r'), calls := add_mset FreeCount (calls w)\<rparr>"
  have entry: "map_of (buffers (regs w k)) h = Some e"
    using Inr by (auto simp: lookup_buffer_def split: option.splits if_splits)
  have "device_step n w ?w1" using assms(1) Inr assms(2) by (rule free_start)
  moreover have "device_step n ?w1 ?w2"
    by (rule device_stepI [OF free_remove [of _ k h "calls w" e]]) (simp_all add: entry world_evals)
  moreover have "device_step n ?w2 ?w3"
    by (rule device_stepI [OF free_local [of _ k e "calls w"]]) (simp_all add: world_evals)
  moreover have "device_step n ?w3 ?w4"
    by (rule device_stepI [OF free_bytes [of _ e "calls w"]]) simp_all
  moreover have "device_step n ?w4 (put k (fst (free_buffer (budget w, regs w k) h own)) w)"
    by (rule device_stepI [OF free_count [of _ "calls w"]])
       (simp_all add: free_buffer_eq Inr release_def world_evals)
  ultimately show ?thesis by (meson run_cons run2)
qed

text \<open>
  The interleaved model contains the calls of the source: from any state, \<open>insert\<close> and
  \<open>free\<close> on any registry, run with no other call in between, are runs of atomic accesses that
  end in the state the sequential functions compute, on success and on every refusal.
\<close>

theorem device_calls_are_runs:
  assumes "k < n" and "size (calls w) < 2 ^ 32" and "next_handle (regs w k) < word_max"
  shows "(device_step n)\<^sup>*\<^sup>* w (put k (fst (insert_buffer (budget w, regs w k) e)) w)
    \<and> (device_step n)\<^sup>*\<^sup>* w (put k (fst (free_buffer (budget w, regs w k) h own)) w)"
  using run_insert [OF assms] run_free [OF assms(1,2)] by blast

definition demo_buffer :: device_mem_entry where
  "demo_buffer = \<lparr>mem_owner = 7, mem_size = 4096, device_ptr = 0\<rparr>"

lemma demo_insert:
  "insert_buffer (device_budget_new, device_registry_new) demo_buffer =
     ((\<lparr>total_bytes = 4096, total_allocs = 1\<rparr>,
       \<lparr>next_handle = 2, buffers = [(1, demo_buffer)], total_device_bytes = 4096\<rparr>), Ok 1)"
  by (simp add: insert_buffer_eq admits_def demo_buffer_def device_budget_new_def device_registry_new_def device_caps)

lemma demo_start:
  "budget device_start = device_budget_new" "regs device_start k = device_registry_new"
  "calls device_start = {#}" "next_handle device_registry_new < word_max"
  by (simp_all add: device_start_def device_registry_new_def word_less_nat_alt unat_word_max)

theorem device_calls_are_runs_witness:
  "(device_step 1)\<^sup>*\<^sup>* device_start
     (put 0 (\<lparr>total_bytes = 4096, total_allocs = 1\<rparr>,
             \<lparr>next_handle = 2, buffers = [(1, demo_buffer)], total_device_bytes = 4096\<rparr>) device_start)"
  using device_calls_are_runs [of 0 1 device_start demo_buffer] by (simp add: demo_start demo_insert)

definition demo_world :: device_world where
  "demo_world = put 0 (fst (insert_buffer (device_budget_new, device_registry_new) demo_buffer)) device_start"

lemma demo_world_eq:
  "budget demo_world = \<lparr>total_bytes = 4096, total_allocs = 1\<rparr>"
  "regs demo_world 0 = \<lparr>next_handle = 2, buffers = [(1, demo_buffer)], total_device_bytes = 4096\<rparr>"
  "calls demo_world = {#}" "mem_size demo_buffer = 4096" "mem_owner demo_buffer = 7"
  by (simp_all add: demo_world_def demo_insert put_def demo_start) (simp_all add: demo_buffer_def)

lemma demo_world_reach: "device_reach 1 demo_world"
  using run_insert [of 0 1 device_start demo_buffer] by (simp add: demo_world_def demo_start)

theorem device_caps_concurrent_witness:
  "device_reach 1 demo_world \<and> reg_bytes (regs demo_world 0) = 4096 \<and> reg_bytes (regs demo_world 0) \<le> 4 * 2 ^ 30
   \<and> (overlap_step (2 ^ 32) 1)\<^sup>*\<^sup>* device_start demo_world \<and> length (buffers (regs demo_world 0)) \<le> 4096 + (2 ^ 32 - 1)"
  using device_caps_concurrent [OF demo_world_reach, of 0] demo_world_reach device_reach_overlaps [OF demo_world_reach]
  by (simp add: demo_world_eq reg_bytes_def)

theorem device_counters_exact_witness:
  "calls demo_world = {#} \<and> unat (total_bytes (budget demo_world)) = 4096
   \<and> unat (total_allocs (budget demo_world)) = length (buffers (regs demo_world 0))"
  using device_counters_exact [OF demo_world_reach demo_world_eq(3)]
  by (simp add: demo_world_eq reg_bytes_def)

text \<open>
  Freeing a buffer undoes allocating it. The owner gets the entry back, the table and all
  three counters are what they were, and a second free of the handle by anyone is refused.
\<close>

theorem free_undoes_insert:
  assumes "reg_wf r" and "insert_buffer (b, r) e = ((b', r'), Ok h)"
  defines "s \<equiv> fst (free_buffer (b', r') h (mem_owner e))"
  shows "snd (free_buffer (b', r') h (mem_owner e)) = Ok e
    \<and> fst s = b \<and> buffers (snd s) = buffers r \<and> total_device_bytes (snd s) = total_device_bytes r
    \<and> free_buffer s h own = (s, Err InvalidHandle)"
proof -
  have h: "h = next_handle r" and adm: "admits (b, r) e"
    and b': "b' = b\<lparr>total_bytes := total_bytes b + mem_size e, total_allocs := total_allocs b + 1\<rparr>"
    and r': "r' = (published e r)\<lparr>total_device_bytes := total_device_bytes r + mem_size e\<rparr>"
    using assms(2) by (auto simp: insert_buffer_eq split: if_splits)
  have found: "lookup_buffer (b', r') h (mem_owner e) = Ok e"
    by (simp add: lookup_buffer_def r' h update_conv')
  have bytes: "credit (mem_size e) (total_bytes b + mem_size e) = total_bytes b"
    "credit (mem_size e) (total_device_bytes r + mem_size e) = total_device_bytes r"
    using adm by (auto simp: admits_def intro: credit_back)
  have count: "credit 1 (total_allocs b + 1) = total_allocs b"
    using adm by (intro credit_back [of _ _ "of_nat MAX_PROCESS_DEVICE_ALLOCS"]) (simp add: admits_def device_caps)
  have table: "AList.delete h (AList.update h e (buffers r)) = buffers r"
    by (simp add: delete_update_fresh fresh_handle [OF assms(1)] h)
  have s: "s = (b, r'\<lparr>buffers := buffers r, total_device_bytes := total_device_bytes r\<rparr>)"
  proof -
    have "release b' (mem_size e) = b" by (simp add: release_def b' bytes count)
    moreover have "AList.delete h (buffers r') = buffers r" using table by (simp add: r' h)
    moreover have "credit (mem_size e) (total_device_bytes r') = total_device_bytes r" by (simp add: r' bytes)
    ultimately show ?thesis by (simp add: s_def free_buffer_eq found)
  qed
  then have "lookup_buffer s h own = Err InvalidHandle"
    using fresh_handle [OF assms(1)] by (simp add: lookup_buffer_def h)
  with s found show ?thesis by (simp add: free_buffer_eq)
qed

theorem free_undoes_insert_witness:
  "snd (free_buffer (\<lparr>total_bytes = 4096, total_allocs = 1\<rparr>,
       \<lparr>next_handle = 2, buffers = [(1, demo_buffer)], total_device_bytes = 4096\<rparr>) 1 7) = Ok demo_buffer
   \<and> fst (fst (free_buffer (\<lparr>total_bytes = 4096, total_allocs = 1\<rparr>,
       \<lparr>next_handle = 2, buffers = [(1, demo_buffer)], total_device_bytes = 4096\<rparr>) 1 7)) = device_budget_new"
proof -
  have "reg_wf device_registry_new" by (simp add: reg_wf_def device_registry_new_def)
  from free_undoes_insert [OF this demo_insert] show ?thesis by (simp add: demo_world_eq)
qed

text \<open>
  C36: device handles isolate instances. Whatever sequence of allocations and frees other
  instances run on the same table, with whatever handles, every lookup of an instance answers
  as before.
\<close>

theorem device_noninterference:
  assumes "reg_wf r" and "unat (next_handle r) + length ops < 2 ^ 64"
    and "\<forall>op \<in> set ops. actor mem_owner op \<noteq> own"
  shows "lookup_buffer (table_run insert_buffer free_buffer (b, r) ops) h own = lookup_buffer (b, r) h own"
  by (rule device_table.run_noninterference) (use assms in \<open>simp_all add: handle_room_def\<close>)

theorem device_noninterference_witness:
  "lookup_buffer (table_run insert_buffer free_buffer (device_budget_new,
       device_registry_new\<lparr>next_handle := 2, buffers := [(1, demo_buffer)]\<rparr>) [TFree 1 8, TInsert \<lparr>mem_owner = 8, mem_size = 5, device_ptr = 0\<rparr>, TFree 1 8]) 1 7
   = Ok demo_buffer"
proof -
  let ?r = "device_registry_new\<lparr>next_handle := 2, buffers := [(1, demo_buffer)]\<rparr>"
  have "reg_wf ?r" by (auto simp: reg_wf_def device_registry_new_def split: if_splits)
  from device_noninterference [OF this, of "[TFree 1 8, TInsert \<lparr>mem_owner = 8, mem_size = 5, device_ptr = 0\<rparr>, TFree 1 8]" 7 device_budget_new 1]
  show ?thesis by (simp add: lookup_buffer_def demo_world_eq)
qed

section \<open>Dropped registries\<close>

text \<open>
  \<open>DeviceMemRegistry\<close> has no \<open>Drop\<close> implementation: when an instance goes away, its table goes
  and the budget stays as it is.
\<close>

primrec allocate_many :: "nat \<Rightarrow> device_mem_entry \<Rightarrow> device_budget \<times> device_registry \<Rightarrow> device_budget \<times> device_registry" where
  "allocate_many 0 e s = s"
| "allocate_many (Suc n) e s = fst (insert_buffer (allocate_many n e s) e)"

definition instance_lifetime :: "nat \<Rightarrow> device_mem_entry \<Rightarrow> device_budget \<Rightarrow> device_budget" where
  "instance_lifetime n e b = fst (allocate_many n e (b, device_registry_new))"

definition charged :: "nat \<Rightarrow> nat \<Rightarrow> device_budget \<Rightarrow> bool" where
  "charged bs n b \<longleftrightarrow> unat (total_bytes b) = bs \<and> unat (total_allocs b) = n"

lemma allocate_many_charges:
  assumes "mem_size e = MAX_DEVICE_ALLOC_BYTES" and "charged (j * 2 ^ 32) (j * 16) b" and "j < 4" and "n \<le> 16"
  shows "charged (j * 2 ^ 32 + n * 2 ^ 28) (j * 16 + n) (fst (allocate_many n e (b, device_registry_new)))
    \<and> unat (total_device_bytes (snd (allocate_many n e (b, device_registry_new)))) = n * 2 ^ 28
    \<and> unat (next_handle (snd (allocate_many n e (b, device_registry_new)))) = Suc n
    \<and> reg_wf (snd (allocate_many n e (b, device_registry_new)))
    \<and> length (buffers (snd (allocate_many n e (b, device_registry_new)))) = n"
  using assms(4)
proof (induction n)
  case 0
  then show ?case using assms(2) by (simp add: device_registry_new_def reg_wf_def)
next
  case (Suc n)
  obtain b' r' where s: "allocate_many n e (b, device_registry_new) = (b', r')" by fastforce
  with Suc have IH: "charged (j * 2 ^ 32 + n * 2 ^ 28) (j * 16 + n) b'" "unat (total_device_bytes r') = n * 2 ^ 28"
    "unat (next_handle r') = Suc n" "reg_wf r'" "length (buffers r') = n" by simp_all
  have size: "unat (mem_size e) = 2 ^ 28" by (simp add: assms(1) device_caps)
  have adm: "admits (b', r') e"
    using IH assms(3) Suc.prems by (simp add: admits_def size charged_def device_caps)
  have lt: "next_handle r' < word_max"
    using IH(3) Suc.prems by (simp add: word_less_nat_alt unat_word_max)
  have sums: "unat (total_bytes b' + mem_size e) = unat (total_bytes b') + 2 ^ 28"
    "unat (total_device_bytes r' + mem_size e) = unat (total_device_bytes r') + 2 ^ 28"
    using adm size by (auto simp: admits_def unat_add_le_cap)
  have "unat (total_allocs b' + 1) = Suc (unat (total_allocs b'))"
    using IH(1) assms(3) Suc.prems by (intro unat_succ) (simp add: charged_def word_less_nat_alt unat_word_max)
  with IH sums unat_succ [OF lt] reg_wf_published [OF IH(4) lt, of e] published_sums(2) [OF IH(4), of e] show ?case
    by (simp add: s insert_buffer_eq adm charged_def add.commute)
qed

lemma lifetimes_charge:
  assumes "mem_size e = MAX_DEVICE_ALLOC_BYTES" and "i \<le> 4"
  shows "charged (i * 2 ^ 32) (i * 16) ((instance_lifetime 16 e ^^ i) device_budget_new)"
  using assms(2)
proof (induction i)
  case 0
  then show ?case by (simp add: charged_def device_budget_new_def)
next
  case (Suc i)
  then have "charged (i * 2 ^ 32) (i * 16) ((instance_lifetime 16 e ^^ i) device_budget_new)" by simp
  from allocate_many_charges [OF assms(1) this, of 16] Suc.prems show ?case
    by (simp add: instance_lifetime_def [of 16 e "(instance_lifetime 16 e ^^ i) device_budget_new"] add.commute)
qed

text \<open>
  C32: what a dropped instance still held stays charged to the process budget for good. After
  four instances have each allocated sixteen buffers of the largest size and gone away, no
  buffer is live, yet every further allocation of every instance is refused.
\<close>

theorem dropped_instances_exhaust_budget:
  assumes "mem_size e = MAX_DEVICE_ALLOC_BYTES" and "mem_size f > 0"
  shows "snd (insert_buffer ((instance_lifetime 16 e ^^ 4) device_budget_new, device_registry_new) f)
    = Err QuotaExceeded"
proof -
  let ?b = "(instance_lifetime 16 e ^^ 4) device_budget_new"
  have "unat (total_bytes ?b) = 4 * 2 ^ 32" using lifetimes_charge [OF assms(1), of 4] by (simp add: charged_def)
  moreover have "unat (mem_size f) > 0" using assms(2) by (simp add: word_less_nat_alt)
  ultimately have "\<not> admits (?b, device_registry_new) f" by (simp add: admits_def device_caps)
  then show ?thesis by (simp add: insert_buffer_eq)
qed

theorem dropped_instances_exhaust_budget_witness:
  "snd (insert_buffer ((instance_lifetime 16 \<lparr>mem_owner = 1, mem_size = MAX_DEVICE_ALLOC_BYTES, device_ptr = 0\<rparr> ^^ 4) device_budget_new,
     device_registry_new) \<lparr>mem_owner = 2, mem_size = 1, device_ptr = 0\<rparr>) = Err QuotaExceeded"
  by (rule dropped_instances_exhaust_budget) simp_all

end
