(* ===== verification/Byte_Codec.thy ===== *)
theory Byte_Codec
  imports Rust_Prelude
begin

text \<open>
  Little-endian byte codecs, \<open>to_le_bytes\<close> and \<open>from_le_bytes\<close> of the unsigned types, and the
  lemmas that a parser of fixed-width fields needs: the width of an encoding and both round
  trips. A signed integer or a float is the word of its bits, which the two functions
  preserve.
\<close>

named_theorems codec

fun nat_le :: "bytes \<Rightarrow> nat" where
  "nat_le [] = 0"
| "nat_le (b # bs) = unat b + 256 * nat_le bs"

fun le_nat :: "nat \<Rightarrow> nat \<Rightarrow> bytes" where
  "le_nat 0 x = []"
| "le_nat (Suc n) x = of_nat x # le_nat n (x div 256)"

definition from_le_bytes :: "bytes \<Rightarrow> 'a::len word" where
  "from_le_bytes bs = of_nat (nat_le bs)"

definition to_le_bytes :: "'a::len word \<Rightarrow> bytes" where
  "to_le_bytes w = le_nat (LENGTH('a) div 8) (unat w)"

lemma length_le_nat [simp]: "length (le_nat n x) = n"
  by (induction n arbitrary: x) simp_all

lemma nat_le_less: "nat_le bs < 256 ^ length bs"
proof (induction bs)
  case (Cons b bs)
  have "unat b < 256" using unsigned_less [of b, where 'a = nat] by simp
  with Cons show ?case by simp
qed simp

lemma unat_of_nat_u8: "unat (of_nat x :: u8) = x mod 256"
  by (simp add: unat_of_nat)

lemma nat_le_le_nat: "nat_le (le_nat n x) = x mod 256 ^ n"
  by (induction n arbitrary: x) (simp_all add: unat_of_nat_u8 mod_mult2_eq [of _ 256] add.commute)

lemma le_nat_nat_le: "le_nat (length bs) (nat_le bs) = bs"
proof (induction bs)
  case (Cons b bs)
  have lt: "unat b < 256" using unsigned_less [of b, where 'a = nat] by simp
  then have "(unat b + 256 * nat_le bs) div 256 = nat_le bs" by simp
  moreover have "of_nat (unat b + 256 * nat_le bs) = b"
    using lt by (simp add: word_unat_eq_iff unat_of_nat_u8 del: of_nat_add of_nat_mult)
  ultimately show ?case using Cons by simp
qed simp

lemma length_to_le [simp, codec]: "length (to_le_bytes (w :: 'a::len word)) = LENGTH('a) div 8"
  by (simp add: to_le_bytes_def)

lemma from_to_le:
  assumes "LENGTH('a::len) = 8 * n"
  shows "from_le_bytes (to_le_bytes (w :: 'a word)) = w"
proof -
  have "unat w < 256 ^ n"
    using unsigned_less [of w, where 'a = nat] by (simp add: assms power_mult)
  then show ?thesis
    by (simp add: from_le_bytes_def to_le_bytes_def nat_le_le_nat assms of_nat_unat)
qed

lemma to_from_le:
  assumes "LENGTH('a::len) = 8 * length bs"
  shows "to_le_bytes (from_le_bytes bs :: 'a word) = bs"
proof -
  have "unat (of_nat (nat_le bs) :: 'a word) = nat_le bs"
    using nat_le_less [of bs] by (simp add: unat_of_nat assms power_mult)
  then show ?thesis
    by (simp add: from_le_bytes_def to_le_bytes_def assms le_nat_nat_le)
qed

lemma from_to_le_bytes [simp, codec]:
  "from_le_bytes (to_le_bytes (w16 :: u16)) = w16"
  "from_le_bytes (to_le_bytes (w32 :: u32)) = w32"
  "from_le_bytes (to_le_bytes (w64 :: u64)) = w64"
  by (simp_all add: from_to_le [of 2] from_to_le [of 4] from_to_le [of 8])

lemma to_from_le_bytes [codec]:
  "length bs = 2 \<Longrightarrow> to_le_bytes (from_le_bytes bs :: u16) = bs"
  "length bs = 4 \<Longrightarrow> to_le_bytes (from_le_bytes bs :: u32) = bs"
  "length bs = 8 \<Longrightarrow> to_le_bytes (from_le_bytes bs :: u64) = bs"
  by (simp_all add: to_from_le)

lemma to_le_inj [codec]:
  "to_le_bytes (a :: u16) = to_le_bytes b \<longleftrightarrow> a = b"
  "to_le_bytes (c :: u32) = to_le_bytes d \<longleftrightarrow> c = d"
  "to_le_bytes (e :: u64) = to_le_bytes f \<longleftrightarrow> e = f"
  by (metis from_to_le_bytes)+

end
