(* ===== verification/Kernel_Args.thy ===== *)
theory Kernel_Args
  imports Gpu_Abi Byte_Codec
begin

text \<open>
  The typed kernel-argument lane, \<^verbatim>\<open>crates/tensor-wasm-wasi-gpu/src/kernel_args.rs\<close>: the
  tagged wire format, the strict parser with its caps and pointer checks, the encoder, and the
  parameter block handed to \<open>cuLaunchKernel\<close>.

  Signed integers and floats are carried as the word of their bits. A host pointer is the
  address of a byte of the caller's linear memory, whose base address is a parameter; \<open>usize\<close>
  is 64 bits wide.
\<close>

unbundle bit_operations_syntax

section \<open>Model\<close>

definition MAX_KERNEL_ARGS :: nat where
  "MAX_KERNEL_ARGS = 128"

definition MAX_KERNEL_ARGS_BYTES :: nat where
  "MAX_KERNEL_ARGS_BYTES = 4 * 1024"

datatype arg_tag = TagI32 | TagI64 | TagF32 | TagF64 | TagU32 | TagU64 | TagPtr

fun tag_byte :: "arg_tag \<Rightarrow> u8" where
  "tag_byte TagI32 = 1"
| "tag_byte TagI64 = 2"
| "tag_byte TagF32 = 3"
| "tag_byte TagF64 = 4"
| "tag_byte TagU32 = 5"
| "tag_byte TagU64 = 6"
| "tag_byte TagPtr = 7"

definition from_byte :: "u8 \<Rightarrow> (abi_error, arg_tag) result" where
  "from_byte b =
     (if b = 1 then Ok TagI32
      else if b = 2 then Ok TagI64
      else if b = 3 then Ok TagF32
      else if b = 4 then Ok TagF64
      else if b = 5 then Ok TagU32
      else if b = 6 then Ok TagU64
      else if b = 7 then Ok TagPtr
      else Err InvalidArgs)"

fun value_bytes :: "arg_tag \<Rightarrow> nat" where
  "value_bytes TagI32 = 4"
| "value_bytes TagF32 = 4"
| "value_bytes TagU32 = 4"
| "value_bytes TagI64 = 8"
| "value_bytes TagF64 = 8"
| "value_bytes TagU64 = 8"
| "value_bytes TagPtr = 8"

datatype lowered_arg =
    I32 u32
  | I64 u64
  | F32 u32
  | F64 u64
  | U32 u32
  | U64 u64
  | Ptr (host_ptr: u64) (arg_len: u32) (guest_offset: u32)

datatype lowered_arg_snapshot =
    SnapI32 u32
  | SnapI64 u64
  | SnapF32 u32
  | SnapF64 u64
  | SnapU32 u32
  | SnapU64 u64
  | SnapPtr u32 u32

fun snapshot_of :: "lowered_arg \<Rightarrow> lowered_arg_snapshot" where
  "snapshot_of (I32 v) = SnapI32 v"
| "snapshot_of (I64 v) = SnapI64 v"
| "snapshot_of (F32 v) = SnapF32 v"
| "snapshot_of (F64 v) = SnapF64 v"
| "snapshot_of (U32 v) = SnapU32 v"
| "snapshot_of (U64 v) = SnapU64 v"
| "snapshot_of (Ptr p n off) = SnapPtr n off"

definition ptr_for_encoding :: "u32 \<Rightarrow> u32 \<Rightarrow> lowered_arg" where
  "ptr_for_encoding off n = Ptr 0 n off"

text \<open>
  One value of the wire. \<open>base\<close> is the address of the caller's memory and \<open>mem_len\<close> its
  length.
\<close>

definition lower_ptr :: "u64 \<Rightarrow> u64 \<Rightarrow> bytes \<Rightarrow> (abi_error, lowered_arg) result" where
  "lower_ptr base mem_len val =
     (let off = from_le_bytes (take 4 val) :: u32;
          n = from_le_bytes (drop 4 val) :: u32;
          start = ucast off :: u64
      in case checked_add start (ucast n) of
           None \<Rightarrow> Err InvalidPointer
         | Some stop \<Rightarrow> if stop > mem_len then Err InvalidPointer else Ok (Ptr (base + start) n off))"

fun lower_value :: "u64 \<Rightarrow> u64 \<Rightarrow> arg_tag \<Rightarrow> bytes \<Rightarrow> (abi_error, lowered_arg) result" where
  "lower_value base mem_len TagI32 val = Ok (I32 (from_le_bytes val))"
| "lower_value base mem_len TagI64 val = Ok (I64 (from_le_bytes val))"
| "lower_value base mem_len TagF32 val = Ok (F32 (from_le_bytes val))"
| "lower_value base mem_len TagF64 val = Ok (F64 (from_le_bytes val))"
| "lower_value base mem_len TagU32 val = Ok (U32 (from_le_bytes val))"
| "lower_value base mem_len TagU64 val = Ok (U64 (from_le_bytes val))"
| "lower_value base mem_len TagPtr val = lower_ptr base mem_len val"

text \<open>The loop, on the bytes from the cursor on; \<open>out\<close> is what was pushed so far.\<close>

function parse_records ::
    "u64 \<Rightarrow> u64 \<Rightarrow> lowered_arg list \<Rightarrow> bytes \<Rightarrow> (abi_error, lowered_arg list) result" where
  "parse_records base mem_len out [] = Ok out"
| "parse_records base mem_len out (b # rest) =
     (if length out \<ge> MAX_KERNEL_ARGS then Err KernelArgsUnsupported
      else rbind (from_byte b) (\<lambda>tag.
        if value_bytes tag > length rest then Err InvalidArgs
        else rbind (lower_value base mem_len tag (take (value_bytes tag) rest)) (\<lambda>arg.
          parse_records base mem_len (out @ [arg]) (drop (value_bytes tag) rest))))"
  by pat_completeness auto
termination
  by (relation "measure (\<lambda>(_, _, _, bs). length bs)") auto

definition parse_argv :: "u64 \<Rightarrow> u64 \<Rightarrow> bytes \<Rightarrow> (abi_error, lowered_arg list) result" where
  "parse_argv base mem_len buf =
     (if length buf > MAX_KERNEL_ARGS_BYTES then Err KernelArgsUnsupported
      else parse_records base mem_len [] buf)"

fun encode_arg :: "lowered_arg \<Rightarrow> bytes" where
  "encode_arg (I32 v) = tag_byte TagI32 # to_le_bytes v"
| "encode_arg (I64 v) = tag_byte TagI64 # to_le_bytes v"
| "encode_arg (F32 v) = tag_byte TagF32 # to_le_bytes v"
| "encode_arg (F64 v) = tag_byte TagF64 # to_le_bytes v"
| "encode_arg (U32 v) = tag_byte TagU32 # to_le_bytes v"
| "encode_arg (U64 v) = tag_byte TagU64 # to_le_bytes v"
| "encode_arg (Ptr p n off) = tag_byte TagPtr # to_le_bytes off @ to_le_bytes n"

definition encode_argv :: "lowered_arg list \<Rightarrow> bytes" where
  "encode_argv args = concat (map encode_arg args)"

subsection \<open>The parameter block\<close>

text \<open>
  \<open>to_ne_bytes\<close> on the little-endian hosts the GPU path supports; a pointer is stored as the
  bytes of its address.
\<close>

fun slot_bytes :: "lowered_arg \<Rightarrow> bytes" where
  "slot_bytes (I32 v) = to_le_bytes v"
| "slot_bytes (I64 v) = to_le_bytes v"
| "slot_bytes (F32 v) = to_le_bytes v"
| "slot_bytes (F64 v) = to_le_bytes v"
| "slot_bytes (U32 v) = to_le_bytes v"
| "slot_bytes (U64 v) = to_le_bytes v"
| "slot_bytes (Ptr p n off) = to_le_bytes p"

fun slot_align :: "lowered_arg \<Rightarrow> nat" where
  "slot_align (I32 v) = 4"
| "slot_align (I64 v) = 8"
| "slot_align (F32 v) = 4"
| "slot_align (F64 v) = 8"
| "slot_align (U32 v) = 4"
| "slot_align (U64 v) = 8"
| "slot_align (Ptr p n off) = 8"

definition padding_for :: "nat \<Rightarrow> nat \<Rightarrow> nat" where
  "padding_for unpadded align = unat (- of_nat unpadded AND (of_nat align - 1) :: u64)"

definition push_slot :: "bytes \<times> nat list \<Rightarrow> nat \<Rightarrow> bytes \<Rightarrow> bytes \<times> nat list" where
  "push_slot = (\<lambda>(backing, offsets) align bs.
     let padded = backing @ replicate (padding_for (length backing) align) 0
     in (padded @ bs, offsets @ [length padded]))"

definition estimated_cap :: "lowered_arg list \<Rightarrow> nat" where
  "estimated_cap args = (\<Sum>a\<leftarrow>args. slot_align a - 1 + length (slot_bytes a))"

text \<open>The backing buffer, the slot pointers for a buffer at address \<open>at\<close>, and the offsets.\<close>

definition lay_out :: "lowered_arg list \<Rightarrow> bytes \<times> nat list" where
  "lay_out args = foldl (\<lambda>st a. push_slot st (slot_align a) (slot_bytes a)) ([], []) args"

record kernel_param_storage =
  backing :: bytes
  slots :: "u64 list"

definition build_kernel_param_storage :: "u64 \<Rightarrow> lowered_arg list \<Rightarrow> kernel_param_storage" where
  "build_kernel_param_storage addr args =
     (case lay_out args of (bs, offsets) \<Rightarrow> \<lparr>backing = bs, slots = map (\<lambda>off. addr + of_nat off) offsets\<rparr>)"

section \<open>Parsing is the inverse of encoding\<close>

text \<open>
  A resolved argument: a pointer points at its offset in the memory and its window
  \<open>[off, off + len)\<close> lies inside.
\<close>

fun arg_ok :: "u64 \<Rightarrow> u64 \<Rightarrow> lowered_arg \<Rightarrow> bool" where
  "arg_ok base mem_len (Ptr p n off) \<longleftrightarrow> p = base + ucast off \<and> unat off + unat n \<le> unat mem_len"
| "arg_ok base mem_len _ \<longleftrightarrow> True"

fun tag_of :: "lowered_arg \<Rightarrow> arg_tag" where
  "tag_of (I32 v) = TagI32"
| "tag_of (I64 v) = TagI64"
| "tag_of (F32 v) = TagF32"
| "tag_of (F64 v) = TagF64"
| "tag_of (U32 v) = TagU32"
| "tag_of (U64 v) = TagU64"
| "tag_of (Ptr p n off) = TagPtr"

lemma from_byte_iff: "from_byte b = Ok t \<longleftrightarrow> b = tag_byte t"
  by (cases t) (auto simp: from_byte_def)

lemma from_tag_byte [simp]: "from_byte (tag_byte t) = Ok t"
  by (simp add: from_byte_iff)

lemma encode_arg_tag: "\<exists>val. encode_arg a = tag_byte (tag_of a) # val \<and> length val = value_bytes (tag_of a)"
  by (cases a) simp_all

lemma length_encode_arg: "length (encode_arg a) \<le> 9"
  by (cases a) simp_all

lemma length_encode_argv: "length (encode_argv args) \<le> 9 * length args"
proof (induction args)
  case (Cons a args)
  with length_encode_arg [of a] show ?case by (simp add: encode_argv_def)
qed (simp add: encode_argv_def)

lemma checked_add_u32:
  "checked_add (ucast (a :: u32) :: u64) (ucast (b :: u32)) = Some (ucast a + ucast b)"
  "unat (ucast a + ucast b :: u64) = unat a + unat b"
proof -
  have "unat a < 2 ^ 32" "unat b < 2 ^ 32"
    using unsigned_less [of a, where 'a = nat] unsigned_less [of b, where 'a = nat] by simp_all
  then show "checked_add (ucast a :: u64) (ucast b) = Some (ucast a + ucast b)"
    and "unat (ucast a + ucast b :: u64) = unat a + unat b"
    by (simp_all add: checked_add_def unat_u32_as_u64 unat_add_nowrap)
qed

lemma lower_ptr_iff:
  assumes "length val = 8"
  shows "lower_ptr base mem_len val = Ok a \<longleftrightarrow>
    (\<exists>p n off. a = Ptr p n off \<and> arg_ok base mem_len a \<and> val = to_le_bytes off @ to_le_bytes n)"
proof -
  let ?off = "from_le_bytes (take 4 val) :: u32" and ?n = "from_le_bytes (drop 4 val) :: u32"
  have split: "to_le_bytes off @ to_le_bytes n = val \<longleftrightarrow> off = ?off \<and> n = ?n" for off n :: u32
  proof -
    have "to_le_bytes ?off @ to_le_bytes ?n = val" by (simp add: to_from_le_bytes assms)
    then show ?thesis by (metis append_eq_append_conv length_to_le to_le_inj(2))
  qed
  note checked_add_u32 [of ?off ?n]
  then show ?thesis
    by (auto simp: lower_ptr_def Let_def word_less_nat_alt eq_commute [of val] split split: if_splits)
qed

lemma lower_value_iff:
  assumes "length val = value_bytes t"
  shows "lower_value base mem_len t val = Ok a \<longleftrightarrow>
    encode_arg a = tag_byte t # val \<and> arg_ok base mem_len a"
  using assms
  by (cases t; cases a) (auto simp: lower_ptr_iff to_from_le_bytes)

lemma encode_argv_simps [simp]:
  "encode_argv [] = []"
  "encode_argv (a # args) = encode_arg a @ encode_argv args"
  by (simp_all add: encode_argv_def)

lemma encode_argv_Nil_iff: "encode_argv args = [] \<longleftrightarrow> args = []"
  by (cases args) (use encode_arg_tag in \<open>auto, metis list.distinct(1)\<close>)

lemma parse_records_iff:
  "length out \<le> MAX_KERNEL_ARGS \<Longrightarrow> parse_records base mem_len out bs = Ok res \<longleftrightarrow>
     (\<exists>args. res = out @ args \<and> encode_argv args = bs \<and> list_all (arg_ok base mem_len) args
        \<and> length out + length args \<le> MAX_KERNEL_ARGS)"
proof (induction base mem_len out bs arbitrary: res rule: parse_records.induct)
  case (1 base mem_len out)
  then show ?case by (auto simp: encode_argv_Nil_iff)
next
  case (2 base mem_len out b rest)
  show ?case (is "?parse \<longleftrightarrow> ?spec")
  proof
    assume ?parse
    then obtain t a where room: "length out < MAX_KERNEL_ARGS" and t: "from_byte b = Ok t"
      and fits: "value_bytes t \<le> length rest"
      and a: "lower_value base mem_len t (take (value_bytes t) rest) = Ok a"
      and more: "parse_records base mem_len (out @ [a]) (drop (value_bytes t) rest) = Ok res"
      by (auto simp: rbind_Ok_iff split: if_splits)
    from "2.IH" [of t a res] room t fits a more obtain args where args: "res = out @ [a] @ args"
      "encode_argv args = drop (value_bytes t) rest" "list_all (arg_ok base mem_len) args"
      "Suc (length out + length args) \<le> MAX_KERNEL_ARGS" by auto
    from a fits have "encode_arg a = b # take (value_bytes t) rest" and "arg_ok base mem_len a"
      using t by (simp_all add: lower_value_iff from_byte_iff)
    with args show ?spec by (intro exI [of _ "a # args"]) simp
  next
    assume ?spec
    then obtain args where args: "res = out @ args" "encode_argv args = b # rest"
      "list_all (arg_ok base mem_len) args" "length out + length args \<le> MAX_KERNEL_ARGS" by blast
    then obtain a args' where cons: "args = a # args'" by (cases args) auto
    obtain val where val: "encode_arg a = tag_byte (tag_of a) # val" "length val = value_bytes (tag_of a)"
      using encode_arg_tag by blast
    with args(2) cons have b: "b = tag_byte (tag_of a)" and rest: "rest = val @ encode_argv args'" by auto
    have a: "lower_value base mem_len (tag_of a) val = Ok a"
      using val args(3) cons by (simp add: lower_value_iff)
    have "parse_records base mem_len (out @ [a]) (encode_argv args') = Ok res"
      using "2.IH" [of "tag_of a" a res] args cons a b rest val by auto
    with a b rest val(2) args(4) cons show ?parse by simp
  qed
qed

text \<open>
  C7: the parser accepts exactly the encodings of well-formed argument lists, and returns the
  list that was encoded. A buffer parses to \<open>args\<close> if and only if it is their encoding, there
  are at most 128 of them, and every pointer argument lies inside the caller's memory and was
  resolved to its address. So no buffer has two readings, nothing is left over, and nothing
  malformed gets past it.
\<close>

theorem parse_argv_iff_encode:
  "parse_argv base mem_len buf = Ok args \<longleftrightarrow>
     buf = encode_argv args \<and> length args \<le> 128 \<and> list_all (arg_ok base mem_len) args"
proof -
  have "length (encode_argv args) \<le> MAX_KERNEL_ARGS_BYTES" if "length args \<le> MAX_KERNEL_ARGS"
    using that length_encode_argv [of args] by (simp add: MAX_KERNEL_ARGS_def MAX_KERNEL_ARGS_BYTES_def)
  then show ?thesis
    using parse_records_iff [of "[]" base mem_len buf args]
    by (auto simp: parse_argv_def MAX_KERNEL_ARGS_def)
qed

section \<open>Layout of the parameter block\<close>

lemma unat_minus_mask:
  assumes "n < 2 ^ 64" and "k \<le> 64"
  shows "unat (- of_nat n AND mask k :: u64) = (2 ^ 64 - n) mod 2 ^ k"
proof -
  have "(- of_nat n :: u64) = of_nat (2 ^ 64 - n)"
    using assms(1) by (simp add: of_nat_diff)
  then have "unat (- of_nat n :: u64) = (2 ^ 64 - n) mod 2 ^ 64"
    by (simp only: unat_of_nat) simp
  then have "unat (- of_nat n AND mask k :: u64) = (2 ^ 64 - n) mod 2 ^ 64 mod 2 ^ k"
    unfolding take_bit_eq_mask [symmetric] unsigned_take_bit_eq by (simp only: take_bit_eq_mod)
  also have "\<dots> = (2 ^ 64 - n) mod 2 ^ k" by (rule mod_mod_cancel) (rule le_imp_power_dvd [OF assms(2)])
  finally show ?thesis .
qed

text \<open>The bit trick rounds up: the padding is less than the alignment and fills up to a multiple of it.\<close>

lemma padding_for_correct:
  assumes "n < 2 ^ 64" and "align = 2 ^ k" and "k < 64"
  shows "padding_for n align < align \<and> (n + padding_for n align) mod align = 0"
proof -
  have "(of_nat align - 1 :: u64) = mask k" by (simp add: assms(2) mask_eq_exp_minus_1)
  then have p: "padding_for n align = (2 ^ 64 - n) mod align"
    using assms by (simp add: padding_for_def unat_minus_mask)
  have "(n + (2 ^ 64 - n) mod align) mod align = (n + (2 ^ 64 - n)) mod align" by (rule mod_add_right_eq)
  also have "n + (2 ^ 64 - n) = 2 ^ 64" using assms(1) by simp
  also have "2 ^ 64 mod align = 0"
    unfolding assms(2) by (rule dvd_imp_mod_0) (rule le_imp_power_dvd, use assms(3) in simp)
  finally show ?thesis unfolding p using assms(2) by simp
qed

lemma slot_align_pow: "slot_align a = 2 ^ 2 \<or> slot_align a = 2 ^ 3"
  by (cases a) simp_all

lemma slot_padding:
  assumes "n < 2 ^ 64"
  shows "padding_for n (slot_align a) < slot_align a" and "(n + padding_for n (slot_align a)) mod slot_align a = 0"
  using slot_align_pow [of a] padding_for_correct [OF assms, of "slot_align a" 2]
    padding_for_correct [OF assms, of "slot_align a" 3] by auto

text \<open>
  Where the arguments are: slot \<open>i\<close> starts at a multiple of its alignment, holds the bytes of
  argument \<open>i\<close>, and ends before the next slot and before the end of the buffer.
\<close>

definition laid_out :: "lowered_arg list \<Rightarrow> bytes \<times> nat list \<Rightarrow> bool" where
  "laid_out args st \<longleftrightarrow> (case st of (bs, offs) \<Rightarrow>
     length offs = length args
   \<and> (\<forall>i < length args. offs ! i mod slot_align (args ! i) = 0
        \<and> take (length (slot_bytes (args ! i))) (drop (offs ! i) bs) = slot_bytes (args ! i)
        \<and> offs ! i + length (slot_bytes (args ! i)) \<le> length bs)
   \<and> (\<forall>i j. i < j \<and> j < length args \<longrightarrow> offs ! i + length (slot_bytes (args ! i)) \<le> offs ! j)
   \<and> length bs \<le> estimated_cap args)"

lemma laid_out_push:
  assumes "laid_out args st" and "length (fst st) < 2 ^ 64"
  shows "laid_out (args @ [a]) (push_slot st (slot_align a) (slot_bytes a))"
proof -
  obtain bs offs where st: "st = (bs, offs)" by (cases st)
  let ?pad = "padding_for (length bs) (slot_align a)"
  have pad: "?pad \<le> slot_align a - 1" "(length bs + ?pad) mod slot_align a = 0"
    using slot_padding [of "length bs" a] assms(2) by (simp_all add: st)
  have keep: "take n (drop off (bs @ more)) = take n (drop off bs)" if "off + n \<le> length bs" for n off more
    using that by simp
  show ?thesis
    using assms(1) pad unfolding laid_out_def push_slot_def st Let_def
    by (auto simp: nth_append less_Suc_eq keep estimated_cap_def)
qed

lemma estimated_cap_le: "estimated_cap args \<le> 15 * length args"
proof (induction args)
  case (Cons a args)
  have "slot_align a - 1 + length (slot_bytes a) \<le> 15" by (cases a) simp_all
  with Cons show ?case by (simp add: estimated_cap_def)
qed (simp add: estimated_cap_def)

lemma lay_out_correct: "length args < 2 ^ 60 \<Longrightarrow> laid_out args (lay_out args)"
proof (induction args rule: rev_induct)
  case Nil
  then show ?case by (simp add: laid_out_def lay_out_def estimated_cap_def)
next
  case (snoc a args)
  then have IH: "laid_out args (lay_out args)" by simp
  then have "length (fst (lay_out args)) \<le> 15 * length args"
    using estimated_cap_le [of args] by (auto simp: laid_out_def split: prod.splits)
  with snoc.prems IH show ?case
    by (simp add: lay_out_def [of "args @ [a]"] lay_out_def [of args, symmetric] laid_out_push)
qed

text \<open>
  C39: the parameter block of a launch is laid out as CUDA reads it. For every argument list the
  parser can produce, slot \<open>i\<close> points into the block at the bytes of argument \<open>i\<close>, at an
  offset that is a multiple of the argument's alignment; slots do not overlap, none reaches past
  the end, and the buffer reserved up front is large enough, so it never moves.
\<close>

theorem param_storage_layout:
  fixes addr :: u64
  assumes "parse_argv base mem_len buf = Ok args"
  defines "s \<equiv> build_kernel_param_storage addr args" and "offs \<equiv> snd (lay_out args)"
  shows "slots s = map (\<lambda>off. addr + of_nat off) offs \<and> length (slots s) = length args
    \<and> length (backing s) \<le> estimated_cap args
    \<and> (\<forall>i < length args. offs ! i mod slot_align (args ! i) = 0
         \<and> take (length (slot_bytes (args ! i))) (drop (offs ! i) (backing s)) = slot_bytes (args ! i)
         \<and> offs ! i + length (slot_bytes (args ! i)) \<le> length (backing s)
         \<and> (\<forall>j < i. offs ! j + length (slot_bytes (args ! j)) \<le> offs ! i))"
proof -
  have "length args \<le> MAX_KERNEL_ARGS"
    using assms(1) parse_records_iff [of "[]" base mem_len buf args] by (auto simp: parse_argv_def split: if_splits)
  then have "laid_out args (lay_out args)" by (intro lay_out_correct) (simp add: MAX_KERNEL_ARGS_def)
  then show ?thesis
    by (auto simp: s_def offs_def build_kernel_param_storage_def laid_out_def split: prod.splits)
qed

definition demo_args :: "lowered_arg list" where
  "demo_args = [U32 7, F64 0x3FF0000000000000, Ptr 4112 8 16]"

theorem param_storage_layout_witness:
  "parse_argv 4096 64 (encode_argv demo_args) = Ok demo_args
   \<and> snd (lay_out demo_args) = [0, 8, 16]
   \<and> take 8 (drop 8 (backing (build_kernel_param_storage 0 demo_args))) = to_le_bytes (0x3FF0000000000000 :: u64)"
proof -
  have "list_all (arg_ok 4096 64) demo_args" by (simp add: demo_args_def)
  then have parse: "parse_argv 4096 64 (encode_argv demo_args) = Ok demo_args"
    using parse_records_iff [of "[]" 4096 64 "encode_argv demo_args" demo_args] length_encode_argv [of demo_args]
    by (simp add: parse_argv_def MAX_KERNEL_ARGS_BYTES_def MAX_KERNEL_ARGS_def demo_args_def)
  moreover have offs: "snd (lay_out demo_args) = [0, 8, 16]"
    by (simp add: lay_out_def demo_args_def push_slot_def padding_for_def)
  ultimately show ?thesis
    using param_storage_layout [OF parse, of 0] by (auto simp: demo_args_def dest!: spec [of _ "1 :: nat"])
qed

end
