(* ===== verification/Utf8_Text.thy ===== *)
theory Utf8_Text
  imports Rust_Prelude
begin

text \<open>
  Rust's \<open>String\<close> and \<open>&str\<close> as their UTF-8 bytes: the validity check of \<open>from_utf8\<close>,
  \<open>is_char_boundary\<close>, and the largest boundary below a limit, which the program uses wherever
  it cuts a message to size. The lemmas say that cutting at a boundary keeps the text valid and
  loses at most three bytes more than the limit asks for.
\<close>

section \<open>UTF-8\<close>

text \<open>A continuation byte \<open>10xxxxxx\<close>.\<close>

definition is_cont :: "u8 \<Rightarrow> bool" where
  "is_cont b \<longleftrightarrow> 0x80 \<le> b \<and> b \<le> 0xBF"

text \<open>The number of bytes that follow a leading byte, and the range of the first of them.\<close>

definition utf8_follow :: "u8 \<Rightarrow> (nat \<times> u8 \<times> u8) option" where
  "utf8_follow b =
     (if b < 0x80 then Some (0, 0, 0)
      else if b < 0xC2 then None
      else if b < 0xE0 then Some (1, 0x80, 0xBF)
      else if b = 0xE0 then Some (2, 0xA0, 0xBF)
      else if b = 0xED then Some (2, 0x80, 0x9F)
      else if b < 0xF0 then Some (2, 0x80, 0xBF)
      else if b = 0xF0 then Some (3, 0x90, 0xBF)
      else if b < 0xF4 then Some (3, 0x80, 0xBF)
      else if b = 0xF4 then Some (3, 0x80, 0x8F)
      else None)"

definition utf8_tail_ok :: "nat \<times> u8 \<times> u8 \<Rightarrow> bytes \<Rightarrow> bool" where
  "utf8_tail_ok = (\<lambda>(n, lo, hi) bs. n \<le> length bs \<and> list_all is_cont (take n bs)
     \<and> (n = 0 \<or> lo \<le> hd bs \<and> hd bs \<le> hi))"

function utf8_valid :: "bytes \<Rightarrow> bool" where
  "utf8_valid [] = True"
| "utf8_valid (b # bs) =
     (case utf8_follow b of
        None \<Rightarrow> False
      | Some (n, lo, hi) \<Rightarrow> utf8_tail_ok (n, lo, hi) bs \<and> utf8_valid (drop n bs))"
  by pat_completeness auto
termination
  by (relation "measure length") auto

definition is_char_boundary :: "bytes \<Rightarrow> nat \<Rightarrow> bool" where
  "is_char_boundary s i \<longleftrightarrow> i = 0 \<or> i = length s \<or> i < length s \<and> \<not> is_cont (s ! i)"

text \<open>\<open>(0..=limit).rev().find(is_char_boundary).unwrap_or(0)\<close>.\<close>

fun floor_boundary :: "bytes \<Rightarrow> nat \<Rightarrow> nat" where
  "floor_boundary s 0 = 0"
| "floor_boundary s (Suc i) = (if is_char_boundary s (Suc i) then Suc i else floor_boundary s i)"

lemma floor_boundary_le: "floor_boundary s i \<le> i"
  by (induction i) auto

lemma floor_boundary_is: "is_char_boundary s (floor_boundary s i)"
  by (induction i) (auto simp: is_char_boundary_def)

text \<open>Between the cut and the limit there are only continuation bytes.\<close>

lemma floor_boundary_gap:
  "floor_boundary s i < j \<Longrightarrow> j \<le> i \<Longrightarrow> i < length s \<Longrightarrow> is_cont (s ! j)"
proof (induction i)
  case (Suc i)
  then show ?case by (cases "j = Suc i") (auto simp: is_char_boundary_def split: if_splits)
qed simp

lemma utf8_follow_cases:
  assumes "utf8_follow b = Some (n, lo, hi)"
  shows "n \<le> 3 \<and> \<not> is_cont b"
  using assms by (auto simp: utf8_follow_def is_cont_def word_le_nat_alt word_less_nat_alt split: if_splits)

lemma utf8_valid_append: "utf8_valid a \<Longrightarrow> utf8_valid b \<Longrightarrow> utf8_valid (a @ b)"
proof (induction a rule: utf8_valid.induct)
  case (2 c bs)
  from "2.prems"(1) obtain n lo hi where f: "utf8_follow c = Some (n, lo, hi)"
    and t: "utf8_tail_ok (n, lo, hi) bs" and v: "utf8_valid (drop n bs)"
    by (auto split: option.splits)
  then have "utf8_valid (drop n bs @ b)" using "2.IH" [OF f refl refl] "2.prems"(2) by blast
  with f t show ?case by (auto simp: utf8_tail_ok_def hd_append)
qed simp

text \<open>Cutting at a boundary leaves valid text: no character straddles the cut.\<close>

lemma utf8_valid_take: "utf8_valid s \<Longrightarrow> is_char_boundary s i \<Longrightarrow> utf8_valid (take i s)"
proof (induction s arbitrary: i rule: utf8_valid.induct)
  case (2 c bs)
  show ?case
  proof (cases i)
    case (Suc j)
    from "2.prems"(1) obtain n lo hi where f: "utf8_follow c = Some (n, lo, hi)"
      and t: "utf8_tail_ok (n, lo, hi) bs" and v: "utf8_valid (drop n bs)"
      by (auto split: option.splits)
    have "n \<le> j \<or> j \<ge> length bs"
    proof (rule ccontr)
      assume "\<not> (n \<le> j \<or> length bs \<le> j)"
      with t have "is_cont (bs ! j)" by (auto simp: utf8_tail_ok_def list_all_length)
      with "2.prems"(2) Suc \<open>\<not> (n \<le> j \<or> length bs \<le> j)\<close> show False by (simp add: is_char_boundary_def)
    qed
    then show ?thesis
    proof
      assume n: "n \<le> j"
      have "is_char_boundary (drop n bs) (j - n)"
        using "2.prems"(2) Suc n by (auto simp: is_char_boundary_def)
      then have "utf8_valid (take (j - n) (drop n bs))" using "2.IH" [OF f refl refl v] by blast
      moreover have "drop n (take j bs) = take (j - n) (drop n bs)" by (simp add: drop_take)
      ultimately show ?thesis
        using f t n Suc by (auto simp: utf8_tail_ok_def min_def hd_take)
    next
      assume "length bs \<le> j"
      with "2.prems"(1) Suc show ?thesis by simp
    qed
  qed simp
qed simp

text \<open>A character has at most three continuation bytes, so the cut loses at most three bytes.\<close>

lemma utf8_no_long_cont:
  "utf8_valid s \<Longrightarrow> i + 3 < length s \<Longrightarrow> \<exists>k \<in> {i..i + 3}. \<not> is_cont (s ! k)"
proof (induction s arbitrary: i rule: utf8_valid.induct)
  case (2 c bs)
  from "2.prems"(1) obtain n lo hi where f: "utf8_follow c = Some (n, lo, hi)" and v: "utf8_valid (drop n bs)"
    by (auto split: option.splits)
  note n = utf8_follow_cases [OF f]
  show ?case
  proof (cases "i = 0")
    case True
    with n show ?thesis by (intro bexI [of _ 0]) auto
  next
    case False
    show ?thesis
    proof (cases "i > n")
      case True
      then have "i - Suc n + 3 < length (drop n bs)" using "2.prems"(2) by auto
      from "2.IH" [OF f refl refl v this] obtain k where
        "k \<in> {i - Suc n..i - Suc n + 3}" "\<not> is_cont (drop n bs ! k)" by blast
      with True "2.prems"(2) show ?thesis by (intro bexI [of _ "Suc n + k"]) auto
    next
      case notgt: False
      show ?thesis
      proof (cases "drop n bs")
        case Nil
        with "2.prems"(2) n False notgt show ?thesis by auto
      next
        case (Cons d ds)
        with v obtain x where "utf8_follow d = Some x" by (auto split: option.splits)
        then have "\<not> is_cont d" by (cases x) (use utf8_follow_cases in blast)
        moreover have "(c # bs) ! Suc n = d"
          using Cons hd_drop_conv_nth [of n bs] by (cases "n < length bs") auto
        ultimately show ?thesis using n False notgt by (intro bexI [of _ "Suc n"]) auto
      qed
    qed
  qed
qed simp

lemma floor_boundary_near:
  assumes "utf8_valid s" and "i < length s"
  shows "i \<le> floor_boundary s i + 3"
proof (rule ccontr)
  assume "\<not> i \<le> floor_boundary s i + 3"
  then have far: "floor_boundary s i + 3 < i" by simp
  then have "(i - 3) + 3 < length s" using assms(2) by simp
  from utf8_no_long_cont [OF assms(1) this] obtain k where "k \<in> {i - 3..i - 3 + 3}" "\<not> is_cont (s ! k)" by blast
  moreover have "floor_boundary s i < k" using calculation far by auto
  ultimately show False using floor_boundary_gap [of s i k] assms(2) far by auto
qed

end
