(* ===== verification/Gpu_Messages.thy ===== *)
theory Gpu_Messages
  imports Kernel_Registry Device_Memory Kernel_Args Utf8_Text Core_Error
begin

text \<open>
  The state of the host functions of \<^verbatim>\<open>crates/tensor-wasm-wasi-gpu/src/host.rs\<close>, the CUDA
  driver they call as a parameter, and the messages they record. Each message of the source is
  one definition here, so that the handlers of the theory \<open>Gpu_Host\<close> stay readable.
\<close>

type_synonym i32 = "32 word"
type_synonym i64 = "64 word"

section \<open>State\<close>

datatype driver_call =
    CuMemAlloc u64 u64 \<comment> \<open>the pointer returned and the size\<close>
  | CuMemFree u64
  | CuMemcpyHtoD u64 bytes
  | CuMemcpyDtoH u64 nat
  | CuLaunchKernel string "u32 list" u32 "lowered_arg list"

text \<open>The task that waits for a launched kernel.\<close>

datatype completion = Completed | JoinFailed | SyncFailed string

text \<open>
  Outcomes of the driver; a status or an error is its text. \<open>kernel_effect\<close> is what a started kernel does
  to the guest's memory through the pointers it was given: a kernel may write anything.
\<close>

record cuda_driver =
  bind_context :: "string option"
  cu_mem_alloc :: "u64 \<Rightarrow> string + u64"
  cu_mem_free :: "u64 \<Rightarrow> string option"
  cu_memcpy_htod :: "u64 \<Rightarrow> bytes \<Rightarrow> string option"
  cu_memcpy_dtoh :: "u64 \<Rightarrow> nat \<Rightarrow> string + (nat \<Rightarrow> u8)"
  module_from_ptx :: "bytes \<Rightarrow> string option"
  unmanaged :: "u64 \<Rightarrow> string option" \<comment> \<open>the attribute query, where the pointer is not managed memory\<close>
  get_function :: "string \<Rightarrow> string option"
  stream_new :: "string option"
  cu_launch_kernel :: "lowered_arg list \<Rightarrow> string option"
  kernel_effect :: "string \<Rightarrow> lowered_arg list \<Rightarrow> bytes \<Rightarrow> bytes"
  event_new :: "string option"
  event_record :: "string option"
  launch_wait :: completion
  context_synchronize :: "string option"

record host_state =
  inst :: instance_id
  registry :: kernel_registry
  device :: "device_budget \<times> device_registry"
  guest_memory :: "bytes option"
  last_error :: "bytes option"
  last_lowered_args :: "lowered_arg list"
  kernels_launched :: u64
  back_pressure_rejections :: u64
  wasi_cuda_enabled :: bool
  driver_log :: "driver_call list"

definition MAX_ENTRY_NAME_BYTES :: nat where
  "MAX_ENTRY_NAME_BYTES = 256"

definition MAX_DYNAMIC_SHARED_MEM_BYTES :: int where
  "MAX_DYNAMIC_SHARED_MEM_BYTES = 228 * 1024"

record launch_dims =
  grid_x :: i32
  grid_y :: i32
  grid_z :: i32
  block_x :: i32
  block_y :: i32
  block_z :: i32
  shared_mem :: i32

definition show_i32 :: "i32 \<Rightarrow> string" where
  "show_i32 n = (if sint n < 0 then ''-'' @ show_nat (nat (- sint n)) else show_nat (nat (sint n)))"

definition show_dims :: "i32 \<Rightarrow> i32 \<Rightarrow> i32 \<Rightarrow> string" where
  "show_dims x y z = ''(got '' @ show_i32 x @ '', '' @ show_i32 y @ '', '' @ show_i32 z @ '')''"

definition unmanaged_advice :: string where
  "unmanaged_advice = ''); refusing to launch so an invalid device pointer cannot raise a sticky CUDA_ERROR_ILLEGAL_ADDRESS ''
     @ ''that would poison the shared CUDA context for all tenants. Back guest linear memory with the unified-memory ''
     @ ''MemoryCreator (enable the `unified-memory` feature on tensor-wasm-mem).''"

section \<open>Messages\<close>

definition msg_alloc_zero :: string where
  "msg_alloc_zero = ''alloc: size must be > 0''"

definition msg_alloc_too_large :: "u64 \<Rightarrow> string" where
  "msg_alloc_too_large n = ''alloc: size '' @ show_u64 n @ '' exceeds MAX_DEVICE_ALLOC_BYTES ''
     @ show_u64 MAX_DEVICE_ALLOC_BYTES"

definition msg_alloc_no_cuda :: "u64 \<Rightarrow> string" where
  "msg_alloc_no_cuda n = ''alloc: CUDA not available on this host (requested '' @ show_u64 n
     @ '' bytes; handle tracked in registry)''"

definition msg_alloc_bind :: "string \<Rightarrow> string" where
  "msg_alloc_bind e = ''alloc: CUDA context bind failed: '' @ e"

definition msg_alloc_status :: "string \<Rightarrow> string" where
  "msg_alloc_status st = ''alloc: cuMemAlloc failed with status '' @ st"

definition msg_free_handle :: "u64 \<Rightarrow> abi_error \<Rightarrow> string" where
  "msg_free_handle handle e = ''free: handle '' @ show_u64 handle @ '' '' @ abi_error_name e"

definition msg_free_bind :: "string \<Rightarrow> string" where
  "msg_free_bind e = ''free: CUDA context bind failed: '' @ e"

definition msg_free_status :: "string \<Rightarrow> string" where
  "msg_free_status st = ''free: cuMemFree failed with status '' @ st"

definition msg_memcpy_h2d_negative_len :: "i32 \<Rightarrow> string" where
  "msg_memcpy_h2d_negative_len n = ''memcpy_h2d: negative len ('' @ show_i32 n @ '')''"

definition msg_memcpy_h2d_handle :: "u64 \<Rightarrow> abi_error \<Rightarrow> string" where
  "msg_memcpy_h2d_handle handle e = ''memcpy_h2d: handle '' @ show_u64 handle @ '' '' @ abi_error_name e"

definition msg_memcpy_h2d_len :: "u32 \<Rightarrow> device_mem_entry \<Rightarrow> string" where
  "msg_memcpy_h2d_len len_u32 dev = ''memcpy_h2d: len '' @ show_nat (unat len_u32)
     @ '' exceeds device buffer size '' @ show_u64 (mem_size dev)"

definition msg_memcpy_h2d_region :: "i32 \<Rightarrow> u32 \<Rightarrow> string" where
  "msg_memcpy_h2d_region src_ptr len_u32 = ''memcpy_h2d: source region ['' @ show_i32 src_ptr @ '', +''
     @ show_nat (unat len_u32) @ '') out of bounds''"

definition msg_memcpy_h2d_no_cuda :: string where
  "msg_memcpy_h2d_no_cuda = ''memcpy_h2d: CUDA not available on this host''"

definition msg_memcpy_h2d_bind :: "string \<Rightarrow> string" where
  "msg_memcpy_h2d_bind e = ''memcpy_h2d: CUDA context bind failed: '' @ e"

definition msg_memcpy_h2d_status :: "string \<Rightarrow> string" where
  "msg_memcpy_h2d_status st = ''memcpy_h2d: cuMemcpyHtoD failed: '' @ st"

definition msg_memcpy_d2h_negative_len :: "i32 \<Rightarrow> string" where
  "msg_memcpy_d2h_negative_len n = ''memcpy_d2h: negative len ('' @ show_i32 n @ '')''"

definition msg_memcpy_d2h_handle :: "u64 \<Rightarrow> abi_error \<Rightarrow> string" where
  "msg_memcpy_d2h_handle handle e = ''memcpy_d2h: handle '' @ show_u64 handle @ '' '' @ abi_error_name e"

definition msg_memcpy_d2h_len :: "u32 \<Rightarrow> device_mem_entry \<Rightarrow> string" where
  "msg_memcpy_d2h_len len_u32 dev = ''memcpy_d2h: len '' @ show_nat (unat len_u32)
     @ '' exceeds device buffer size '' @ show_u64 (mem_size dev)"

definition msg_memcpy_d2h_region :: "i32 \<Rightarrow> u32 \<Rightarrow> string" where
  "msg_memcpy_d2h_region dst_ptr len_u32 = ''memcpy_d2h: dest region ['' @ show_i32 dst_ptr @ '', +''
     @ show_nat (unat len_u32) @ '') out of bounds''"

definition msg_memcpy_d2h_no_cuda :: string where
  "msg_memcpy_d2h_no_cuda = ''memcpy_d2h: CUDA not available on this host''"

definition msg_memcpy_d2h_bind :: "string \<Rightarrow> string" where
  "msg_memcpy_d2h_bind e = ''memcpy_d2h: CUDA context bind failed: '' @ e"

definition msg_memcpy_d2h_status :: "string \<Rightarrow> string" where
  "msg_memcpy_d2h_status st = ''memcpy_d2h: cuMemcpyDtoH failed: '' @ st"

definition msg_ptx_negative :: "i32 \<Rightarrow> string" where
  "msg_ptx_negative ptx_len = ''load_ptx: negative ptx_len ('' @ show_i32 ptx_len @ '')''"

definition msg_ptx_too_large :: "i32 \<Rightarrow> string" where
  "msg_ptx_too_large ptx_len = ''load_ptx: ptx_len '' @ show_i32 ptx_len @ '' exceeds MAX_PTX_BYTES ''
     @ show_nat MAX_PTX_BYTES"

definition msg_ptx_entry_len :: "i32 \<Rightarrow> string" where
  "msg_ptx_entry_len entry_len = ''load_ptx: entry_len '' @ show_i32 entry_len
     @ '' exceeds MAX_ENTRY_NAME_BYTES '' @ show_nat MAX_ENTRY_NAME_BYTES"

definition msg_ptx_entry_utf8 :: string where
  "msg_ptx_entry_utf8 = ''load_ptx: entry name is not valid UTF-8''"

definition msg_ptx_empty :: string where
  "msg_ptx_empty = ''load_ptx: PTX bytes empty''"

definition msg_ptx_utf8 :: string where
  "msg_ptx_utf8 = ''load_ptx: PTX bytes are not valid UTF-8''"

definition msg_ptx_directive :: "string \<Rightarrow> string" where
  "msg_ptx_directive d = ''load_ptx: PTX missing required directive '' @ d"

definition msg_ptx_nul :: string where
  "msg_ptx_nul = ''load_ptx: PTX bytes contain an interior NUL''"

definition msg_ptx_bind :: "string \<Rightarrow> string" where
  "msg_ptx_bind e = ''load_ptx: CUDA context bind failed: '' @ e"

definition msg_ptx_compile :: "string \<Rightarrow> string" where
  "msg_ptx_compile e = ''load_ptx: cust compile failed: '' @ e"

definition msg_launch_no_memory :: string where
  "msg_launch_no_memory = ''launch: caller has no exported memory but args_len > 0''"

definition msg_launch_args_overflow :: "i32 \<Rightarrow> i32 \<Rightarrow> string" where
  "msg_launch_args_overflow args_ptr args_len = ''launch: args_ptr + args_len overflows usize (''
     @ show_i32 args_ptr @ '' + '' @ show_i32 args_len @ '')''"

definition msg_launch_args_region :: "i32 \<Rightarrow> u64 \<Rightarrow> bytes \<Rightarrow> string" where
  "msg_launch_args_region args_ptr stop mem = ''launch: args region ['' @ show_i32 args_ptr @ '', ''
     @ show_u64 stop @ '') exceeds Wasm memory len '' @ show_nat (length mem)"

definition msg_launch_args_negative :: "i32 \<Rightarrow> i32 \<Rightarrow> string" where
  "msg_launch_args_negative args_ptr args_len = ''launch: negative args_ptr ('' @ show_i32 args_ptr
     @ '') or args_len ('' @ show_i32 args_len @ '')''"

definition msg_launch_block_small :: "launch_dims \<Rightarrow> string" where
  "msg_launch_block_small d = ''launch: block dim must be >= 1 '' @ show_dims (block_x d) (block_y d) (block_z d)"

definition msg_launch_grid_small :: "launch_dims \<Rightarrow> string" where
  "msg_launch_grid_small d = ''launch: grid dim must be >= 1 '' @ show_dims (grid_x d) (grid_y d) (grid_z d)"

definition msg_launch_shared_negative :: "launch_dims \<Rightarrow> string" where
  "msg_launch_shared_negative d = ''launch: shared_mem must be >= 0 (got '' @ show_i32 (shared_mem d) @ '')''"

definition msg_launch_shared_large :: "launch_dims \<Rightarrow> string" where
  "msg_launch_shared_large d = ''launch: shared_mem '' @ show_i32 (shared_mem d)
     @ '' exceeds MAX_DYNAMIC_SHARED_MEM_BYTES=233472''"

definition msg_launch_block_large :: "launch_dims \<Rightarrow> string" where
  "msg_launch_block_large d = ''launch: block dim exceeds MAX_BLOCK_DIM=1024 ''
     @ show_dims (block_x d) (block_y d) (block_z d)"

definition msg_launch_block_product :: string where
  "msg_launch_block_product = ''launch: block dim product overflows u64''"

definition msg_launch_threads :: "u64 \<Rightarrow> string" where
  "msg_launch_threads threads = ''launch: threads-per-block '' @ show_u64 threads
     @ '' exceeds MAX_THREADS_PER_BLOCK=1024''"

definition msg_launch_grid_large :: "launch_dims \<Rightarrow> string" where
  "msg_launch_grid_large d = ''launch: grid dim exceeds MAX_GRID_DIM=2147483647 ''
     @ show_dims (grid_x d) (grid_y d) (grid_z d)"

definition msg_launch_argv :: "abi_error \<Rightarrow> i32 \<Rightarrow> string" where
  "msg_launch_argv e args_len = ''launch: kernel argv parse failed ('' @ abi_error_name e @ ''); args_len=''
     @ show_i32 args_len"

definition msg_launch_bind :: "string \<Rightarrow> string" where
  "msg_launch_bind e = ''launch: CUDA context bind failed: '' @ e"

definition msg_launch_no_module :: string where
  "msg_launch_no_module = ''launch: kernel entry has no compiled module''"

definition msg_launch_function :: "string \<Rightarrow> string \<Rightarrow> string" where
  "msg_launch_function symbol e = ''launch: get_function('' @ symbol @ '') failed: '' @ e"

definition msg_launch_stream :: "string \<Rightarrow> string" where
  "msg_launch_stream e = ''launch: Stream::new failed: '' @ e"

definition msg_launch_event_new :: "string \<Rightarrow> string" where
  "msg_launch_event_new e = ''launch: Event::new failed: '' @ e"

definition msg_launch_event_record :: "string \<Rightarrow> string" where
  "msg_launch_event_record e = ''launch: event.record failed: '' @ e"

definition msg_launch_unmanaged :: "cuda_driver \<Rightarrow> lowered_arg \<Rightarrow> string" where
  "msg_launch_unmanaged drv a = ''launch: kernel pointer argument is not GPU-addressable ''
     @ ''(cuPointerGetAttribute IS_MANAGED -> ''
     @ (case unmanaged drv (host_ptr a) of None \<Rightarrow> [] | Some t \<Rightarrow> t) @ unmanaged_advice"

definition msg_launch_status :: "string \<Rightarrow> lowered_arg list \<Rightarrow> string" where
  "msg_launch_status st args = ''launch: cuLaunchKernel failed with status '' @ st @ ''; param_count=''
     @ show_nat (length args)"

definition msg_launch_no_cuda :: "lowered_arg list \<Rightarrow> string" where
  "msg_launch_no_cuda args = ''launch: CUDA not available on this host (argv parsed: '' @ show_nat (length args)
     @ '' args)''"

definition msg_launch_wait :: "string \<Rightarrow> string" where
  "msg_launch_wait e = ''launch: '' @ e"

definition msg_sync_bind :: "string \<Rightarrow> string" where
  "msg_sync_bind e = ''sync: CUDA context bind failed: '' @ e"

definition msg_sync_failed :: "string \<Rightarrow> string" where
  "msg_sync_failed e = ''sync: CurrentContext::synchronize failed: '' @ e"

end
