(* ===== verification/Gpu_Host.thy ===== *)
theory Gpu_Host
  imports Gpu_Messages
begin

text \<open>
  The host functions a guest calls, \<^verbatim>\<open>crates/tensor-wasm-wasi-gpu/src/host.rs\<close>: error
  recording, the pointer and length checks, device memory, PTX loading, launch validation, the
  launch itself, and the wire entry points with their capability gate.

  A call is a function on the host state of one instance. The caller's exported linear memory
  is part of that state (\<open>None\<close> when the module exports none), and so is the process-wide device
  budget. The CUDA driver is a parameter: \<open>None\<close> is a build without the \<open>cuda\<close> feature, \<open>Some drv\<close>
  gives the outcome of each driver call, and the calls made are logged in the state in order.
  Wire integers are words read with \<open>sint\<close> where the source has \<open>i32\<close> or \<open>i64\<close>.
\<close>

definition log_call :: "driver_call \<Rightarrow> host_state \<Rightarrow> host_state" where
  "log_call c h = h\<lparr>driver_log := driver_log h @ [c]\<rparr>"

section \<open>The context of an instance\<close>

text \<open>\<open>raw\<close> seeds the kernel ids; the budget and the memory are those the new context finds.\<close>

definition wasi_cuda_context_new :: "instance_id \<Rightarrow> u64 \<Rightarrow> device_budget \<Rightarrow> bytes option \<Rightarrow> host_state" where
  "wasi_cuda_context_new i raw b mem =
     \<lparr>inst = i, registry = kernel_registry_new raw, device = (b, device_registry_new), guest_memory = mem,
      last_error = None, last_lowered_args = [], kernels_launched = 0, back_pressure_rejections = 0,
      wasi_cuda_enabled = False, driver_log = []\<rparr>"

definition enable_wasi_cuda :: "host_state \<Rightarrow> host_state" where
  "enable_wasi_cuda h = h\<lparr>wasi_cuda_enabled := True\<rparr>"

definition disable_wasi_cuda :: "host_state \<Rightarrow> host_state" where
  "disable_wasi_cuda h = h\<lparr>wasi_cuda_enabled := False, last_error := None\<rparr>"

record instance_metrics =
  m_kernels_launched :: u64
  m_bytes_pinned :: u64
  m_back_pressure_rejections :: u64
  m_yield_count :: u32
  m_device_bytes_allocated :: u64

definition metrics_snapshot :: "host_state \<Rightarrow> instance_metrics" where
  "metrics_snapshot h =
     \<lparr>m_kernels_launched = kernels_launched h, m_bytes_pinned = total_ptx_bytes (registry h),
      m_back_pressure_rejections = back_pressure_rejections h, m_yield_count = 0,
      m_device_bytes_allocated = total_device_bytes (snd (device h))\<rparr>"

definition last_lowered_args_snapshot :: "host_state \<Rightarrow> lowered_arg_snapshot list" where
  "last_lowered_args_snapshot h = map snapshot_of (last_lowered_args h)"

section \<open>Error recording\<close>

definition MAX_RECORDED_ERROR_BYTES :: nat where
  "MAX_RECORDED_ERROR_BYTES = 512"

definition ELLIPSIS :: bytes where
  "ELLIPSIS = [0xE2, 0x80, 0xA6]"

definition truncate_message :: "bytes \<Rightarrow> bytes" where
  "truncate_message msg =
     (if length msg > MAX_RECORDED_ERROR_BYTES
      then take (floor_boundary msg MAX_RECORDED_ERROR_BYTES) msg @ ELLIPSIS
      else msg)"

text \<open>A HOL string is a list of bytes; the messages are their UTF-8 bytes.\<close>

definition utf8 :: "string \<Rightarrow> bytes" where
  "utf8 s = map of_char s"

definition record_error :: "string \<Rightarrow> host_state \<Rightarrow> host_state" where
  "record_error msg h = h\<lparr>last_error := Some (truncate_message (utf8 msg))\<rparr>"

definition fail :: "abi_error \<Rightarrow> string \<Rightarrow> host_state \<Rightarrow> host_state \<times> (abi_error, 'a) result" where
  "fail e msg h = (record_error msg h, Err e)"

section \<open>Pointers and lengths from the wire\<close>

definition join_u64 :: "i32 \<Rightarrow> i32 \<Rightarrow> u64" where
  "join_u64 lo hi = push_bit 32 (ucast hi) OR ucast lo"

definition checked_nonneg_len :: "i32 \<Rightarrow> (abi_error, u32) result" where
  "checked_nonneg_len n = (if sint n < 0 then Err InvalidPointer else Ok n)"

definition read_bytes :: "host_state \<Rightarrow> i32 \<Rightarrow> i32 \<Rightarrow> (abi_error, bytes) result" where
  "read_bytes h ptr n =
     (if sint n < 0 \<or> sint ptr < 0 then Err InvalidPointer
      else case guest_memory h of
             None \<Rightarrow> Err InvalidPointer
           | Some mem \<Rightarrow>
               (case checked_add (ucast ptr :: u64) (ucast n) of
                  None \<Rightarrow> Err InvalidPointer
                | Some stop \<Rightarrow>
                    if unat stop > length mem then Err InvalidPointer
                    else Ok (take (unat n) (drop (unat ptr) mem))))"

definition checked_guest_region :: "host_state \<Rightarrow> i32 \<Rightarrow> u32 \<Rightarrow> (abi_error, nat \<times> nat) result" where
  "checked_guest_region h ptr n =
     (case guest_memory h of
        None \<Rightarrow> Err InvalidPointer
      | Some mem \<Rightarrow>
          (case checked_add (ucast ptr :: u64) (ucast n) of
             None \<Rightarrow> Err InvalidPointer
           | Some stop \<Rightarrow>
               if unat stop > length mem then Err InvalidPointer
               else Ok (unat ptr, unat stop)))"

section \<open>Device memory\<close>

definition alloc_impl :: "cuda_driver option \<Rightarrow> u64 \<Rightarrow> host_state \<Rightarrow> host_state \<times> (abi_error, u64) result" where
  "alloc_impl cuda n h =
     (if n = 0 then fail InvalidArgs msg_alloc_zero h
      else if n > MAX_DEVICE_ALLOC_BYTES then
        fail QuotaExceeded (msg_alloc_too_large n) h
      else case cuda of
        None \<Rightarrow>
          (case insert_buffer (device h) \<lparr>mem_owner = inst h, mem_size = n, device_ptr = 0\<rparr> of
             (d, Inl e) \<Rightarrow> (h\<lparr>device := d\<rparr>, Err e)
           | (d, Inr _) \<Rightarrow>
               fail NotAvailable (msg_alloc_no_cuda n) (h\<lparr>device := d\<rparr>))
      | Some drv \<Rightarrow>
          (case bind_context drv of
             Some e \<Rightarrow> fail LaunchFailed (msg_alloc_bind e) h
           | None \<Rightarrow>
               (case cu_mem_alloc drv n of
                  Inl st \<Rightarrow> fail LaunchFailed (msg_alloc_status st) h
                | Inr p \<Rightarrow>
                    (case insert_buffer (device h) \<lparr>mem_owner = inst h, mem_size = n, device_ptr = p\<rparr> of
                       (d, Inl e) \<Rightarrow> (log_call (CuMemFree p) (log_call (CuMemAlloc p n) (h\<lparr>device := d\<rparr>)), Err e)
                     | (d, Inr k) \<Rightarrow> (log_call (CuMemAlloc p n) (h\<lparr>device := d\<rparr>), Ok k)))))"

definition free_impl :: "cuda_driver option \<Rightarrow> u64 \<Rightarrow> host_state \<Rightarrow> host_state \<times> (abi_error, unit) result" where
  "free_impl cuda handle h =
     (case free_buffer (device h) handle (inst h) of
        (d, Inl e) \<Rightarrow> fail e (msg_free_handle handle e) (h\<lparr>device := d\<rparr>)
      | (d, Inr entry) \<Rightarrow>
          (case cuda of
             None \<Rightarrow> (h\<lparr>device := d\<rparr>, Ok ())
           | Some drv \<Rightarrow>
               (case bind_context drv of
                  Some e \<Rightarrow> (record_error (msg_free_bind e) (h\<lparr>device := d\<rparr>), Ok ())
                | None \<Rightarrow>
                    let h' = log_call (CuMemFree (device_ptr entry)) (h\<lparr>device := d\<rparr>)
                    in (case cu_mem_free drv (device_ptr entry) of
                          None \<Rightarrow> (h', Ok ())
                        | Some st \<Rightarrow> (record_error (msg_free_status st) h', Ok ())))))"

definition memcpy_h2d_impl ::
    "cuda_driver option \<Rightarrow> u64 \<Rightarrow> i32 \<Rightarrow> i32 \<Rightarrow> host_state \<Rightarrow> host_state \<times> (abi_error, unit) result" where
  "memcpy_h2d_impl cuda handle src_ptr n h =
     (case checked_nonneg_len n of
        Inl e \<Rightarrow> fail e (msg_memcpy_h2d_negative_len n) h
      | Inr len_u32 \<Rightarrow>
     (case lookup_buffer (device h) handle (inst h) of
        Inl e \<Rightarrow> fail e (msg_memcpy_h2d_handle handle e) h
      | Inr dev \<Rightarrow>
     (if ucast len_u32 > mem_size dev then
        fail InvalidArgs (msg_memcpy_h2d_len len_u32 dev) h
      else
     (case checked_guest_region h src_ptr len_u32 of
        Inl e \<Rightarrow> fail e (msg_memcpy_h2d_region src_ptr len_u32) h
      | Inr (start, stop) \<Rightarrow>
     (case cuda of
        None \<Rightarrow> fail NotAvailable msg_memcpy_h2d_no_cuda h
      | Some drv \<Rightarrow>
     (case bind_context drv of
        Some e \<Rightarrow> fail LaunchFailed (msg_memcpy_h2d_bind e) h
      | None \<Rightarrow>
     (case guest_memory h of
        None \<Rightarrow> (h, Err InvalidPointer)
      | Some mem \<Rightarrow>
          let src = take (stop - start) (drop start mem);
              h' = log_call (CuMemcpyHtoD (device_ptr dev) src) h
          in (case cu_memcpy_htod drv (device_ptr dev) src of
                Some st \<Rightarrow> fail LaunchFailed (msg_memcpy_h2d_status st) h'
              | None \<Rightarrow> (h', Ok ())))))))))"

definition write_memory :: "nat \<Rightarrow> bytes \<Rightarrow> bytes \<Rightarrow> bytes" where
  "write_memory start bs mem = take start mem @ bs @ drop (start + length bs) mem"

definition memcpy_d2h_impl ::
    "cuda_driver option \<Rightarrow> i32 \<Rightarrow> u64 \<Rightarrow> i32 \<Rightarrow> host_state \<Rightarrow> host_state \<times> (abi_error, unit) result" where
  "memcpy_d2h_impl cuda dst_ptr handle n h =
     (case checked_nonneg_len n of
        Inl e \<Rightarrow> fail e (msg_memcpy_d2h_negative_len n) h
      | Inr len_u32 \<Rightarrow>
     (case lookup_buffer (device h) handle (inst h) of
        Inl e \<Rightarrow> fail e (msg_memcpy_d2h_handle handle e) h
      | Inr dev \<Rightarrow>
     (if ucast len_u32 > mem_size dev then
        fail InvalidArgs (msg_memcpy_d2h_len len_u32 dev) h
      else
     (case checked_guest_region h dst_ptr len_u32 of
        Inl e \<Rightarrow> fail e (msg_memcpy_d2h_region dst_ptr len_u32) h
      | Inr (start, stop) \<Rightarrow>
     (case cuda of
        None \<Rightarrow> fail NotAvailable msg_memcpy_d2h_no_cuda h
      | Some drv \<Rightarrow>
     (case bind_context drv of
        Some e \<Rightarrow> fail LaunchFailed (msg_memcpy_d2h_bind e) h
      | None \<Rightarrow>
     (case guest_memory h of
        None \<Rightarrow> (h, Err InvalidPointer)
      | Some mem \<Rightarrow>
          let h' = log_call (CuMemcpyDtoH (device_ptr dev) (unat len_u32)) h
          in (case cu_memcpy_dtoh drv (device_ptr dev) (unat len_u32) of
                Inl st \<Rightarrow> fail LaunchFailed (msg_memcpy_d2h_status st) h'
              | Inr data \<Rightarrow>
                  (h'\<lparr>guest_memory := Some (write_memory start (map data [0..<stop - start]) mem)\<rparr>, Ok ())))))))))"

section \<open>Loading PTX\<close>

fun contains :: "bytes \<Rightarrow> bytes \<Rightarrow> bool" where
  "contains needle [] = (needle = [])"
| "contains needle (b # bs) = (take (length needle) (b # bs) = needle \<or> contains needle bs)"

fun missing_directive :: "bytes \<Rightarrow> string list \<Rightarrow> string option" where
  "missing_directive ptx [] = None"
| "missing_directive ptx (d # ds) = (if contains (utf8 d) ptx then missing_directive ptx ds else Some d)"

definition add_kernel :: "bool \<Rightarrow> bytes \<Rightarrow> bytes \<Rightarrow> host_state \<Rightarrow> host_state \<times> (abi_error, kernel_id) result" where
  "add_kernel compiled symbol ptx h =
     (case register_kernel (registry h)
             \<lparr>kernel_owner = inst h, kernel_symbol = map (char_of \<circ> unat) symbol, ptx_bytes_len = of_nat (length ptx), has_module = compiled\<rparr> of
        (r, out) \<Rightarrow> (h\<lparr>registry := r\<rparr>, out))"

definition load_ptx_impl ::
    "cuda_driver option \<Rightarrow> i32 \<Rightarrow> i32 \<Rightarrow> i32 \<Rightarrow> i32 \<Rightarrow> host_state \<Rightarrow> host_state \<times> (abi_error, kernel_id) result" where
  "load_ptx_impl cuda ptx_ptr ptx_len entry_ptr entry_len h =
     (case checked_nonneg_len ptx_len of
        Inl e \<Rightarrow> fail e (msg_ptx_negative ptx_len) h
      | Inr _ \<Rightarrow>
     (if unat ptx_len > MAX_PTX_BYTES then
        fail QuotaExceeded (msg_ptx_too_large ptx_len) h
      else if sint entry_len < 0 \<or> unat entry_len > MAX_ENTRY_NAME_BYTES then
        fail QuotaExceeded (msg_ptx_entry_len entry_len) h
      else
     (case read_bytes h ptx_ptr ptx_len of
        Inl e \<Rightarrow> (h, Err e)
      | Inr ptx \<Rightarrow>
     (case read_bytes h entry_ptr entry_len of
        Inl e \<Rightarrow> (h, Err e)
      | Inr symbol \<Rightarrow>
     (if \<not> utf8_valid symbol then fail InvalidArgs msg_ptx_entry_utf8 h
      else
     (case cuda of
        None \<Rightarrow>
          if ptx = [] then fail MalformedPtx msg_ptx_empty h
          else if \<not> utf8_valid ptx then fail MalformedPtx msg_ptx_utf8 h
          else (case missing_directive ptx [''.version'', ''.target'', ''.entry''] of
                  Some d \<Rightarrow> fail MalformedPtx (msg_ptx_directive d) h
                | None \<Rightarrow> add_kernel False symbol ptx h)
      | Some drv \<Rightarrow>
          if \<not> utf8_valid ptx then fail MalformedPtx msg_ptx_utf8 h
          else if 0 \<in> set ptx then fail MalformedPtx msg_ptx_nul h
          else (case bind_context drv of
                  Some e \<Rightarrow> fail NotAvailable (msg_ptx_bind e) h
                | None \<Rightarrow>
                    (case module_from_ptx drv ptx of
                       Some e \<Rightarrow> fail MalformedPtx (msg_ptx_compile e) h
                     | None \<Rightarrow> add_kernel True symbol ptx h))))))))"

section \<open>Launching\<close>

text \<open>The argument region, checked only when there are arguments.\<close>

definition check_args_region :: "i32 \<Rightarrow> i32 \<Rightarrow> host_state \<Rightarrow> host_state \<times> (abi_error, unit) result" where
  "check_args_region args_ptr args_len h =
     (if sint args_len > 0 then
        (case guest_memory h of
           None \<Rightarrow> fail InvalidPointer msg_launch_no_memory h
         | Some mem \<Rightarrow>
             (case checked_add (ucast args_ptr :: u64) (ucast args_len) of
                None \<Rightarrow> fail InvalidPointer (msg_launch_args_overflow args_ptr args_len) h
              | Some stop \<Rightarrow>
                  if unat stop > length mem then
                    fail InvalidPointer (msg_launch_args_region args_ptr stop mem) h
                  else (h, Ok ())))
      else (h, Ok ()))"

definition validate_launch_args ::
    "i64 \<Rightarrow> launch_dims \<Rightarrow> i32 \<Rightarrow> i32 \<Rightarrow> host_state \<Rightarrow> host_state \<times> (abi_error, kernel_id) result" where
  "validate_launch_args kernel_id d args_ptr args_len h =
     (if \<not> is_ok (checked_nonneg_len args_len) \<or> sint args_ptr < 0 then
        fail InvalidPointer (msg_launch_args_negative args_ptr args_len) h
      else
     (case check_args_region args_ptr args_len h of
        (h', Inl e) \<Rightarrow> (h', Err e)
      | (h', Inr _) \<Rightarrow>
      if sint kernel_id < 0 then (h', Err InvalidKernel)
      else if sint (block_x d) \<le> 0 \<or> sint (block_y d) \<le> 0 \<or> sint (block_z d) \<le> 0 then
        fail InvalidDimensions (msg_launch_block_small d) h'
      else if sint (grid_x d) \<le> 0 \<or> sint (grid_y d) \<le> 0 \<or> sint (grid_z d) \<le> 0 then
        fail InvalidDimensions (msg_launch_grid_small d) h'
      else if sint (shared_mem d) < 0 then
        fail InvalidDimensions (msg_launch_shared_negative d) h'
      else if sint (shared_mem d) > MAX_DYNAMIC_SHARED_MEM_BYTES then
        fail InvalidDimensions (msg_launch_shared_large d) h'
      else if unat (block_x d) > MAX_BLOCK_DIM \<or> unat (block_y d) > MAX_BLOCK_DIM \<or> unat (block_z d) > MAX_BLOCK_DIM then
        fail InvalidDimensions (msg_launch_block_large d) h'
      else
     (case Option.bind (checked_mul (ucast (block_x d) :: u64) (ucast (block_y d))) (\<lambda>v. checked_mul v (ucast (block_z d))) of
        None \<Rightarrow> fail InvalidDimensions msg_launch_block_product h'
      | Some threads \<Rightarrow>
          if unat threads > MAX_THREADS_PER_BLOCK then
            fail InvalidDimensions (msg_launch_threads threads) h'
          else if unat (grid_x d) > MAX_GRID_DIM \<or> unat (grid_y d) > MAX_GRID_DIM \<or> unat (grid_z d) > MAX_GRID_DIM then
            fail InvalidDimensions (msg_launch_grid_large d) h'
          else (h', Ok kernel_id))))"

text \<open>
  \<open>ResolvedArgv::resolve\<close>. Slicing the memory panics out of range, which is the result
  \<open>None\<close>; \<open>base\<close> is the address of the caller's memory at that moment.
\<close>

definition resolve_argv ::
    "u64 \<Rightarrow> i32 \<Rightarrow> i32 \<Rightarrow> host_state \<Rightarrow> (host_state \<times> (abi_error, lowered_arg list) result) option" where
  "resolve_argv base args_ptr args_len h =
     (if sint args_len \<le> 0 then Some (h, Ok [])
      else case guest_memory h of
             None \<Rightarrow> Some (h, Err InvalidPointer)
           | Some mem \<Rightarrow>
               let start = unat args_ptr; stop = start + unat args_len
               in if stop > length mem then None
                  else case parse_argv base (of_nat (length mem)) (take (stop - start) (drop start mem)) of
                         Inr args \<Rightarrow> Some (h, Ok args)
                       | Inl e \<Rightarrow> Some (fail e (msg_launch_argv e args_len) h))"

text \<open>
  The CUDA dispatch. A pointer argument the driver does not know as managed memory stops the
  launch before \<open>cuLaunchKernel\<close>.
\<close>

definition is_ptr :: "lowered_arg \<Rightarrow> bool" where
  "is_ptr a = (case a of Ptr _ _ _ \<Rightarrow> True | _ \<Rightarrow> False)"

definition dims_list :: "launch_dims \<Rightarrow> u32 list" where
  "dims_list d = [grid_x d, grid_y d, grid_z d, block_x d, block_y d, block_z d]"

text \<open>
  The kernel runs from the accepted \<open>cuLaunchKernel\<close> on; its writes to the guest's memory are put
  there, also on the paths that return without waiting for it.
\<close>

definition resolve_and_launch_cuda ::
    "cuda_driver \<Rightarrow> kernel_entry \<Rightarrow> launch_dims \<Rightarrow> lowered_arg list \<Rightarrow> host_state
     \<Rightarrow> host_state \<times> (abi_error, unit) result" where
  "resolve_and_launch_cuda drv k d args h =
     (case bind_context drv of
        Some e \<Rightarrow> fail LaunchFailed (msg_launch_bind e) h
      | None \<Rightarrow>
     (if \<not> has_module k then fail InvalidKernel msg_launch_no_module h
      else
     (case get_function drv (kernel_symbol k) of
        Some e \<Rightarrow> fail LaunchFailed (msg_launch_function (kernel_symbol k) e) h
      | None \<Rightarrow>
     (case stream_new drv of
        Some e \<Rightarrow> fail LaunchFailed (msg_launch_stream e) h
      | None \<Rightarrow>
     (case List.find (\<lambda>a. is_ptr a \<and> unmanaged drv (host_ptr a) \<noteq> None) args of
        Some a \<Rightarrow> fail LaunchFailed (msg_launch_unmanaged drv a) h
      | None \<Rightarrow>
        let h' = log_call (CuLaunchKernel (kernel_symbol k) (dims_list d) (shared_mem d) args) h
        in (case cu_launch_kernel drv args of
              Some st \<Rightarrow> fail LaunchFailed (msg_launch_status st args) h'
            | None \<Rightarrow>
                let h'' = h'\<lparr>guest_memory := map_option (kernel_effect drv (kernel_symbol k) args) (guest_memory h')\<rparr>
                in (case event_new drv of
                   Some e \<Rightarrow> fail LaunchFailed (msg_launch_event_new e) h''
                 | None \<Rightarrow>
                     (case event_record drv of
                        Some e \<Rightarrow> fail LaunchFailed (msg_launch_event_record e) h''
                      | None \<Rightarrow> (h'', Ok ())))))))))"

text \<open>
  The launch. \<open>permit\<close> is the outcome of the back-pressure acquisition, and \<open>resume\<close> what the
  embedder did to the guest's memory while the call was suspended there.
\<close>

definition launch_impl ::
    "cuda_driver option \<Rightarrow> (abi_error, unit) result \<Rightarrow> (bytes \<Rightarrow> bytes) \<Rightarrow> u64
     \<Rightarrow> i64 \<Rightarrow> launch_dims \<Rightarrow> i32 \<Rightarrow> i32 \<Rightarrow> host_state \<Rightarrow> (host_state \<times> (abi_error, unit) result) option" where
  "launch_impl cuda permit resume base kernel_id d args_ptr args_len h =
     (case validate_launch_args kernel_id d args_ptr args_len h of
        (h1, Inl e) \<Rightarrow> Some (h1, Err e)
      | (h1, Inr kid) \<Rightarrow>
     (case permit of
        Inl e \<Rightarrow> Some (h1\<lparr>back_pressure_rejections := back_pressure_rejections h1 + 1\<rparr>, Err e)
      | Inr _ \<Rightarrow>
     (case resolve_argv base args_ptr args_len (h1\<lparr>guest_memory := map_option resume (guest_memory h1)\<rparr>) of
        None \<Rightarrow> None
      | Some (h2, Inl e) \<Rightarrow> Some (h2, Err e)
      | Some (h2, Inr args) \<Rightarrow>
     (let h3 = h2\<lparr>last_lowered_args := args\<rparr>
      in case lookup_kernel (registry h3) kid (inst h3) of
           Inl e \<Rightarrow> Some (h3, Err e)
         | Inr k \<Rightarrow>
             (case cuda of
                None \<Rightarrow> Some (fail NotAvailable (msg_launch_no_cuda args)
                  (h3\<lparr>kernels_launched := kernels_launched h3 + 1\<rparr>))
              | Some drv \<Rightarrow>
                  (case resolve_and_launch_cuda drv k d args h3 of
                     (h4, Inl e) \<Rightarrow> Some (h4, Err e)
                   | (h4, Inr _) \<Rightarrow>
                       (case launch_wait drv of
                          JoinFailed \<Rightarrow> Some (h4, Err Internal)
                        | SyncFailed e \<Rightarrow> Some (fail LaunchFailed (msg_launch_wait e) h4)
                        | Completed \<Rightarrow> Some (h4\<lparr>last_lowered_args := args, kernels_launched := kernels_launched h4 + 1\<rparr>,
                                        Ok ()))))))))"

definition sync_impl :: "cuda_driver option \<Rightarrow> host_state \<Rightarrow> host_state \<times> (abi_error, unit) result" where
  "sync_impl cuda h =
     (case cuda of
        None \<Rightarrow> (h, Ok ())
      | Some drv \<Rightarrow>
          (case bind_context drv of
             Some e \<Rightarrow> fail LaunchFailed (msg_sync_bind e) h
           | None \<Rightarrow>
               (case context_synchronize drv of
                  Some e \<Rightarrow> fail LaunchFailed (msg_sync_failed e) h
                | None \<Rightarrow> (h, Ok ()))))"

section \<open>The wire\<close>

text \<open>The entry points registered with the linker, one constructor each.\<close>

datatype guest_call =
    LoadPtx i32 i32 i32 i32
  | Launch i64 launch_dims i32 i32
  | Sync
  | Alloc i32 i32
  | Free i32 i32
  | MemcpyH2D i32 i32 i32 i32
  | MemcpyD2H i32 i32 i32 i32
  | LastErrorLen
  | LastErrorCopy i32 i32

definition status :: "host_state \<times> (abi_error, unit) result \<Rightarrow> host_state \<times> int" where
  "status = (\<lambda>(h, r). (h, case r of Inl e \<Rightarrow> abi_error_code e | Inr _ \<Rightarrow> 0))"

definition handle_status :: "host_state \<times> (abi_error, u64) result \<Rightarrow> host_state \<times> int" where
  "handle_status = (\<lambda>(h, r). (h, case r of Inl e \<Rightarrow> abi_error_code e | Inr k \<Rightarrow> sint k))"

definition last_error_len :: "host_state \<Rightarrow> int" where
  "last_error_len h = (case last_error h of None \<Rightarrow> 0 | Some s \<Rightarrow> sint (of_nat (length s) :: i32))"

definition last_error_copy :: "i32 \<Rightarrow> i32 \<Rightarrow> host_state \<Rightarrow> host_state \<times> int" where
  "last_error_copy dst_ptr dst_len h =
     (if sint dst_ptr < 0 \<or> sint dst_len < 0 then (h, abi_error_code InvalidPointer)
      else if dst_len = 0 then (h, 0)
      else case last_error h of
             None \<Rightarrow> (h, 0)
           | Some msg \<Rightarrow>
               let to_copy = min (length msg) (unat dst_len)
               in (case guest_memory h of
                     None \<Rightarrow> (h, abi_error_code InvalidPointer)
                   | Some mem \<Rightarrow>
                       (case checked_add (ucast dst_ptr :: u64) (of_nat to_copy) of
                          None \<Rightarrow> (h, abi_error_code InvalidPointer)
                        | Some stop \<Rightarrow>
                            if unat stop > length mem then (h, abi_error_code InvalidPointer)
                            else (h\<lparr>guest_memory := Some (write_memory (unat dst_ptr) (take to_copy msg) mem)\<rparr>,
                                  sint (of_nat to_copy :: i32)))))"

text \<open>
  The gate and the dispatch. \<open>env\<close> is what a launch meets: the back-pressure outcome, the change
  of the memory while suspended, and the address of the memory.
\<close>

record launch_env =
  permit :: "(abi_error, unit) result"
  resume :: "bytes \<Rightarrow> bytes"
  memory_base :: u64

fun host_call :: "cuda_driver option \<Rightarrow> launch_env \<Rightarrow> guest_call \<Rightarrow> host_state \<Rightarrow> (host_state \<times> int) option" where
  "host_call cuda env (LoadPtx pp pl ep el) h =
     (if \<not> wasi_cuda_enabled h then Some (h, abi_error_code NotAvailable)
      else Some (handle_status (load_ptx_impl cuda pp pl ep el h)))"
| "host_call cuda env (Launch k d ap al) h =
     (if \<not> wasi_cuda_enabled h then Some (h, abi_error_code NotAvailable)
      else map_option status (launch_impl cuda (permit env) (resume env) (memory_base env) k d ap al h))"
| "host_call cuda env Sync h =
     (if \<not> wasi_cuda_enabled h then Some (h, abi_error_code NotAvailable)
      else Some (status (sync_impl cuda h)))"
| "host_call cuda env (Alloc lo hi) h =
     (if \<not> wasi_cuda_enabled h then Some (h, abi_error_code NotAvailable)
      else Some (handle_status (alloc_impl cuda (join_u64 lo hi) h)))"
| "host_call cuda env (Free lo hi) h =
     (if \<not> wasi_cuda_enabled h then Some (h, abi_error_code NotAvailable)
      else Some (status (free_impl cuda (join_u64 lo hi) h)))"
| "host_call cuda env (MemcpyH2D lo hi src n) h =
     (if \<not> wasi_cuda_enabled h then Some (h, abi_error_code NotAvailable)
      else Some (status (memcpy_h2d_impl cuda (join_u64 lo hi) src n h)))"
| "host_call cuda env (MemcpyD2H dst lo hi n) h =
     (if \<not> wasi_cuda_enabled h then Some (h, abi_error_code NotAvailable)
      else Some (status (memcpy_d2h_impl cuda dst (join_u64 lo hi) n h)))"
| "host_call cuda env LastErrorLen h =
     (if \<not> wasi_cuda_enabled h then Some (h, abi_error_code NotAvailable)
      else Some (h, last_error_len h))"
| "host_call cuda env (LastErrorCopy dst n) h =
     (if \<not> wasi_cuda_enabled h then Some (h, abi_error_code NotAvailable)
      else Some (last_error_copy dst n h))"

end
