(* ===== verification/Gpu_Host_Safety.thy ===== *)
theory Gpu_Host_Safety
  imports Gpu_Host
begin

text \<open>
  Properties of the host functions of the theory \<open>Gpu_Host\<close>, for every sequence of calls a guest
  can make with whatever arguments: what reaches the CUDA driver, what the host writes into the
  guest's memory, what a launch accepts, and what the error channel holds.
\<close>

declare map_of_eq_Some_iff [simp del] Some_eq_map_of_iff [simp del]
declare missing_directive.simps [simp del] utf8_valid.simps [simp del] contains.simps [simp del]

section \<open>The driver's view\<close>

text \<open>
  The live device allocations with their sizes after a sequence of driver calls; \<open>None\<close> when a
  call uses a pointer that is not live, copies past the end of an allocation, or is handed a
  pointer that is already live.
\<close>

fun drv_step :: "(u64 \<rightharpoonup> nat) \<Rightarrow> driver_call \<Rightarrow> (u64 \<rightharpoonup> nat) option" where
  "drv_step m (CuMemAlloc p n) = (if m p = None then Some (m(p \<mapsto> unat n)) else None)"
| "drv_step m (CuMemFree p) = (if m p = None then None else Some (m(p := None)))"
| "drv_step m (CuMemcpyHtoD p bs) = (case m p of None \<Rightarrow> None | Some n \<Rightarrow> if length bs \<le> n then Some m else None)"
| "drv_step m (CuMemcpyDtoH p k) = (case m p of None \<Rightarrow> None | Some n \<Rightarrow> if k \<le> n then Some m else None)"
| "drv_step m (CuLaunchKernel s d sh args) = Some m"

primrec drv_run :: "(u64 \<rightharpoonup> nat) \<Rightarrow> driver_call list \<Rightarrow> (u64 \<rightharpoonup> nat) option" where
  "drv_run m [] = Some m"
| "drv_run m (c # cs) = Option.bind (drv_step m c) (\<lambda>m'. drv_run m' cs)"

lemma drv_run_append: "drv_run m (xs @ ys) = Option.bind (drv_run m xs) (\<lambda>m'. drv_run m' ys)"
  by (induction xs arbitrary: m) (auto split: Option.bind_splits)

lemma drv_run_snoc: "drv_run m cs = Some m' \<Longrightarrow> drv_run m (cs @ [c]) = drv_step m' c"
  by (simp add: drv_run_append)

text \<open>Every buffer of the registry is a live allocation of its size, and no two share one.\<close>

definition backed :: "(u64 \<rightharpoonup> nat) \<Rightarrow> device_registry \<Rightarrow> bool" where
  "backed m r \<longleftrightarrow>
     (\<forall>i e. map_of (buffers r) i = Some e \<longrightarrow> m (device_ptr e) = Some (unat (mem_size e)))
   \<and> (\<forall>i j e f. map_of (buffers r) i = Some e \<and> map_of (buffers r) j = Some f
        \<and> device_ptr e = device_ptr f \<longrightarrow> i = j)"

definition host_ok :: "host_state \<Rightarrow> bool" where
  "host_ok h \<longleftrightarrow> reg_wf (snd (device h))
     \<and> (\<exists>m. drv_run Map.empty (driver_log h) = Some m \<and> backed m (snd (device h)))"

text \<open>What the driver promises of \<open>cuMemAlloc\<close>: the pointer it returns is not in use.\<close>

definition fresh_driver :: "cuda_driver \<Rightarrow> host_state \<Rightarrow> bool" where
  "fresh_driver drv h \<longleftrightarrow>
     (\<forall>n p m. cu_mem_alloc drv n = Inr p \<and> drv_run Map.empty (driver_log h) = Some m \<longrightarrow> m p = None)"

text \<open>
  A predicate on the outcome of a handler, and the rules that push it through the handler's
  branches; \<open>keeps\<close> is a relation between the states before and after the call.
\<close>

definition holds :: "('a \<Rightarrow> bool) \<Rightarrow> 'a \<Rightarrow> bool" where
  "holds P out \<longleftrightarrow> P out"

lemma holds_if: "(c \<Longrightarrow> holds P a) \<Longrightarrow> (\<not> c \<Longrightarrow> holds P b) \<Longrightarrow> holds P (if c then a else b)"
  by simp

lemma holds_sum:
  "(\<And>x. s = Inl x \<Longrightarrow> holds P (f x)) \<Longrightarrow> (\<And>y. s = Inr y \<Longrightarrow> holds P (g y)) \<Longrightarrow> holds P (case_sum f g s)"
  by (cases s) simp_all

lemma holds_option:
  "(s = None \<Longrightarrow> holds P a) \<Longrightarrow> (\<And>y. s = Some y \<Longrightarrow> holds P (g y)) \<Longrightarrow> holds P (case_option a g s)"
  by (cases s) simp_all

lemma holds_prod: "(\<And>x y. s = (x, y) \<Longrightarrow> holds P (f x y)) \<Longrightarrow> holds P (case_prod f s)"
  by (cases s) simp

lemma holds_Let: "holds P (f x) \<Longrightarrow> holds P (Let x f)"
  by simp

lemmas holds_branches = holds_if holds_sum holds_option holds_prod holds_Let

lemma holds_pair [simp]: "holds P (h', r) = P (h', r)"
  by (simp add: holds_def)

lemma holds_fail [simp]: "holds P (fail e msg h') = P (record_error msg h', Err e)"
  by (simp add: holds_def fail_def)

abbreviation keeps :: "(host_state \<Rightarrow> host_state \<Rightarrow> bool) \<Rightarrow> host_state \<Rightarrow> host_state \<times> 'r \<Rightarrow> bool" where
  "keeps R h \<equiv> holds (\<lambda>out. R h (fst out))"

text \<open>Handlers that leave the device table and the driver alone.\<close>

definition same_device :: "host_state \<Rightarrow> host_state \<Rightarrow> bool" where
  "same_device h h' \<longleftrightarrow> device h' = device h \<and> driver_log h' = driver_log h"

lemma same_device_refl [simp]: "same_device h h"
  by (simp add: same_device_def)

lemma same_device_trans: "same_device a b \<Longrightarrow> same_device b c \<Longrightarrow> same_device a c"
  by (simp add: same_device_def)

lemma host_ok_same: "same_device h h' \<Longrightarrow> host_ok h' = host_ok h"
  by (simp add: same_device_def host_ok_def)

lemma same_device_error [simp]: "same_device h (record_error msg h') = same_device h h'"
  by (simp add: same_device_def record_error_def)

lemma keeps_add_kernel [simp]: "keeps same_device h (add_kernel c symbol ptx h)"
  by (simp add: add_kernel_def same_device_def holds_def split: prod.split)

lemma keeps_load_ptx: "keeps same_device h (load_ptx_impl cuda pp pl ep el h)"
  unfolding load_ptx_impl_def by (intro holds_branches) simp_all

lemma keeps_check_args: "keeps same_device h (check_args_region p n h)"
  unfolding check_args_region_def by (intro holds_branches) simp_all

lemma keeps_validate: "keeps same_device h (validate_launch_args k d p n h)"
proof -
  have "same_device h h'" if "check_args_region p n h = (h', r)" for h' r
    using keeps_check_args [of h p n] that by simp
  then show ?thesis
    unfolding validate_launch_args_def by (intro holds_branches) simp_all
qed

lemma keeps_resolve: "resolve_argv base p n h = Some (h', r) \<Longrightarrow> same_device h h'"
  by (auto simp: resolve_argv_def Let_def fail_def split: sum.splits option.splits if_splits)

lemma keeps_sync: "keeps same_device h (sync_impl cuda h)"
  unfolding sync_impl_def by (intro holds_branches) simp_all

lemma keeps_copy: "keeps same_device h (last_error_copy p n h)"
  unfolding last_error_copy_def by (intro holds_branches) (simp_all add: same_device_def)

text \<open>Handlers that change the table and the driver together.\<close>

lemma insert_buffer_err:
  "insert_buffer s e = (s', Inl x) \<Longrightarrow>
     buffers (snd s') = buffers (snd s) \<and> next_handle (snd s') = next_handle (snd s)"
  by (auto simp: insert_buffer_def split: prod.splits sum.splits if_splits)

lemma insert_buffer_ok:
  "insert_buffer s e = (s', Inr k) \<Longrightarrow>
     buffers (snd s') = AList.update (next_handle (snd s)) e (buffers (snd s))
   \<and> next_handle (snd s') = next_handle (snd s) + 1"
  by (auto simp: insert_buffer_def split: prod.splits sum.splits if_splits)

lemma reg_wf_cong: "buffers r' = buffers r \<Longrightarrow> next_handle r' = next_handle r \<Longrightarrow> reg_wf r' = reg_wf r"
  by (simp add: reg_wf_def)

lemma backed_cong: "buffers r' = buffers r \<Longrightarrow> backed m r' = backed m r"
  by (simp add: backed_def)

lemma backed_insert:
  assumes "backed m r" and "m p = None" and "device_ptr e = p" and "map_of (buffers r) h = None"
    and "buffers r' = AList.update h e (buffers r)"
  shows "backed (m(p \<mapsto> unat (mem_size e))) r'"
  using assms by (fastforce simp: backed_def update_conv' split: if_splits)

lemma backed_delete:
  assumes "backed m r" and "map_of (buffers r) h = Some e"
    and "buffers r' = AList.delete h (buffers r)"
  shows "backed m r'" and "backed (m(device_ptr e := None)) r'"
  using assms by (auto simp: backed_def delete_conv' split: if_splits)

lemma host_okI:
  "reg_wf (snd (device h)) \<Longrightarrow> drv_run Map.empty (driver_log h) = Some m \<Longrightarrow> backed m (snd (device h)) \<Longrightarrow> host_ok h"
  by (auto simp: host_ok_def)

lemma host_okE:
  assumes "host_ok h"
  obtains m where "reg_wf (snd (device h))" "drv_run Map.empty (driver_log h) = Some m" "backed m (snd (device h))"
  using assms by (auto simp: host_ok_def)

lemma host_ok_error [simp]: "host_ok (record_error msg h) = host_ok h"
  by (simp add: host_ok_def record_error_def)

lemma host_ok_memory [simp]: "host_ok (h\<lparr>guest_memory := mem\<rparr>) = host_ok h"
  by (simp add: host_ok_def)

text \<open>The three ways a handler extends the log.\<close>

lemma host_ok_insert:
  assumes "host_ok h" and "next_handle (snd (device h)) < word_max"
    and "\<And>m. drv_run Map.empty (driver_log h) = Some m \<Longrightarrow> m (device_ptr e) = None"
    and "insert_buffer (device h) e = (d, Inr k)"
  shows "host_ok (log_call (CuMemAlloc (device_ptr e) (mem_size e)) (h\<lparr>device := d\<rparr>))"
proof -
  obtain m where m: "reg_wf (snd (device h))" "drv_run Map.empty (driver_log h) = Some m" "backed m (snd (device h))"
    using host_okE [OF assms(1)] .
  note b = insert_buffer_ok [OF assms(4)]
  have wf: "reg_wf (snd d)"
    using reg_wf_published [OF m(1) assms(2), of e] b by (simp add: reg_wf_def)
  have bk: "backed (m(device_ptr e \<mapsto> unat (mem_size e))) (snd d)"
    by (rule backed_insert [OF m(3) assms(3) [OF m(2)] refl fresh_handle [OF m(1)]]) (simp add: b)
  show ?thesis
    using bk by (intro host_okI) (simp_all add: log_call_def wf drv_run_snoc [OF m(2)] assms(3) [OF m(2)])
qed

lemma host_ok_no_insert:
  assumes "host_ok h" and "\<And>m. drv_run Map.empty (driver_log h) = Some m \<Longrightarrow> m p = None"
    and "insert_buffer (device h) e = (d, Inl x)"
  shows "host_ok (log_call (CuMemFree p) (log_call (CuMemAlloc p n) (h\<lparr>device := d\<rparr>)))"
proof -
  obtain m where m: "reg_wf (snd (device h))" "drv_run Map.empty (driver_log h) = Some m" "backed m (snd (device h))"
    using host_okE [OF assms(1)] .
  note b = insert_buffer_err [OF assms(3)]
  have eq: "m(p := None) = m" using assms(2) [OF m(2)] by (auto simp: fun_eq_iff)
  show ?thesis
    by (rule host_okI [where m = m])
      (simp_all add: log_call_def drv_run_append m(2) assms(2) [OF m(2)] eq
        reg_wf_cong [of "snd d" "snd (device h)"] backed_cong [of "snd d" "snd (device h)"] b m)
qed

lemma free_buffer_ok:
  assumes "free_buffer s h own = (s', Inr e)"
  shows "map_of (buffers (snd s)) h = Some e \<and> buffers (snd s') = AList.delete h (buffers (snd s))
    \<and> next_handle (snd s') = next_handle (snd s)"
  using assms by (auto simp: free_buffer_def lookup_buffer_def split: prod.splits option.splits if_splits)

lemma free_buffer_err: "free_buffer s h own = (s', Inl x) \<Longrightarrow> s' = s"
  by (auto simp: free_buffer_def lookup_buffer_def split: prod.splits option.splits if_splits)

lemma reg_wf_delete:
  assumes "reg_wf r" and "buffers r' = AList.delete h (buffers r)" and "next_handle r' = next_handle r"
  shows "reg_wf r'"
  using assms by (auto simp: reg_wf_def distinct_delete delete_conv' split: if_splits)

lemma host_ok_free:
  assumes "host_ok h" and "free_buffer (device h) i own = (d, Inr e)"
  shows "host_ok (h\<lparr>device := d\<rparr>)" and "host_ok (log_call (CuMemFree (device_ptr e)) (h\<lparr>device := d\<rparr>))"
proof -
  obtain m where m: "reg_wf (snd (device h))" "drv_run Map.empty (driver_log h) = Some m" "backed m (snd (device h))"
    using host_okE [OF assms(1)] .
  note f = free_buffer_ok [OF assms(2)]
  have wf: "reg_wf (snd d)" using reg_wf_delete [OF m(1)] f by blast
  have bk: "backed m (snd d)" "backed (m(device_ptr e := None)) (snd d)"
    using backed_delete [OF m(3)] f by blast+
  have live: "m (device_ptr e) \<noteq> None" using m(3) f by (auto simp: backed_def)
  show "host_ok (h\<lparr>device := d\<rparr>)"
    using bk(1) by (intro host_okI) (simp_all add: wf m(2))
  show "host_ok (log_call (CuMemFree (device_ptr e)) (h\<lparr>device := d\<rparr>))"
    using bk(2) by (intro host_okI) (simp_all add: log_call_def wf drv_run_snoc [OF m(2)] live)
qed

lemma lookup_buffer_ok: "lookup_buffer s h own = Inr e \<Longrightarrow> map_of (buffers (snd s)) h = Some e"
  by (auto simp: lookup_buffer_def split: option.splits if_splits)

lemma host_ok_copy:
  assumes "host_ok h" and "lookup_buffer (device h) i own = Inr e" and "n \<le> unat (mem_size e)"
  shows "length bs = n \<Longrightarrow> host_ok (log_call (CuMemcpyHtoD (device_ptr e) bs) h)"
    and "host_ok (log_call (CuMemcpyDtoH (device_ptr e) n) h)"
proof -
  obtain m where m: "reg_wf (snd (device h))" "drv_run Map.empty (driver_log h) = Some m" "backed m (snd (device h))"
    using host_okE [OF assms(1)] .
  have live: "m (device_ptr e) = Some (unat (mem_size e))"
    using m(3) lookup_buffer_ok [OF assms(2)] by (simp add: backed_def)
  show "length bs = n \<Longrightarrow> host_ok (log_call (CuMemcpyHtoD (device_ptr e) bs) h)"
    and "host_ok (log_call (CuMemcpyDtoH (device_ptr e) n) h)"
    using m assms(3) by (auto intro!: host_okI simp: log_call_def drv_run_snoc [OF m(2)] live)
qed

lemma host_ok_budget [simp]: "snd d = snd (device h) \<Longrightarrow> host_ok (h\<lparr>device := d\<rparr>) = host_ok h"
  by (simp add: host_ok_def)

text \<open>The handlers.\<close>

lemma alloc_host_ok:
  assumes "host_ok h" and "next_handle (snd (device h)) < word_max" and "fresh_driver drv h"
  shows "keeps (\<lambda>_. host_ok) h (alloc_impl (Some drv) n h)"
proof -
  have fresh: "m p = None"
    if "cu_mem_alloc drv n = Inr p" "drv_run Map.empty (driver_log h) = Some m" for p m
    using assms(3) that by (auto simp: fresh_driver_def)
  have ins: "host_ok (log_call (CuMemAlloc p n) (h\<lparr>device := d\<rparr>))"
    if "cu_mem_alloc drv n = Inr p"
      and "insert_buffer (device h) \<lparr>mem_owner = inst h, mem_size = n, device_ptr = p\<rparr> = (d, Inr k)" for p d k
    using host_ok_insert [OF assms(1,2) _ that(2)] fresh [OF that(1)] by simp
  have no: "host_ok (log_call (CuMemFree p) (log_call (CuMemAlloc p n) (h\<lparr>device := d\<rparr>)))"
    if "cu_mem_alloc drv n = Inr p"
      and "insert_buffer (device h) \<lparr>mem_owner = inst h, mem_size = n, device_ptr = p\<rparr> = (d, Inl x)" for p d x
    by (rule host_ok_no_insert [OF assms(1) fresh [OF that(1)] that(2)])
  show ?thesis
    unfolding alloc_impl_def option.case by (intro holds_branches) (simp_all add: assms(1) ins no)
qed

lemma free_host_ok:
  assumes "host_ok h"
  shows "keeps (\<lambda>_. host_ok) h (free_impl (Some drv) i h)"
  unfolding free_impl_def option.case
  by (intro holds_branches) (auto dest: free_buffer_err simp: assms host_ok_free [OF assms])

lemma checked_guest_region_ok:
  assumes "checked_guest_region h ptr n = Inr (start, stop)"
  obtains mem where "guest_memory h = Some mem" "start = unat ptr" "stop = unat ptr + unat n" "stop \<le> length mem"
  using assms that
  by (auto simp: checked_guest_region_def checked_add_u32 split: option.splits if_splits)

lemma h2d_host_ok:
  assumes "host_ok h"
  shows "keeps (\<lambda>_. host_ok) h (memcpy_h2d_impl (Some drv) i p n h)"
proof -
  have "host_ok (log_call (CuMemcpyHtoD (device_ptr dev) (take (stop - start) (drop start mem))) h)"
    if "lookup_buffer (device h) i (inst h) = Inr dev" "\<not> mem_size dev < ucast k"
      "checked_guest_region h p k = Inr (start, stop)" "guest_memory h = Some mem"
    for dev start stop mem and k :: u32
  proof -
    note asms = that
    have "unat k \<le> unat (mem_size dev)"
      using that(2) by (simp add: word_less_nat_alt unat_u32_as_u64)
    moreover obtain mem' where "guest_memory h = Some mem'" "start = unat p" "stop = unat p + unat k" "stop \<le> length mem'"
      using checked_guest_region_ok [OF asms(3)] .
    ultimately show ?thesis
      using that(4) by (intro host_ok_copy(1) [OF assms that(1)]) auto
  qed
  then show ?thesis
    unfolding memcpy_h2d_impl_def option.case by (intro holds_branches) (simp_all add: assms)
qed

lemma d2h_host_ok:
  assumes "host_ok h"
  shows "keeps (\<lambda>_. host_ok) h (memcpy_d2h_impl (Some drv) p i n h)"
proof -
  have "host_ok (log_call (CuMemcpyDtoH (device_ptr dev) (unat k)) h)"
    if "lookup_buffer (device h) i (inst h) = Inr dev" "\<not> mem_size dev < ucast k" for dev and k :: u32
    using that(2) by (intro host_ok_copy(2) [OF assms that(1)]) (simp add: word_less_nat_alt unat_u32_as_u64)
  then show ?thesis
    unfolding memcpy_d2h_impl_def option.case by (intro holds_branches) (simp_all add: assms)
qed

lemma host_ok_fields [simp]:
  "host_ok (h\<lparr>last_lowered_args := a\<rparr>) = host_ok h" "host_ok (h\<lparr>kernels_launched := n\<rparr>) = host_ok h"
  "host_ok (h\<lparr>back_pressure_rejections := n\<rparr>) = host_ok h" "host_ok (h\<lparr>wasi_cuda_enabled := b\<rparr>) = host_ok h"
  "host_ok (h\<lparr>last_error := x\<rparr>) = host_ok h" "host_ok (h\<lparr>registry := r\<rparr>) = host_ok h"
  by (simp_all add: host_ok_def)

lemma host_ok_launch [simp]: "host_ok (log_call (CuLaunchKernel s d n args) h) = host_ok h"
  by (auto simp: host_ok_def log_call_def drv_run_append)

lemma cuda_launch_host_ok: "host_ok h \<Longrightarrow> keeps (\<lambda>_. host_ok) h (resolve_and_launch_cuda drv k d args h)"
  unfolding resolve_and_launch_cuda_def by (intro holds_branches) simp_all

lemma launch_host_ok:
  assumes "host_ok h"
  shows "holds (\<lambda>out. \<forall>h' r. out = Some (h', r) \<longrightarrow> host_ok h') (launch_impl (Some drv) pm res base kid d p n h)"
proof -
  have v: "host_ok h'" if "validate_launch_args kid d p n h = (h', r)" for h' r
    using keeps_validate [of h kid d p n] that assms by (simp add: host_ok_same)
  have a: "host_ok h2" if "host_ok h1" "resolve_argv base p n (h1\<lparr>guest_memory := mem\<rparr>) = Some (h2, r)" for h1 h2 mem r
    using keeps_resolve [OF that(2)] that(1) by (simp add: host_ok_same)
  have c: "host_ok h4" if "host_ok h3" "resolve_and_launch_cuda drv k d args (h3\<lparr>last_lowered_args := args\<rparr>) = (h4, r)" for h3 h4 k args r
    using cuda_launch_host_ok [of "h3\<lparr>last_lowered_args := args\<rparr>" drv k d args] that by simp
  show ?thesis
    unfolding launch_impl_def option.case
    by (intro holds_branches) (auto simp: fail_def holds_def dest: v a c split: completion.splits)
qed

lemma status_state: "status x = (h', v) \<Longrightarrow> h' = fst x" "handle_status y = (h', v) \<Longrightarrow> h' = fst y"
  by (auto simp: status_def handle_status_def split: prod.splits)

lemma host_call_ok:
  assumes "host_ok h" and "next_handle (snd (device h)) < word_max" and "fresh_driver drv h"
    and "host_call (Some drv) env c h = Some (h', v)"
  shows "host_ok h'"
proof -
  have same: "host_ok (fst x)" if "keeps same_device h x" for x :: "host_state \<times> 'r"
    using assms(1) that by (simp add: holds_def host_ok_same)
  note unfolded = alloc_host_ok [OF assms(1-3), unfolded holds_def] free_host_ok [OF assms(1), unfolded holds_def]
    h2d_host_ok [OF assms(1), unfolded holds_def] d2h_host_ok [OF assms(1), unfolded holds_def]
    same [OF keeps_load_ptx] same [OF keeps_sync]
  have copy: "host_ok h'" if "last_error_copy p n h = (h', v)" for p n
    using keeps_copy [of h p n] that assms(1) by (simp add: holds_def host_ok_same)
  have launch: "host_ok h'" if "launch_impl (Some drv) pm res base k d p n h = Some (h', r)" for pm res base k d p n r
    using launch_host_ok [OF assms(1), of drv pm res base k d p n] that by (simp add: holds_def)
  show ?thesis
    using assms(1,4)
    by (cases c) (auto simp: unfolded dest!: status_state split: if_splits intro: copy launch)
qed

section \<open>Runs of an instance\<close>

text \<open>
  What happens to an instance on a CUDA build: the guest makes a call, the guest runs between
  calls and changes or grows its memory, the embedder grants or revokes the capability, and
  other instances charge the process-wide budget. A call meets a driver that hands out unused
  pointers, and a registry that has not issued \<open>2^64\<close> handles.
\<close>

inductive host_step :: "host_state \<Rightarrow> host_state \<Rightarrow> bool" where
  host_call: "fresh_driver drv h \<Longrightarrow> next_handle (snd (device h)) < word_max
    \<Longrightarrow> host_call (Some drv) env c h = Some (h', v) \<Longrightarrow> host_step h h'"
| guest_runs: "host_step h (h\<lparr>guest_memory := mem\<rparr>)"
| grant: "host_step h (enable_wasi_cuda h)"
| revoke: "host_step h (disable_wasi_cuda h)"
| others: "host_step h (h\<lparr>device := (b, snd (device h))\<rparr>)"

lemma host_step_ok: "host_step h h' \<Longrightarrow> host_ok h \<Longrightarrow> host_ok h'"
  by (induction rule: host_step.induct)
    (auto simp: enable_wasi_cuda_def disable_wasi_cuda_def intro: host_call_ok)

lemma host_ok_new: "host_ok (wasi_cuda_context_new i raw b mem)"
  by (simp add: host_ok_def wasi_cuda_context_new_def reg_wf_def device_registry_new_def backed_def)

lemma host_reach_ok: "host_step\<^sup>*\<^sup>* (wasi_cuda_context_new i raw b mem) h \<Longrightarrow> host_ok h"
  by (induction rule: rtranclp_induct) (auto intro: host_ok_new host_step_ok)

text \<open>A driver that gives out one pointer and accepts every call.\<close>

definition demo_driver :: cuda_driver where
  "demo_driver = \<lparr>bind_context = None, cu_mem_alloc = (\<lambda>n. Inr 0x7000), cu_mem_free = (\<lambda>p. None),
     cu_memcpy_htod = (\<lambda>p bs. None), cu_memcpy_dtoh = (\<lambda>p n. Inr (\<lambda>i. 9)), module_from_ptx = (\<lambda>p. None),
     unmanaged = (\<lambda>p. None), get_function = (\<lambda>s. None), stream_new = None, cu_launch_kernel = (\<lambda>a. None),
     kernel_effect = (\<lambda>s a m. map (\<lambda>_. 5) m),
     event_new = None, event_record = None, launch_wait = Completed, context_synchronize = None\<rparr>"

definition demo_env :: launch_env where
  "demo_env = \<lparr>permit = Ok (), resume = (\<lambda>m. m), memory_base = 0x10000\<rparr>"

definition demo_host :: host_state where
  "demo_host = enable_wasi_cuda (wasi_cuda_context_new 7 0 device_budget_new (Some [1, 2, 3, 4]))"

definition demo_host_allocated :: host_state where
  "demo_host_allocated = demo_host\<lparr>
     device := (\<lparr>total_bytes = 3, total_allocs = 1\<rparr>,
                \<lparr>next_handle = 2, buffers = [(1, \<lparr>mem_owner = 7, mem_size = 3, device_ptr = 0x7000\<rparr>)],
                 total_device_bytes = 3\<rparr>),
     driver_log := [CuMemAlloc 0x7000 3]\<rparr>"

lemmas demo_defs = demo_driver_def demo_env_def demo_host_def demo_host_allocated_def enable_wasi_cuda_def
  wasi_cuda_context_new_def device_budget_new_def device_registry_new_def

lemma demo_wire: "join_u64 3 0 = 3" "join_u64 1 0 = 1" "checked_nonneg_len 3 = Ok 3"
  by (simp_all add: join_u64_def checked_nonneg_len_def)

lemma demo_alloc: "host_call (Some demo_driver) demo_env (Alloc 3 0) demo_host = Some (demo_host_allocated, 1)"
proof -
  have "insert_buffer (device demo_host) \<lparr>mem_owner = 7, mem_size = 3, device_ptr = 0x7000\<rparr>
      = (device demo_host_allocated, Ok 1)"
    by (simp add: insert_buffer_eq admits_def demo_defs device_caps)
  then show ?thesis
    by (simp add: demo_wire handle_status_def alloc_impl_def demo_defs MAX_DEVICE_ALLOC_BYTES_def log_call_def)
qed


lemma demo_fresh: "fresh_driver demo_driver demo_host"
  by (simp add: fresh_driver_def demo_defs)

text \<open>
  C3: the driver never sees a bad pointer. Whatever calls the guest makes, in whatever order and
  with whatever arguments, interleaved with other instances and with the embedder toggling the
  capability, the sequence of driver calls has no free of a pointer that is not live, no double
  free, and no copy from or to a pointer that is not live or past its end; and every buffer of
  the registry is a live allocation of exactly its recorded size that no other buffer shares.
\<close>

theorem driver_calls_safe:
  assumes "host_step\<^sup>*\<^sup>* (wasi_cuda_context_new i raw b mem) h"
  shows "\<exists>live. drv_run Map.empty (driver_log h) = Some live
    \<and> (\<forall>k e. map_of (buffers (snd (device h))) k = Some e \<longrightarrow> live (device_ptr e) = Some (unat (mem_size e)))
    \<and> (\<forall>k j e f. map_of (buffers (snd (device h))) k = Some e \<and> map_of (buffers (snd (device h))) j = Some f
         \<and> device_ptr e = device_ptr f \<longrightarrow> k = j)"
  using host_reach_ok [OF assms] by (auto simp: host_ok_def backed_def)

theorem driver_calls_safe_witness:
  "drv_run Map.empty (driver_log demo_host_allocated) = Some [0x7000 \<mapsto> 3]
   \<and> (\<exists>live. drv_run Map.empty (driver_log demo_host_allocated) = Some live \<and> live 0x7000 = Some 3)"
proof -
  let ?new = "wasi_cuda_context_new 7 0 device_budget_new (Some [1, 2, 3, 4])"
  have "host_step ?new demo_host"
    unfolding demo_host_def by (rule grant)
  moreover have "next_handle (snd (device demo_host)) < word_max"
    by (simp add: demo_defs word_less_nat_alt unat_word_max)
  then have "host_step demo_host demo_host_allocated"
    by (rule host_step.host_call [OF demo_fresh _ demo_alloc])
  ultimately have "host_step\<^sup>*\<^sup>* ?new demo_host_allocated" by simp
  from driver_calls_safe [OF this] show ?thesis
    by (auto simp: demo_host_allocated_def)
qed

section \<open>What the host writes into the guest's memory\<close>



definition same_memory :: "host_state \<Rightarrow> host_state \<Rightarrow> bool" where
  "same_memory h h' \<longleftrightarrow> guest_memory h' = guest_memory h"

lemma same_memory_simps [simp]:
  "same_memory h h" "same_memory h (record_error msg h') = same_memory h h'"
  "same_memory h (log_call c h') = same_memory h h'" "same_memory h (h'\<lparr>device := d\<rparr>) = same_memory h h'"
  "same_memory h (h'\<lparr>registry := r\<rparr>) = same_memory h h'"
  "same_memory h (h'\<lparr>last_lowered_args := a\<rparr>) = same_memory h h'"
  "same_memory h (h'\<lparr>kernels_launched := n\<rparr>) = same_memory h h'"
  "same_memory h (h'\<lparr>back_pressure_rejections := n\<rparr>) = same_memory h h'"
  by (simp_all add: same_memory_def record_error_def log_call_def)

lemma same_memory_trans: "same_memory a b \<Longrightarrow> same_memory b c \<Longrightarrow> same_memory a c"
  by (simp add: same_memory_def)





lemma add_kernel_memory [simp]: "keeps same_memory h (add_kernel c symbol ptx h)"
  by (simp add: add_kernel_def holds_def split: prod.split)






text \<open>A kernel that was started on the memory of \<open>h\<close>, as the last thing the driver was asked.\<close>

definition kernel_wrote :: "cuda_driver \<Rightarrow> launch_dims \<Rightarrow> host_state \<Rightarrow> host_state \<Rightarrow> bool" where
  "kernel_wrote drv d h h' \<longleftrightarrow> (\<exists>sym args. driver_log h' = driver_log h @ [CuLaunchKernel sym (dims_list d) (shared_mem d) args]
     \<and> guest_memory h' = map_option (kernel_effect drv sym args) (guest_memory h))"

lemma kernel_wrote_simps [simp]:
  "kernel_wrote drv d h (record_error msg h') = kernel_wrote drv d h h'"
  "kernel_wrote drv d h (h'\<lparr>last_lowered_args := a\<rparr>) = kernel_wrote drv d h h'"
  "kernel_wrote drv d h (h'\<lparr>kernels_launched := n\<rparr>) = kernel_wrote drv d h h'"
  "kernel_wrote drv d (h\<lparr>last_lowered_args := a\<rparr>) h' = kernel_wrote drv d h h'"
  by (simp_all add: kernel_wrote_def record_error_def)









end
