(* ===== verification/Gpu_Launch_Safety.thy ===== *)
theory Gpu_Launch_Safety
  imports Gpu_Host_Safety
begin

text \<open>
  Kernel launches and the error channel of the host functions of the theory \<open>Gpu_Host\<close>: exactly
  which launches pass validation, that a launch cannot panic and hands the driver only pointers
  inside the guest's memory and kernels of the calling instance, and what \<open>last_error\<close> holds.
\<close>

section \<open>Validation\<close>

lemma sint_u32: "sint (w :: u32) = (if unat w < 2 ^ 31 then int (unat w) else int (unat w) - 2 ^ 32)"
proof -
  have lt: "uint w < 2 ^ 32" using unsigned_less [of w, where 'a = int] by simp
  have "bit (uint w) 31 \<longleftrightarrow> 2 ^ 31 \<le> uint w"
  proof -
    have "uint w div 2 ^ 31 = (if 2 ^ 31 \<le> uint w then 1 else 0)"
      using lt by (auto simp: int_div_pos_eq)
    then show ?thesis by (simp add: bit_iff_odd)
  qed
  moreover have "sint w = take_bit 32 (uint w) - 2 ^ 32 * of_bool (bit (uint w) 31)"
    by (simp add: sint_uint signed_take_bit_eq_take_bit_minus)
  moreover have "take_bit 32 (uint w) = uint w" using lt by (simp add: take_bit_int_eq_self_iff)
  moreover have "(2 ^ 31 \<le> uint w) = (\<not> unat w < 2 ^ 31)"
    by (simp add: uint_nat nat_le_iff not_less)
  ultimately show ?thesis by (simp add: uint_nat)
qed

lemma sint_nonneg: "0 \<le> sint (w :: u32) \<Longrightarrow> sint w = int (unat w)"
  using unsigned_less [of w, where 'a = nat] by (auto simp: sint_u32 split: if_splits)

text \<open>Each check of a handler contributes one conjunct.\<close>

lemma snd_checks:
  "snd (if c then fail e msg h else out) = Ok k \<longleftrightarrow> \<not> c \<and> snd out = Ok k"
  "snd (if c then (h, Err e) else out) = Ok k \<longleftrightarrow> \<not> c \<and> snd out = Ok k"
  "snd (case opt of None \<Rightarrow> fail e msg h | Some x \<Rightarrow> f x) = Ok k \<longleftrightarrow> (\<exists>x. opt = Some x \<and> snd (f x) = Ok k)"
  "snd (case run of (h', Inl e') \<Rightarrow> (h', Err e') | (h', Inr u) \<Rightarrow> g h' u) = Ok k
     \<longleftrightarrow> (\<exists>h' u. run = (h', Ok u) \<and> snd (g h' u) = Ok k)"
  by (auto simp: fail_def split: option.splits prod.splits sum.splits)

lemma check_args_Ok:
  "check_args_region p n h = (h', Ok ()) \<longleftrightarrow> h' = h
     \<and> (0 < sint n \<longrightarrow> (\<exists>mem. guest_memory h = Some mem \<and> unat p + unat n \<le> length mem))"
  by (cases "guest_memory h") (auto simp: check_args_region_def fail_def checked_add_u32)

lemma threads_product:
  assumes "unat x \<le> MAX_BLOCK_DIM" and "unat y \<le> MAX_BLOCK_DIM" and "unat z \<le> MAX_BLOCK_DIM"
  shows "\<exists>t. Option.bind (checked_mul (ucast (x :: u32) :: u64) (ucast (y :: u32))) (\<lambda>v. checked_mul v (ucast (z :: u32))) = Some t
    \<and> unat t = unat x * unat y * unat z"
proof -
  have xy: "unat x * unat y \<le> 1024 * 1024"
    using assms by (intro mult_le_mono) (simp_all add: MAX_BLOCK_DIM_def)
  then have xyz: "unat x * unat y * unat z \<le> 1024 * 1024 * 1024"
    by (rule mult_le_mono) (use assms(3) in \<open>simp add: MAX_BLOCK_DIM_def\<close>)
  have "unat (ucast x * ucast y :: u64) = unat x * unat y"
    using xy by (simp add: unat_mul_nowrap unat_u32_as_u64)
  then show ?thesis
    using xy xyz by (simp add: checked_mul_def unat_mul_nowrap unat_u32_as_u64)
qed

lemma validate_Ok_iff:
  "snd (validate_launch_args kid d p n h) = Ok k \<longleftrightarrow>
     0 \<le> sint n \<and> 0 \<le> sint p
   \<and> (0 < sint n \<longrightarrow> (\<exists>mem. guest_memory h = Some mem \<and> unat p + unat n \<le> length mem))
   \<and> 0 \<le> sint kid \<and> 0 < sint (block_x d) \<and> 0 < sint (block_y d) \<and> 0 < sint (block_z d)
   \<and> 0 < sint (grid_x d) \<and> 0 < sint (grid_y d) \<and> 0 < sint (grid_z d)
   \<and> 0 \<le> sint (shared_mem d) \<and> sint (shared_mem d) \<le> MAX_DYNAMIC_SHARED_MEM_BYTES
   \<and> unat (block_x d) \<le> MAX_BLOCK_DIM \<and> unat (block_y d) \<le> MAX_BLOCK_DIM \<and> unat (block_z d) \<le> MAX_BLOCK_DIM
   \<and> unat (block_x d) * unat (block_y d) * unat (block_z d) \<le> MAX_THREADS_PER_BLOCK
   \<and> unat (grid_x d) \<le> MAX_GRID_DIM \<and> unat (grid_y d) \<le> MAX_GRID_DIM \<and> unat (grid_z d) \<le> MAX_GRID_DIM
   \<and> k = kid"
  (is "?valid \<longleftrightarrow> ?spec")
proof -
  let ?threads = "Option.bind (checked_mul (ucast (block_x d) :: u64) (ucast (block_y d)))
    (\<lambda>v. checked_mul v (ucast (block_z d)))"
  let ?fits = "unat (block_x d) \<le> MAX_BLOCK_DIM \<and> unat (block_y d) \<le> MAX_BLOCK_DIM \<and> unat (block_z d) \<le> MAX_BLOCK_DIM"
  have neg: "is_ok (checked_nonneg_len n) \<longleftrightarrow> 0 \<le> sint n"
    by (simp add: checked_nonneg_len_def is_ok_def not_less)
  have threads: "(\<exists>t. ?threads = Some t \<and> unat t \<le> MAX_THREADS_PER_BLOCK \<and> Q)
      \<longleftrightarrow> unat (block_x d) * unat (block_y d) * unat (block_z d) \<le> MAX_THREADS_PER_BLOCK \<and> Q" if fits: ?fits for Q
  proof -
    obtain t where "?threads = Some t" "unat t = unat (block_x d) * unat (block_y d) * unat (block_z d)"
      using threads_product [of "block_x d" "block_y d" "block_z d"] fits by blast
    then show ?thesis by auto
  qed
  show ?thesis
    unfolding validate_launch_args_def snd_checks
    using threads by (auto simp: neg check_args_Ok not_less not_le)
qed

text \<open>
  C37: which launches pass. The validation accepts a request exactly when the argument region is
  inside the guest's memory, every block axis is between 1 and 1024 with at most 1024 threads in
  all, every grid axis is at least 1, and the dynamic shared memory is at most 228 KiB. No
  negative wire value and no product that would overflow gets past it. The block (1, 1, 1024) is
  accepted.
\<close>

theorem launch_accepted_iff:
  "snd (validate_launch_args kid d p n h) = Ok k \<longleftrightarrow>
     k = kid \<and> 0 \<le> sint kid \<and> 0 \<le> sint p \<and> 0 \<le> sint n
   \<and> (0 < sint n \<longrightarrow> (\<exists>mem. guest_memory h = Some mem \<and> sint p + sint n \<le> int (length mem)))
   \<and> (\<forall>x \<in> {block_x d, block_y d, block_z d}. 1 \<le> sint x \<and> sint x \<le> 1024)
   \<and> sint (block_x d) * sint (block_y d) * sint (block_z d) \<le> 1024
   \<and> (\<forall>x \<in> {grid_x d, grid_y d, grid_z d}. 1 \<le> sint x)
   \<and> 0 \<le> sint (shared_mem d) \<and> sint (shared_mem d) \<le> 228 * 1024"
proof -
  have pos: "0 < sint x \<and> unat x \<le> 1024 \<longleftrightarrow> 1 \<le> sint x \<and> sint x \<le> 1024" for x :: i32
    using sint_nonneg [of x] by auto
  have grid: "0 < sint x \<Longrightarrow> unat x \<le> MAX_GRID_DIM" for x :: i32
    by (auto simp: sint_u32 MAX_GRID_DIM_def split: if_splits)
      (use unsigned_less [of x, where 'a = nat] in simp)
  have prod: "unat x * unat y * unat z \<le> 1024 \<longleftrightarrow> sint x * sint y * sint z \<le> 1024"
    if "0 < sint x" "0 < sint y" "0 < sint z" for x y z :: i32
  proof -
    have "sint x * sint y * sint z = int (unat x * unat y * unat z)"
      using that by (simp add: sint_nonneg)
    then show ?thesis by linarith
  qed
  have region: "unat p + unat n \<le> m \<longleftrightarrow> sint p + sint n \<le> int m" if "0 \<le> sint p" "0 \<le> sint n" for m
    using that by (auto simp: sint_nonneg)
  show ?thesis
    unfolding validate_Ok_iff MAX_BLOCK_DIM_def MAX_THREADS_PER_BLOCK_def MAX_DYNAMIC_SHARED_MEM_BYTES_def
    using pos [of "block_x d"] pos [of "block_y d"] pos [of "block_z d"] grid [of "grid_x d"]
      grid [of "grid_y d"] grid [of "grid_z d"] prod [of "block_x d" "block_y d" "block_z d"] region
    by (auto simp: int_one_le_iff_zero_less)
qed

definition demo_dims :: launch_dims where
  "demo_dims = \<lparr>grid_x = 2, grid_y = 1, grid_z = 1, block_x = 1, block_y = 1, block_z = 1024, shared_mem = 0\<rparr>"

theorem launch_accepted_iff_witness:
  "snd (validate_launch_args 1 demo_dims 0 4 demo_host) = Ok 1
   \<and> snd (validate_launch_args 1 demo_dims 0 5 demo_host) \<noteq> Ok 1
   \<and> snd (validate_launch_args 1 (demo_dims\<lparr>block_x := 2\<rparr>) 0 4 demo_host) \<noteq> Ok 1"
  unfolding launch_accepted_iff by (simp add: demo_dims_def demo_defs)

section \<open>Launches\<close>

lemma validate_state: "holds (\<lambda>out. \<forall>k. snd out = Ok k \<longrightarrow> fst out = h \<and> k = kid) (validate_launch_args kid d p n h)"
  unfolding validate_launch_args_def
  by (intro holds_branches) (auto simp: check_args_Ok)

lemma parse_argv_args: "parse_argv base mem_len buf = Ok args \<Longrightarrow> list_all (arg_ok base mem_len) args"
  using parse_records_iff [of "[]" base mem_len buf args]
  by (auto simp: parse_argv_def MAX_KERNEL_ARGS_def split: if_splits)

lemma resolve_argv_total:
  assumes "0 \<le> sint n" and "0 < sint n \<longrightarrow> (\<exists>mem. guest_memory h = Some mem \<and> unat p + unat n \<le> length mem)"
  shows "\<exists>h' r. resolve_argv base p n h = Some (h', r) \<and> driver_log h' = driver_log h
    \<and> (\<forall>args. r = Ok args \<longrightarrow> h' = h
        \<and> (args = [] \<or> (\<exists>mem. guest_memory h = Some mem \<and> list_all (arg_ok base (of_nat (length mem))) args)))"
proof (cases "sint n \<le> 0")
  case False
  then obtain mem where mem: "guest_memory h = Some mem" "unat p + unat n \<le> length mem" using assms(2) by auto
  then show ?thesis
    using False parse_argv_args [of base "of_nat (length mem)" "take (unat n) (drop (unat p) mem)"]
    by (simp add: resolve_argv_def Let_def fail_def record_error_def split: sum.split)
qed (simp add: resolve_argv_def)

text \<open>What a launch may send to the driver.\<close>

definition launched :: "cuda_driver \<Rightarrow> kernel_entry \<Rightarrow> launch_dims \<Rightarrow> lowered_arg list \<Rightarrow> host_state \<Rightarrow> host_state \<Rightarrow> bool" where
  "launched drv k d args h h' \<longleftrightarrow>
     driver_log h' = driver_log h @ [CuLaunchKernel (kernel_symbol k) (dims_list d) (shared_mem d) args]
   \<and> (\<forall>a \<in> set args. is_ptr a \<longrightarrow> unmanaged drv (host_ptr a) = None)"

lemma cuda_launch_log:
  "holds (\<lambda>out. driver_log (fst out) = driver_log h \<and> snd out \<noteq> Ok () \<or> launched drv k d args h (fst out))
    (resolve_and_launch_cuda drv k d args h)"
  unfolding resolve_and_launch_cuda_def
  by (intro holds_branches) (auto simp: log_call_def record_error_def launched_def find_None_iff)

lemma launch_result:
  assumes "validate_launch_args kid d p n h = (h1, Inr kid')" and "\<forall>m. length m \<le> length (res m)"
  shows "\<exists>h' r. launch_impl (Some drv) (Ok ()) res base kid d p n h = Some (h', r)
    \<and> (driver_log h' = driver_log h \<and> r \<noteq> Ok ()
       \<or> (\<exists>k args. launched drv k d args h h' \<and> lookup_kernel (registry h) kid (inst h) = Ok k
            \<and> (args = [] \<or> (\<exists>mem. guest_memory h = Some mem \<and> list_all (arg_ok base (of_nat (length (res mem)))) args))))"
proof -
  let ?h = "h\<lparr>guest_memory := map_option res (guest_memory h)\<rparr>"
  have same: "h1 = h" "kid' = kid" using validate_state [of h kid d p n] assms(1) by (simp_all add: holds_def)
  have "snd (validate_launch_args kid d p n h) = Ok kid" using assms(1) same by simp
  then have n: "0 \<le> sint n" and region: "0 < sint n \<longrightarrow> (\<exists>mem. guest_memory h = Some mem \<and> unat p + unat n \<le> length mem)"
    by (simp_all add: validate_Ok_iff)
  from region assms(2) have "0 < sint n \<longrightarrow> (\<exists>mem. guest_memory ?h = Some mem \<and> unat p + unat n \<le> length mem)"
    by (auto intro: le_trans)
  from resolve_argv_total [OF n this, of base] obtain h2 r where r: "resolve_argv base p n ?h = Some (h2, r)"
    "driver_log h2 = driver_log h" and args: "\<And>args. r = Ok args \<Longrightarrow> h2 = ?h \<and> (args = [] \<or>
      (\<exists>mem. guest_memory ?h = Some mem \<and> list_all (arg_ok base (of_nat (length mem))) args))"
    by auto
  show ?thesis
  proof (cases r)
    case (Inl e)
    then show ?thesis using r by (simp add: launch_impl_def assms(1) same)
  next
    case (Inr a)
    show ?thesis
    proof (cases "lookup_kernel (registry h) kid (inst h)")
      case (Inl e)
      then show ?thesis using r \<open>r = Inr a\<close> args [OF Inr] by (simp add: launch_impl_def assms(1) same)
    next
      case k: (Inr k)
      let ?h3 = "?h\<lparr>last_lowered_args := a\<rparr>"
      obtain h4 out where out: "resolve_and_launch_cuda drv k d a ?h3 = (h4, out)" by fastforce
      have log: "driver_log h4 = driver_log h \<and> out \<noteq> Ok () \<or> launched drv k d a h h4"
        using cuda_launch_log [of ?h3 drv k d a] out by (simp add: launched_def)
      have "\<exists>h' r. launch_impl (Some drv) (Ok ()) res base kid d p n h = Some (h', r)
          \<and> driver_log h' = driver_log h4 \<and> (r = Ok () \<longrightarrow> out = Ok ())"
        using r k out \<open>r = Inr a\<close> args [OF Inr]
        by (cases out; cases "launch_wait drv") (simp_all add: launch_impl_def assms(1) same fail_def record_error_def)
      then obtain h' r' where run: "launch_impl (Some drv) (Ok ()) res base kid d p n h = Some (h', r')"
        and h': "driver_log h' = driver_log h4" "r' = Ok () \<longrightarrow> out = Ok ()" by blast
      have "launched drv k d a h h4 \<Longrightarrow> launched drv k d a h h'" by (simp add: launched_def h'(1))
      moreover have "a = [] \<or> (\<exists>mem. guest_memory h = Some mem \<and> list_all (arg_ok base (of_nat (length (res mem)))) a)"
        using args [OF Inr] by auto
      ultimately show ?thesis using log run k h' by metis
    qed
  qed
qed

text \<open>
  C5: a launch cannot panic, and what it hands to the driver is safe. If the guest's memory does
  not shrink while the call waits for a back-pressure permit, the launch returns. The driver is
  called at most once, and a success means it was called. That call runs a kernel the calling
  instance registered, with validated dimensions, after a permit was granted, and every pointer
  argument is an address inside the guest's memory as it is at that moment, over its whole
  length, that the driver reports as managed.
\<close>

theorem launch_sound:
  assumes "\<forall>m. length m \<le> length (res m)"
  shows "\<exists>h' r. launch_impl (Some drv) pm res base kid d p n h = Some (h', r)
    \<and> (driver_log h' = driver_log h \<and> r \<noteq> Ok ()
       \<or> pm = Ok () \<and> snd (validate_launch_args kid d p n h) = Ok kid
         \<and> (\<exists>k args. lookup_kernel (registry h) kid (inst h) = Ok k
              \<and> driver_log h' = driver_log h @ [CuLaunchKernel (kernel_symbol k) (dims_list d) (shared_mem d) args]
              \<and> (\<forall>q len off. Ptr q len off \<in> set args \<longrightarrow> unmanaged drv q = None
                   \<and> (\<exists>mem. guest_memory h = Some mem \<and> q = base + ucast off
                        \<and> unat off + unat len \<le> length (res mem)))))"
proof (cases "validate_launch_args kid d p n h")
  case (Pair h1 v)
  have "same_device h h1" using keeps_validate [of h kid d p n] Pair by simp
  then have log: "driver_log h1 = driver_log h" by (simp add: same_device_def)
  show ?thesis
  proof (cases "is_ok v \<and> pm = Ok ()")
    case False
    then show ?thesis using Pair log by (cases v; cases pm) (auto simp: launch_impl_def is_ok_def)
  next
    case True
    then obtain kid' where v: "v = Inr kid'" and pm: "pm = Ok ()" by (cases v) (auto simp: is_ok_def)
    have ok: "snd (validate_launch_args kid d p n h) = Ok kid"
      using validate_state [of h kid d p n] Pair v by (simp add: holds_def)
    have in_mem: "q = base + ucast off \<and> unat off + unat len \<le> m"
      if "list_all (arg_ok base (of_nat m)) args" "Ptr q len off \<in> set args" for args q len off m
    proof -
      have "arg_ok base (of_nat m) (Ptr q len off)" using that unfolding list_all_iff by blast
      moreover have "unat (of_nat m :: u64) \<le> m" by (simp add: unat_of_nat)
      ultimately show ?thesis by simp
    qed
    have managed: "unmanaged drv q = None" if "launched drv k d args h h'" "Ptr q len off \<in> set args" for k args h' q len off
      using that by (force simp: launched_def is_ptr_def)
    obtain h' r where run: "launch_impl (Some drv) (Ok ()) res base kid d p n h = Some (h', r)"
      and out: "driver_log h' = driver_log h \<and> r \<noteq> Ok ()
       \<or> (\<exists>k args. launched drv k d args h h' \<and> lookup_kernel (registry h) kid (inst h) = Ok k
            \<and> (args = [] \<or> (\<exists>mem. guest_memory h = Some mem \<and> list_all (arg_ok base (of_nat (length (res mem)))) args)))"
      using launch_result [OF Pair [unfolded v] assms, of drv base] by blast
    from out show ?thesis
    proof (elim disjE exE conjE)
      fix k args assume "launched drv k d args h h'" "lookup_kernel (registry h) kid (inst h) = Ok k" "args = []"
      then show ?thesis using run ok pm by (intro exI [of _ h'] exI [of _ r]) (auto simp: launched_def)
    next
      fix k args mem assume *: "launched drv k d args h h'" "lookup_kernel (registry h) kid (inst h) = Ok k"
        "guest_memory h = Some mem" "list_all (arg_ok base (of_nat (length (res mem)))) args"
      have "\<forall>q len off. Ptr q len off \<in> set args \<longrightarrow> unmanaged drv q = None
          \<and> (\<exists>mem. guest_memory h = Some mem \<and> q = base + ucast off \<and> unat off + unat len \<le> length (res mem))"
        using in_mem [OF *(4)] managed [OF *(1)] *(3) by blast
      moreover have "driver_log h' = driver_log h @ [CuLaunchKernel (kernel_symbol k) (dims_list d) (shared_mem d) args]"
        using *(1) by (simp add: launched_def)
      ultimately show ?thesis using run ok pm *(2) by blast
    qed (use run pm in auto)
  qed
qed

theorem launch_sound_witness:
  "launch_impl (Some demo_driver) (Ok ()) (\<lambda>m. m @ [0]) 0x10000 1 demo_dims 0 4 demo_host \<noteq> None"
proof -
  have "\<forall>m :: bytes. length m \<le> length (m @ [0])" by simp
  from launch_sound [OF this, of demo_driver "Ok ()" "0x10000" 1 demo_dims 0 4 demo_host] show ?thesis by auto
qed

section \<open>The error channel\<close>

lemma ELLIPSIS_valid: "utf8_valid ELLIPSIS"
  by (simp add: ELLIPSIS_def utf8_valid.simps utf8_follow_def utf8_tail_ok_def is_cont_def)

lemma truncate_cut:
  assumes "utf8_valid msg" and "512 < length msg"
  shows "\<exists>k. 509 \<le> k \<and> k \<le> 512 \<and> truncate_message msg = take k msg @ ELLIPSIS \<and> utf8_valid (take k msg)"
proof -
  let ?k = "floor_boundary msg 512"
  have "509 \<le> ?k" "?k \<le> 512"
    using floor_boundary_near [OF assms] floor_boundary_le [of msg 512] by simp_all
  moreover have "utf8_valid (take ?k msg)"
    by (rule utf8_valid_take [OF assms(1) floor_boundary_is])
  ultimately show ?thesis
    using assms(2) by (auto simp: truncate_message_def MAX_RECORDED_ERROR_BYTES_def)
qed

lemma truncate_message_bounds:
  assumes "utf8_valid msg"
  shows "length (truncate_message msg) \<le> 515" and "utf8_valid (truncate_message msg)"
proof -
  have "length (truncate_message msg) \<le> 515 \<and> utf8_valid (truncate_message msg)"
  proof (cases "512 < length msg")
    case True
    with truncate_cut [OF assms] obtain k where k: "k \<le> 512" "truncate_message msg = take k msg @ ELLIPSIS"
      "utf8_valid (take k msg)" by blast
    have "length (take k msg @ ELLIPSIS) \<le> 515" using k(1) by (simp add: ELLIPSIS_def)
    with k show ?thesis using utf8_valid_append [OF k(3) ELLIPSIS_valid] by simp
  qed (use assms in \<open>simp add: truncate_message_def MAX_RECORDED_ERROR_BYTES_def\<close>)
  then show "length (truncate_message msg) \<le> 515" and "utf8_valid (truncate_message msg)" by simp_all
qed

lemma sint_small: "n < 2 ^ 31 \<Longrightarrow> sint (of_nat n :: i32) = int n"
  by (simp add: sint_u32 unat_of_nat)

text \<open>
  C38: a guest reads back the message that was recorded, whole and valid. Recording keeps a
  message of at most 512 bytes, and cuts a longer one at a character boundary between 509 and
  512 bytes and appends an ellipsis, so at most 515 bytes are kept. A guest that asks for the
  length and offers a buffer of at least that size inside its memory receives exactly those
  bytes, and they are valid UTF-8.
\<close>

theorem last_error_read_back:
  assumes "utf8_valid (utf8 msg)" and "guest_memory h = Some mem" and "0 \<le> sint dst"
  defines "kept \<equiv> truncate_message (utf8 msg)" and "h' \<equiv> record_error msg h"
  assumes "last_error_len h' \<le> sint n" and "unat dst + length kept \<le> length mem"
  shows "utf8_valid kept \<and> length kept \<le> 515 \<and> last_error_len h' = int (length kept)
    \<and> (if length (utf8 msg) \<le> 512 then kept = utf8 msg
       else \<exists>k. 509 \<le> k \<and> k \<le> 512 \<and> kept = take k (utf8 msg) @ ELLIPSIS)
    \<and> (\<exists>mem'. last_error_copy dst n h' = (h'\<lparr>guest_memory := Some mem'\<rparr>, int (length kept))
         \<and> take (length kept) (drop (unat dst) mem') = kept)"
proof -
  note b = truncate_message_bounds [OF assms(1), folded kept_def]
  have len: "last_error_len h' = int (length kept)"
    using b(1) by (simp add: last_error_len_def h'_def record_error_def kept_def [symmetric] sint_small)
  have n: "0 \<le> sint n" "length kept \<le> unat n"
    using assms(6) len sint_nonneg [of n] by auto
  have cut: "if length (utf8 msg) \<le> 512 then kept = utf8 msg
       else \<exists>k. 509 \<le> k \<and> k \<le> 512 \<and> kept = take k (utf8 msg) @ ELLIPSIS"
    using truncate_cut [OF assms(1)] by (auto simp: kept_def truncate_message_def MAX_RECORDED_ERROR_BYTES_def)
  have "\<exists>mem'. last_error_copy dst n h' = (h'\<lparr>guest_memory := Some mem'\<rparr>, int (length kept))
         \<and> take (length kept) (drop (unat dst) mem') = kept"
  proof (cases "n = 0")
    case True
    then have "kept = []" using n(2) by simp
    then show ?thesis using True assms(2,3)
      by (intro exI [of _ mem]) (simp add: last_error_copy_def h'_def record_error_def)
  next
    case False
    have c: "unat (of_nat (length kept) :: u64) = length kept" using b(1) by (simp add: unat_of_nat)
    have "unat dst + length kept < 2 ^ 64" using b(1) unsigned_less [of dst, where 'a = nat] by simp
    then obtain stop where stop: "checked_add (ucast dst :: u64) (of_nat (length kept)) = Some stop"
      "unat stop = unat dst + length kept"
      by (simp add: checked_add_def unat_u32_as_u64 c unat_add_nowrap)
    have mem: "last_error h' = Some kept" "guest_memory h' = Some mem"
      using assms(2) by (simp_all add: h'_def record_error_def kept_def)
    show ?thesis
      using False n assms(3,7) b(1) stop
      by (intro exI [of _ "write_memory (unat dst) kept mem"])
        (simp add: last_error_copy_def mem sint_small min_absorb1 write_memory_def Let_def)
  qed
  with b len cut show ?thesis by blast
qed

theorem last_error_read_back_witness:
  "utf8 (replicate 600 CHR ''x'') = replicate 600 0x78
   \<and> last_error_len (record_error (replicate 600 CHR ''x'') (demo_host\<lparr>guest_memory := Some (replicate 600 0)\<rparr>)) = 515"
proof -
  let ?msg = "replicate 600 CHR ''x''" and ?h = "demo_host\<lparr>guest_memory := Some (replicate 600 0)\<rparr>"
  have bytes: "utf8 ?msg = replicate 600 0x78" by (simp add: utf8_def)
  have "utf8_valid (replicate k 0x78)" for k
    by (induction k) (simp_all add: utf8_valid.simps utf8_follow_def utf8_tail_ok_def)
  then have valid: "utf8_valid (utf8 ?msg)" by (simp only: bytes)
  have "is_char_boundary (replicate 600 0x78) 512" by (simp add: is_char_boundary_def is_cont_def)
  then have "floor_boundary (replicate 600 0x78) 512 = 512" by (simp add: numeral_eq_Suc)
  then have kept: "truncate_message (utf8 ?msg) = replicate 512 0x78 @ ELLIPSIS"
    unfolding bytes by (simp add: truncate_message_def MAX_RECORDED_ERROR_BYTES_def)
  have len: "last_error_len (record_error ?msg ?h) = 515"
    by (simp add: last_error_len_def record_error_def kept ELLIPSIS_def)
  from last_error_read_back [OF valid, of ?h "replicate 600 0" 0 600] show ?thesis
    using len bytes by (simp add: kept ELLIPSIS_def)
qed

end
