(* ===== verification/Memory_Pool.thy ===== *)
theory Memory_Pool
  imports Cas_Loop Core_Error "HOL-Library.Multiset"
begin

text \<open>
  The bump allocator for unified memory, \<^verbatim>\<open>crates/tensor-wasm-mem/src/pool.rs\<close>.

  The first part has the operations as functions of the pool. The second part lets any number of
  \<open>allocate\<close> calls interleave with each other, with the owners of regions writing to them, and
  with releases, one atomic access per step; the compare-and-swap loops are one access each,
  which the theory \<open>Cas_Loop\<close> justifies. \<open>reset\<close> takes the pool exclusively, so it only runs when
  no call is in flight. The lemmas show that regions never overlap and that a region is zero
  when it is handed out, whoever owned its bytes before.
\<close>

unbundle bit_operations_syntax

section \<open>Model\<close>

datatype unified_error =
    Allocation string
  | Cuda string
  | ZeroSize
  | TooLarge u64 u64
  | NotSupported string string

fun unified_to_core :: "unified_error \<Rightarrow> tensor_wasm_error" where
  "unified_to_core ZeroSize = Serialization ''unified buffer: zero-byte allocation rejected''"
| "unified_to_core (Allocation msg) = Serialization (''unified buffer allocation failed: '' @ msg)"
| "unified_to_core (Cuda msg) = CudaError msg"
| "unified_to_core (TooLarge requested limit) = MemoryExhausted requested limit"
| "unified_to_core (NotSupported feature backing) =
     Serialization (''unified backing \"'' @ backing @ ''\" does not support feature \"'' @ feature @ ''\"'')"

record unified_memory_pool =
  slab_len :: u64
  slab :: "nat \<Rightarrow> u8"
  bump :: u64
  live :: u64
  issued_total :: u64
  carved_high_water :: u64

record pool_allocation =
  alloc_offset :: u64
  alloc_size :: u64

text \<open>\<open>UnifiedBuffer::new_on\<close> zeroes the slab; whether it can be allocated is the parameter \<open>backing\<close>.\<close>

definition pool_new_on :: "(u64 \<Rightarrow> unified_error option) \<Rightarrow> u64 \<Rightarrow> (unified_error, unified_memory_pool) result" where
  "pool_new_on backing capacity =
     (case backing capacity of
        Some e \<Rightarrow> Err e
      | None \<Rightarrow> Ok \<lparr>slab_len = capacity, slab = (\<lambda>_. 0), bump = 0, live = 0, issued_total = 0,
                    carved_high_water = 0\<rparr>)"

definition remaining :: "unified_memory_pool \<Rightarrow> u64" where
  "remaining p = saturating_sub (slab_len p) (bump p)"

definition MAX_ALIGN :: u64 where
  "MAX_ALIGN = 2 ^ 30"

definition is_power_of_two :: "u64 \<Rightarrow> bool" where
  "is_power_of_two a \<longleftrightarrow> a \<in> set (map (\<lambda>k. 2 ^ k) [0..<64])"

text \<open>The checks of \<open>allocate\<close> before the loop.\<close>

definition check_request :: "u64 \<Rightarrow> u64 \<Rightarrow> (unified_error, unit) result" where
  "check_request n align =
     (if n = 0 then Err ZeroSize
      else if align = 0 \<or> \<not> is_power_of_two align then 
        Err (Allocation (''alignment '' @ show_u64 align @ '' is not a non-zero power of two''))
      else if align > MAX_ALIGN then 
        Err (Allocation (''alignment '' @ show_u64 align @ '' exceeds maximum '' @ show_u64 MAX_ALIGN))
      else Ok ())"

text \<open>The body of the loop on the bump pointer.\<close>

definition carve_body :: "u64 \<Rightarrow> u64 \<times> u64 \<Rightarrow> u64 \<Rightarrow> (unified_error, u64 \<times> u64) result verdict" where
  "carve_body len = (\<lambda>(n, align) current_bump.
     case map_option (\<lambda>v. v AND NOT (align - 1)) (checked_add current_bump (align - 1)) of
       None \<Rightarrow> Refuse (Err (Allocation ''alignment overflow''))
     | Some aligned \<Rightarrow>
         (case checked_add aligned n of
            None \<Rightarrow> Refuse (Err (Allocation ''offset overflow''))
          | Some new_end \<Rightarrow>
              if new_end > len then Refuse (Err (TooLarge n len))
              else Commit new_end (Ok (aligned, new_end))))"

definition carve :: "u64 \<Rightarrow> u64 \<Rightarrow> u64 \<Rightarrow> u64 \<Rightarrow> u64 \<times> (unified_error, u64 \<times> u64) result" where
  "carve len n align = cas_atomic (carve_body len) (n, align)"

definition region_end :: "pool_allocation \<Rightarrow> u64" where
  "region_end a = alloc_offset a + alloc_size a"

text \<open>The memset of the recycled part of a region, for a high-water mark read before.\<close>

definition zero_recycled :: "pool_allocation \<Rightarrow> u64 \<Rightarrow> (nat \<Rightarrow> u8) \<Rightarrow> nat \<Rightarrow> u8" where
  "zero_recycled a high_water mem =
     (let recycled_end = min (region_end a) high_water
      in if recycled_end > alloc_offset a
         then (\<lambda>i. if unat (alloc_offset a) \<le> i \<and> i < unat recycled_end then 0 else mem i)
         else mem)"

definition allocate :: "unified_memory_pool \<Rightarrow> u64 \<Rightarrow> u64 \<Rightarrow> unified_memory_pool \<times> (unified_error, pool_allocation) result" where
  "allocate p n align =
     (case check_request n align of
        Inl e \<Rightarrow> (p, Err e)
      | Inr _ \<Rightarrow>
          (case carve (slab_len p) n align (bump p) of
             (_, Inl e) \<Rightarrow> (p, Err e)
           | (b, Inr (aligned, _)) \<Rightarrow>
               let a = \<lparr>alloc_offset = aligned, alloc_size = n\<rparr>
               in (p\<lparr>bump := b, live := live p + 1, issued_total := saturating_add (issued_total p) n,
                     slab := zero_recycled a (carved_high_water p) (slab p),
                     carved_high_water := max (carved_high_water p) (region_end a)\<rparr>, Ok a)))"

definition pool_release :: "unified_memory_pool \<Rightarrow> unified_memory_pool" where
  "pool_release p = p\<lparr>live := saturating_sub (live p) 1\<rparr>"

definition pool_reset :: "unified_memory_pool \<Rightarrow> unified_memory_pool \<times> (unified_error, unit) result" where
  "pool_reset p =
     (if live p \<noteq> 0 then (p, Err (Allocation (''cannot reset: '' @ show_u64 (live p) @ '' live allocations outstanding'')))
      else (p\<lparr>bump := 0\<rparr>, Ok ()))"

section \<open>Interleaved calls\<close>

text \<open>Where an \<open>allocate\<close> call is after its region was carved.\<close>

datatype pool_call =
    AddLive pool_allocation
  | AddIssued pool_allocation
  | LoadHighWater pool_allocation
  | ZeroFill pool_allocation u64 \<comment> \<open>with the mark it loaded\<close>
  | RaiseHighWater pool_allocation

fun call_region :: "pool_call \<Rightarrow> pool_allocation" where
  "call_region (AddLive a) = a"
| "call_region (AddIssued a) = a"
| "call_region (LoadHighWater a) = a"
| "call_region (ZeroFill a hw) = a"
| "call_region (RaiseHighWater a) = a"

record pool_world =
  pool :: unified_memory_pool
  pool_calls :: "pool_call multiset"
  handed :: "pool_allocation multiset"

definition region :: "pool_allocation \<Rightarrow> nat set" where
  "region a = {unat (alloc_offset a) ..< unat (alloc_offset a) + unat (alloc_size a)}"

inductive pool_step :: "pool_world \<Rightarrow> pool_world \<Rightarrow> bool" where
  carve: "check_request n align = Ok () \<Longrightarrow> carve (slab_len (pool w)) n align (bump (pool w)) = (b, Ok (aligned, e))
    \<Longrightarrow> pool_step w (w\<lparr>pool := (pool w)\<lparr>bump := b\<rparr>,
          pool_calls := add_mset (AddLive \<lparr>alloc_offset = aligned, alloc_size = n\<rparr>) (pool_calls w)\<rparr>)"
| add_live: "pool_calls w = add_mset (AddLive a) m
    \<Longrightarrow> pool_step w (w\<lparr>pool := (pool w)\<lparr>live := live (pool w) + 1\<rparr>, pool_calls := add_mset (AddIssued a) m\<rparr>)"
| add_issued: "pool_calls w = add_mset (AddIssued a) m
    \<Longrightarrow> pool_step w (w\<lparr>pool := (pool w)\<lparr>issued_total := saturating_add (issued_total (pool w)) (alloc_size a)\<rparr>,
          pool_calls := add_mset (LoadHighWater a) m\<rparr>)"
| load_high_water: "pool_calls w = add_mset (LoadHighWater a) m
    \<Longrightarrow> pool_step w (w\<lparr>pool_calls := add_mset (ZeroFill a (carved_high_water (pool w))) m\<rparr>)"
| zero_fill: "pool_calls w = add_mset (ZeroFill a hw) m
    \<Longrightarrow> pool_step w (w\<lparr>pool := (pool w)\<lparr>slab := zero_recycled a hw (slab (pool w))\<rparr>,
          pool_calls := add_mset (RaiseHighWater a) m\<rparr>)"
| hand_out: "pool_calls w = add_mset (RaiseHighWater a) m
    \<Longrightarrow> pool_step w (w\<lparr>pool := (pool w)\<lparr>carved_high_water := max (carved_high_water (pool w)) (region_end a)\<rparr>,
          pool_calls := m, handed := add_mset a (handed w)\<rparr>)"
| owner_writes: "a \<in># handed w \<Longrightarrow> i \<in> region a
    \<Longrightarrow> pool_step w (w\<lparr>pool := (pool w)\<lparr>slab := (slab (pool w))(i := v)\<rparr>\<rparr>)"
| release: "handed w = add_mset a m
    \<Longrightarrow> pool_step w (w\<lparr>pool := pool_release (pool w), handed := m\<rparr>)"
| reset: "pool_calls w = {#} \<Longrightarrow> pool_step w (w\<lparr>pool := fst (pool_reset (pool w))\<rparr>)"

definition pool_start :: "unified_memory_pool \<Rightarrow> pool_world" where
  "pool_start p = \<lparr>pool = p, pool_calls = {#}, handed = {#}\<rparr>"

abbreviation pool_reach :: "(u64 \<Rightarrow> unified_error option) \<Rightarrow> u64 \<Rightarrow> pool_world \<Rightarrow> bool" where
  "pool_reach backing capacity w \<equiv>
     \<exists>p. pool_new_on backing capacity = Ok p \<and> pool_step\<^sup>*\<^sup>* (pool_start p) w"

section \<open>Carving\<close>

lemma power_of_two_cases: "is_power_of_two a \<Longrightarrow> \<exists>k < 64. a = 2 ^ k"
  by (auto simp: is_power_of_two_def)

lemma unat_two_power: "k < 64 \<Longrightarrow> unat (2 ^ k :: u64) = 2 ^ k"
proof -
  assume k: "k < 64"
  have "unat (2 ^ k :: u64) = unat (of_nat (2 ^ k) :: u64)" by simp
  also have "\<dots> = 2 ^ k mod 2 ^ 64" by (simp only: unat_of_nat) simp
  also have "\<dots> = 2 ^ k" using k by (intro mod_less power_strict_increasing) simp_all
  finally show ?thesis .
qed

lemma unat_align_down: "k < 64 \<Longrightarrow> unat (v AND NOT (2 ^ k - 1) :: u64) = unat v - unat v mod 2 ^ k"
proof -
  have m: "(2 ^ k - 1 :: u64) = mask k" by (simp add: mask_eq_exp_minus_1)
  have "v AND NOT (mask k) = push_bit k (drop_bit k v)"
    by (rule bit_eqI) (auto simp: bit_simps)
  also have "\<dots> = v - take_bit k v" using bits_ident [of k v] by (metis add_diff_cancel_right')
  finally have "v AND NOT (2 ^ k - 1) = v - take_bit k v" by (simp only: m)
  moreover have t: "unat (take_bit k v) = unat v mod 2 ^ k"
    unfolding unsigned_take_bit_eq by (simp only: take_bit_eq_mod)
  moreover have "take_bit k v \<le> v" by (simp add: word_le_nat_alt t)
  ultimately show ?thesis by (simp add: unat_sub_nowrap)
qed

lemma check_request_Ok: "check_request n align = Ok () \<longleftrightarrow> n \<noteq> 0 \<and> is_power_of_two align \<and> align \<le> MAX_ALIGN"
  by (auto simp: check_request_def is_power_of_two_def)

text \<open>What a successful reservation gives: an aligned region right after the old bump pointer.\<close>

lemma carve_body_Commit:
  "carve_body len (n, align) current = Commit b r \<longleftrightarrow>
     (\<exists>v. checked_add current (align - 1) = Some v \<and> checked_add (v AND NOT (align - 1)) n = Some b
       \<and> b \<le> len \<and> r = Ok (v AND NOT (align - 1), b))"
  by (auto simp: carve_body_def not_less split: option.split)

lemma carve_body_Refuse: "carve_body len (n, align) current = Refuse r \<Longrightarrow> \<exists>x. r = Err x"
  by (auto simp: carve_body_def split: option.splits if_splits)

lemma carve_Ok:
  assumes "check_request n align = Ok ()" and "carve len n align current = (b, Ok (aligned, e))"
  shows "b = e" and "unat e = unat aligned + unat n" and "unat current \<le> unat aligned"
    and "unat aligned = (unat current + unat align - 1) div unat align * unat align" and "e \<le> len"
proof -
  obtain k where k: "k < 64" "align = 2 ^ k" using assms(1) power_of_two_cases by (auto simp: check_request_Ok)
  have ua: "unat align = 2 ^ k" using k by (simp add: unat_two_power)
  have "0 < unat align" by (simp add: ua)
  then have a1: "unat (align - 1) = unat align - 1" by (simp add: unat_minus_one word_neq_0_conv word_less_nat_alt)
  from assms(2) obtain v where v: "unat v = unat current + (unat align - 1)" "aligned = v AND NOT (align - 1)"
    "unat e = unat aligned + unat n" "e \<le> len" "b = e"
    by (auto simp: carve_def cas_atomic_def carve_body_Commit checked_add_Some_iff a1
        split: verdict.splits dest!: carve_body_Refuse)
  have al: "unat aligned = unat v - unat v mod 2 ^ k" using v(2) k unat_align_down [OF k(1), of v] by simp
  show "b = e" "unat e = unat aligned + unat n" "e \<le> len" using v by simp_all
  show "unat aligned = (unat current + unat align - 1) div unat align * unat align"
    using \<open>0 < unat align\<close> v(1) by (simp add: al ua minus_mod_eq_mult_div mult.commute)
  have "unat v mod 2 ^ k < 2 ^ k" by simp
  then show "unat current \<le> unat aligned" using v(1) al ua by linarith
qed

lemma carve_Err: "carve len n align current = (b, Err x) \<Longrightarrow> b = current"
  by (auto simp: carve_def cas_atomic_def carve_body_Commit split: verdict.splits)

section \<open>The invariant\<close>

text \<open>Every region that is carved and not yet released, and how many of them hold a byte.\<close>

definition regions :: "pool_world \<Rightarrow> pool_allocation multiset" where
  "regions w = image_mset call_region (pool_calls w) + handed w"

definition cover :: "pool_allocation multiset \<Rightarrow> nat \<Rightarrow> nat" where
  "cover R i = (\<Sum>a\<in>#R. of_bool (i \<in> region a))"

text \<open>The regions lie below the bump pointer, no byte is in two of them, and they fit together.\<close>

definition regions_ok :: "pool_allocation multiset \<Rightarrow> u64 \<Rightarrow> u64 \<Rightarrow> bool" where
  "regions_ok R b len \<longleftrightarrow> b \<le> len
     \<and> (\<forall>a\<in>#R. 0 < unat (alloc_size a) \<and> unat (alloc_offset a) + unat (alloc_size a) \<le> unat b)
     \<and> (\<forall>i. cover R i \<le> 1)
     \<and> (\<Sum>a\<in>#R. unat (alloc_size a)) \<le> unat b"

fun counted :: "pool_call \<Rightarrow> nat" where
  "counted (AddLive a) = 0"
| "counted _ = 1"

definition live_ok :: "pool_world \<Rightarrow> bool" where
  "live_ok w \<longleftrightarrow> unat (live (pool w)) = size (handed w) + (\<Sum>c\<in>#pool_calls w. counted c)"

text \<open>What a call knows about the contents of its region.\<close>

fun call_clean :: "(nat \<Rightarrow> u8) \<Rightarrow> pool_call \<Rightarrow> bool" where
  "call_clean mem (ZeroFill a hw) \<longleftrightarrow> (\<forall>i\<in>region a. unat hw \<le> i \<longrightarrow> mem i = 0)"
| "call_clean mem (RaiseHighWater a) \<longleftrightarrow> (\<forall>i\<in>region a. mem i = 0)"
| "call_clean mem _ \<longleftrightarrow> True"

text \<open>
  Bytes at and above the high-water mark are zero, and every region that was handed out lies
  below it.
\<close>

definition clean_ok :: "pool_world \<Rightarrow> bool" where
  "clean_ok w \<longleftrightarrow> (\<forall>i. unat (carved_high_water (pool w)) \<le> i \<longrightarrow> slab (pool w) i = 0)
     \<and> (\<forall>a\<in>#handed w. unat (alloc_offset a) + unat (alloc_size a) \<le> unat (carved_high_water (pool w)))
     \<and> (\<forall>c\<in>#pool_calls w. call_clean (slab (pool w)) c)"

definition pool_ok :: "pool_world \<Rightarrow> bool" where
  "pool_ok w \<longleftrightarrow> regions_ok (regions w) (bump (pool w)) (slab_len (pool w)) \<and> live_ok w \<and> clean_ok w"

lemma regions_simps [simp]:
  "regions (w\<lparr>pool := p\<rparr>) = regions w"
  "regions (w\<lparr>pool := p, pool_calls := m\<rparr>) = image_mset call_region m + handed w"
  "regions (w\<lparr>pool_calls := m\<rparr>) = image_mset call_region m + handed w"
  by (simp_all add: regions_def)

lemma cover_simps [simp]:
  "cover {#} i = 0" "cover (add_mset a R) i = of_bool (i \<in> region a) + cover R i"
  by (simp_all add: cover_def)

lemma cover_zero: "(\<forall>a\<in>#R. unat (alloc_offset a) + unat (alloc_size a) \<le> n) \<Longrightarrow> n \<le> i \<Longrightarrow> cover R i = 0"
  by (induction R) (auto simp: region_def)

lemma cover_two: "a \<in># R \<Longrightarrow> i \<in> region a \<Longrightarrow> 1 \<le> cover R i"
  by (induction R) auto

lemma size_le_volume: "\<forall>a\<in>#R. 0 < f a \<Longrightarrow> size R \<le> (\<Sum>a\<in>#R. f a :: nat)"
  by (induction R) force+

lemma regions_ok_add:
  assumes "regions_ok R b len" and "unat b \<le> unat (alloc_offset a)" and "0 < unat (alloc_size a)"
    and "unat b' = unat (alloc_offset a) + unat (alloc_size a)" and "b' \<le> len"
  shows "regions_ok (add_mset a R) b' len"
proof -
  have below: "\<forall>x\<in>#R. unat (alloc_offset x) + unat (alloc_size x) \<le> unat b"
    using assms(1) by (simp add: regions_ok_def)
  have "cover (add_mset a R) i \<le> 1" for i
  proof (cases "i \<in> region a")
    case True
    then have "unat b \<le> i" using assms(2) by (simp add: region_def)
    with below True show ?thesis by (simp add: cover_zero)
  qed (use assms(1) in \<open>simp add: regions_ok_def\<close>)
  with assms show ?thesis by (force simp: regions_ok_def)
qed

lemma regions_ok_remove: "regions_ok (add_mset a R) b len \<Longrightarrow> regions_ok R b len"
proof -
  assume *: "regions_ok (add_mset a R) b len"
  have "cover R i \<le> cover (add_mset a R) i" for i by simp
  with * have "cover R i \<le> 1" for i unfolding regions_ok_def by (meson le_trans)
  with * show ?thesis by (auto simp: regions_ok_def)
qed

lemma regions_ok_size: "regions_ok R b len \<Longrightarrow> size R \<le> unat b"
  using size_le_volume [of R "unat \<circ> alloc_size"] by (auto simp: regions_ok_def intro: le_trans)

lemma unat_region_end:
  assumes "regions_ok R b len" and "a \<in># R"
  shows "unat (region_end a) = unat (alloc_offset a) + unat (alloc_size a)"
proof -
  have "unat (alloc_offset a) + unat (alloc_size a) \<le> unat b" using assms by (simp add: regions_ok_def)
  then show ?thesis
    using unat_less_pow [of b] unfolding region_end_def by (intro unat_add_nowrap) simp
qed

lemma step_regions_ok:
  assumes "pool_step w w'" and "pool_ok w"
  shows "regions_ok (regions w') (bump (pool w')) (slab_len (pool w'))"
proof -
  have ok: "regions_ok (regions w) (bump (pool w)) (slab_len (pool w))" and l: "live_ok w"
    using assms(2) by (simp_all add: pool_ok_def)
  from assms(1) show ?thesis
  proof cases
    case (carve n align b aligned e)
    note c = carve_Ok [OF carve(2,3)]
    have "0 < unat n" using carve(2) by (simp add: check_request_Ok unat_gt_0)
    then have "regions_ok (add_mset \<lparr>alloc_offset = aligned, alloc_size = n\<rparr> (regions w)) b (slab_len (pool w))"
      using c by (intro regions_ok_add [OF ok]) simp_all
    then show ?thesis by (simp add: carve(1) regions_def)
  next
    case (release a m)
    then have "regions w = add_mset a (regions w')" by (simp add: regions_def)
    with ok show ?thesis using regions_ok_remove by (simp add: release(1) pool_release_def)
  next
    case reset
    show ?thesis
    proof (cases "live (pool w) = 0")
      case True
      with l reset have "regions w = {#}" by (simp add: live_ok_def regions_def)
      with True ok show ?thesis by (simp add: reset(1) pool_reset_def regions_ok_def)
    qed (use ok reset in \<open>simp add: pool_reset_def\<close>)
  qed (use ok in \<open>auto simp: regions_def\<close>)
qed

lemma step_live_ok:
  assumes "pool_step w w'" and "pool_ok w"
  shows "live_ok w'"
proof -
  have ok: "regions_ok (regions w) (bump (pool w)) (slab_len (pool w))" and l: "live_ok w"
    using assms(2) by (simp_all add: pool_ok_def)
  from assms(1) show ?thesis
  proof cases
    case (add_live a m)
    have le: "(\<Sum>c\<in>#m. counted c) \<le> size m"
    proof (induction m)
      case (add c m)
      then show ?case by (cases c) simp_all
    qed simp
    have "size (regions w) \<le> unat (bump (pool w))" by (rule regions_ok_size [OF ok])
    then have "Suc (unat (live (pool w))) < 2 ^ 64"
      using l le add_live(2) unat_less_pow [of "bump (pool w)"] by (simp add: live_ok_def regions_def)
    then have "unat (live (pool w) + 1) = Suc (unat (live (pool w)))" by (simp add: unat_add_nowrap)
    with l show ?thesis by (simp add: live_ok_def add_live)
  next
    case (release a m)
    with l show ?thesis by (simp add: live_ok_def pool_release_def unat_saturating_sub)
  qed (use l in \<open>auto simp: live_ok_def pool_reset_def split: if_splits\<close>)
qed

lemma call_clean_write: "i \<notin> region (call_region k) \<Longrightarrow> call_clean (mem(i := v)) k = call_clean mem k"
  by (cases k) auto

lemma step_clean_ok:
  assumes "pool_step w w'" and "pool_ok w"
  shows "clean_ok w'"
proof -
  have ok: "regions_ok (regions w) (bump (pool w)) (slab_len (pool w))" and c: "clean_ok w"
    using assms(2) by (simp_all add: pool_ok_def)
  from assms(1) show ?thesis
  proof cases
    case (zero_fill a hw m)
    let ?mem = "zero_recycled a hw (slab (pool w))"
    have e: "unat (region_end a) = unat (alloc_offset a) + unat (alloc_size a)"
      using zero_fill by (intro unat_region_end [OF ok]) (simp add: regions_def)
    have zero: "slab (pool w) i = 0 \<Longrightarrow> ?mem i = 0" for i by (simp add: zero_recycled_def Let_def)
    have "?mem i = 0" if "i \<in> region a" for i
    proof (cases "unat hw \<le> i")
      case True
      with c that zero_fill(2) show ?thesis by (intro zero) (simp add: clean_ok_def)
    next
      case False
      with that show ?thesis by (auto simp: zero_recycled_def Let_def region_def word_less_nat_alt e min_def)
    qed
    moreover have "call_clean (slab (pool w)) k \<Longrightarrow> call_clean ?mem k" for k by (cases k) (auto intro: zero)
    ultimately show ?thesis using c zero_fill zero by (auto simp: clean_ok_def)
  next
    case (hand_out a m)
    have e: "unat (region_end a) = unat (alloc_offset a) + unat (alloc_size a)"
      using hand_out by (intro unat_region_end [OF ok]) (simp add: regions_def)
    have hw: "unat (max (carved_high_water (pool w)) (region_end a))
        = max (unat (carved_high_water (pool w))) (unat (alloc_offset a) + unat (alloc_size a))"
      by (simp add: max_def word_le_nat_alt e)
    show ?thesis using c by (auto simp: clean_ok_def hand_out hw)
  next
    case (owner_writes a i v)
    have "i < unat (carved_high_water (pool w))"
      using c owner_writes(2,3) by (force simp: clean_ok_def region_def)
    moreover have "i \<notin> region (call_region k)" if "k \<in># pool_calls w" for k
    proof
      assume i: "i \<in> region (call_region k)"
      from that obtain m where m: "pool_calls w = add_mset k m" by (metis multi_member_split)
      have "1 \<le> cover (handed w) i" using owner_writes(2,3) by (rule cover_two)
      then have "2 \<le> cover (regions w) i" using i by (simp add: regions_def m cover_def)
      with ok show False by (fastforce simp: regions_ok_def dest: spec [of _ i])
    qed
    then have "\<forall>k\<in>#pool_calls w. call_clean ((slab (pool w))(i := v)) k = call_clean (slab (pool w)) k"
      by (simp add: call_clean_write)
    ultimately show ?thesis using c by (auto simp: clean_ok_def owner_writes(1))
  qed (use c in \<open>auto simp: clean_ok_def pool_reset_def pool_release_def split: if_splits\<close>)
qed

lemma step_pool_ok: "pool_step w w' \<Longrightarrow> pool_ok w \<Longrightarrow> pool_ok w'"
  using step_regions_ok step_live_ok step_clean_ok by (simp add: pool_ok_def)

lemma pool_start_ok: "pool_new_on backing capacity = Ok p \<Longrightarrow> pool_ok (pool_start p)"
  by (auto simp: pool_new_on_def pool_start_def pool_ok_def regions_ok_def live_ok_def clean_ok_def regions_def
      split: option.splits)

lemma steps_pool_ok: "pool_step\<^sup>*\<^sup>* w w' \<Longrightarrow> pool_ok w \<Longrightarrow> pool_ok w'"
  by (induction rule: rtranclp_induct) (auto intro: step_pool_ok)

lemma pool_reach_ok: "pool_reach backing capacity w \<Longrightarrow> pool_ok w"
  using steps_pool_ok pool_start_ok by blast

section \<open>One call alone\<close>

lemma allocate_Ok:
  "allocate p n align = (p', Ok a) \<longleftrightarrow>
     (\<exists>b e. check_request n align = Ok () \<and> carve (slab_len p) n align (bump p) = (b, Ok (alloc_offset a, e))
       \<and> alloc_size a = n
       \<and> p' = p\<lparr>bump := b, live := live p + 1, issued_total := saturating_add (issued_total p) n,
               slab := zero_recycled a (carved_high_water p) (slab p),
               carved_high_water := max (carved_high_water p) (region_end a)\<rparr>)"
  by (cases a) (auto simp: allocate_def Let_def split: sum.splits prod.splits)

lemma pool_world_calls:
  "w\<lparr>pool := p, pool_calls := pool_calls w, handed := H\<rparr> = w\<lparr>pool := p, handed := H\<rparr>"
  by (rule pool_world.equality) simp_all

lemma allocate_steps:
  assumes "allocate (pool w) n align = (p', Ok a)"
  shows "\<exists>v. pool_step\<^sup>*\<^sup>* w v \<and> pool_step v (w\<lparr>pool := p', handed := add_mset a (handed w)\<rparr>) \<and> handed v = handed w"
proof -
  let ?p = "pool w" and ?m = "pool_calls w"
  let ?w = "\<lambda>p c. w\<lparr>pool := p, pool_calls := add_mset c ?m\<rparr>"
  obtain b e where req: "check_request n align = Ok ()"
    and c: "carve (slab_len ?p) n align (bump ?p) = (b, Ok (alloc_offset a, e))" and n: "alloc_size a = n"
    and p': "p' = ?p\<lparr>bump := b, live := live ?p + 1, issued_total := saturating_add (issued_total ?p) n,
        slab := zero_recycled a (carved_high_water ?p) (slab ?p),
        carved_high_water := max (carved_high_water ?p) (region_end a)\<rparr>"
    using assms by (auto simp: allocate_Ok)
  have a: "\<lparr>alloc_offset = alloc_offset a, alloc_size = n\<rparr> = a" using n by simp
  let ?p1 = "?p\<lparr>bump := b\<rparr>" and ?p2 = "?p\<lparr>bump := b, live := live ?p + 1\<rparr>"
  let ?p3 = "?p\<lparr>bump := b, live := live ?p + 1, issued_total := saturating_add (issued_total ?p) n\<rparr>"
  let ?p4 = "?p3\<lparr>slab := zero_recycled a (carved_high_water ?p) (slab ?p)\<rparr>"
  have s1: "pool_step w (?w ?p1 (AddLive a))" using pool_step.carve [OF req c] by (simp add: a)
  have s2: "pool_step (?w ?p1 (AddLive a)) (?w ?p2 (AddIssued a))"
    using add_live [of "?w ?p1 (AddLive a)" a ?m] by simp
  have s3: "pool_step (?w ?p2 (AddIssued a)) (?w ?p3 (LoadHighWater a))"
    using add_issued [of "?w ?p2 (AddIssued a)" a ?m] by (simp add: n)
  have s4: "pool_step (?w ?p3 (LoadHighWater a)) (?w ?p3 (ZeroFill a (carved_high_water ?p)))"
    using load_high_water [of "?w ?p3 (LoadHighWater a)" a ?m] by simp
  have s5: "pool_step (?w ?p3 (ZeroFill a (carved_high_water ?p))) (?w ?p4 (RaiseHighWater a))"
    using zero_fill [of "?w ?p3 (ZeroFill a (carved_high_water ?p))" a _ ?m] by simp
  have s6: "pool_step (?w ?p4 (RaiseHighWater a)) (w\<lparr>pool := p', handed := add_mset a (handed w)\<rparr>)"
    using hand_out [of "?w ?p4 (RaiseHighWater a)" a ?m] by (simp add: p' pool_world_calls)
  have "pool_step\<^sup>*\<^sup>* w (?w ?p4 (RaiseHighWater a))"
    using r_into_rtranclp [of pool_step, OF s5]
    by (intro converse_rtranclp_into_rtranclp [of pool_step, OF s1] converse_rtranclp_into_rtranclp [of pool_step, OF s2]
        converse_rtranclp_into_rtranclp [of pool_step, OF s3] converse_rtranclp_into_rtranclp [of pool_step, OF s4])
  with s6 show ?thesis by (intro exI [of _ "?w ?p4 (RaiseHighWater a)"]) simp
qed

lemma allocate_run:
  "allocate (pool w) n align = (p', Ok a) \<Longrightarrow> pool_step\<^sup>*\<^sup>* w (w\<lparr>pool := p', handed := add_mset a (handed w)\<rparr>)"
  using allocate_steps [of w n align p' a] by (auto intro: rtranclp.rtrancl_into_rtrancl)

section \<open>A run\<close>

text \<open>Two tenants use the same bytes one after the other.\<close>

definition demo_backing :: "u64 \<Rightarrow> unified_error option" where
  "demo_backing n = None"

definition demo_pool :: unified_memory_pool where
  "demo_pool = \<lparr>slab_len = 64, slab = (\<lambda>_. 0), bump = 0, live = 0, issued_total = 0, carved_high_water = 0\<rparr>"

abbreviation demo_region :: pool_allocation where
  "demo_region \<equiv> \<lparr>alloc_offset = 0, alloc_size = 8\<rparr>"

abbreviation demo_second :: pool_allocation where
  "demo_second \<equiv> \<lparr>alloc_offset = 16, alloc_size = 4\<rparr>"

lemma demo_new: "pool_new_on demo_backing 64 = Ok demo_pool"
  by (simp add: pool_new_on_def demo_backing_def demo_pool_def)

lemma demo_request: "check_request 8 16 = Ok ()" "check_request 4 16 = Ok ()"
  by (simp_all add: check_request_def is_power_of_two_def MAX_ALIGN_def upt_rec)

lemma demo_carve:
  "slab_len p = 64 \<Longrightarrow> bump p = 0 \<Longrightarrow> carve (slab_len p) 8 16 (bump p) = (8, Ok (0, 8))"
  "slab_len p = 64 \<Longrightarrow> bump p = 8 \<Longrightarrow> carve (slab_len p) 4 16 (bump p) = (20, Ok (16, 20))"
  by (simp_all add: carve_def cas_atomic_def carve_body_def checked_add_def)

definition demo_shared :: pool_world where
  "demo_shared = (let p = fst (allocate demo_pool 8 16)
     in \<lparr>pool = fst (allocate p 4 16), pool_calls = {#}, handed = {#demo_second, demo_region#}\<rparr>)"

lemma demo_allocate:
  "allocate demo_pool 8 16 = (demo_pool\<lparr>bump := 8, live := 1, issued_total := 8, carved_high_water := 8\<rparr>, Ok demo_region)"
  using demo_carve(1) [of demo_pool]
  by (simp add: allocate_def demo_request demo_pool_def zero_recycled_def region_end_def saturating_add_def)

lemma demo_shared_reach: "pool_reach demo_backing 64 demo_shared"
proof -
  let ?p = "demo_pool\<lparr>bump := 8, live := 1, issued_total := 8, carved_high_water := 8\<rparr>"
  have "pool_step\<^sup>*\<^sup>* (pool_start demo_pool) \<lparr>pool = ?p, pool_calls = {#}, handed = {#demo_region#}\<rparr>"
    using allocate_run [of "pool_start demo_pool"] demo_allocate by (simp add: pool_start_def)
  moreover obtain q where q: "allocate ?p 4 16 = (q, Ok demo_second)"
    using demo_carve(2) [of ?p] by (simp add: allocate_def demo_request demo_pool_def Let_def)
  then have "pool_step\<^sup>*\<^sup>* \<lparr>pool = ?p, pool_calls = {#}, handed = {#demo_region#}\<rparr> demo_shared"
    using allocate_run [of "\<lparr>pool = ?p, pool_calls = {#}, handed = {#demo_region#}\<rparr>"]
    by (simp add: demo_shared_def demo_allocate)
  ultimately show ?thesis using demo_new by (blast intro: rtranclp_trans)
qed

section \<open>Correctness\<close>

text \<open>
  C11: regions of the pool never overlap. Under every interleaving of allocations, releases,
  resets and writes of the owners, two regions that are carved and not released have no byte in
  common, none is empty, and all lie inside the slab.
\<close>

theorem pool_regions_disjoint:
  assumes "pool_reach backing capacity w"
    and "image_mset call_region (pool_calls w) + handed w = add_mset a (add_mset b R)"
  shows "region a \<inter> region b = {} \<and> region a \<noteq> {} \<and> region a \<subseteq> {..<unat (slab_len (pool w))}"
proof -
  have ok: "regions_ok (add_mset a (add_mset b R)) (bump (pool w)) (slab_len (pool w))"
    using pool_reach_ok [OF assms(1)] assms(2) by (simp add: pool_ok_def regions_def)
  have "i \<notin> region b" if "i \<in> region a" for i
  proof
    assume "i \<in> region b"
    with that have "2 \<le> cover (add_mset a (add_mset b R)) i" by simp
    moreover have "cover (add_mset a (add_mset b R)) i \<le> 1" using ok unfolding regions_ok_def by blast
    ultimately show False by linarith
  qed
  with ok show ?thesis by (fastforce simp: regions_ok_def region_def word_le_nat_alt)
qed

theorem pool_regions_disjoint_witness:
  "handed demo_shared = {#demo_second, demo_region#} \<and> region demo_second \<inter> region demo_region = {}"
  using pool_regions_disjoint [OF demo_shared_reach, of demo_second demo_region "{#}"]
  by (simp add: demo_shared_def Let_def)

text \<open>
  C10: a region is zero when it is handed out. Only the part below the high-water mark is cleared,
  with a mark that other calls may raise meanwhile, and owners write to their regions at any
  time; still no tenant ever receives a byte that another tenant wrote before a reset.
\<close>

theorem pool_handout_zeroed:
  assumes "pool_reach backing capacity w" and "pool_step w w'" and "handed w' = add_mset a (handed w)"
  shows "\<forall>i \<in> region a. slab (pool w') i = 0"
proof -
  have c: "clean_ok w" using pool_reach_ok [OF assms(1)] by (simp add: pool_ok_def)
  from assms(2) show ?thesis
  proof cases
    case (hand_out b m)
    then have "b = a" using assms(3) by simp
    with c hand_out show ?thesis by (simp add: clean_ok_def)
  next
    case (release b m)
    then have "size (handed w') < size (handed w)" by simp
    with assms(3) show ?thesis by simp
  qed (use assms(3) in auto)
qed

text \<open>The pool after a tenant wrote 7 to byte 3 of its region and was torn down.\<close>

definition demo_dirty :: unified_memory_pool where
  "demo_dirty = demo_pool\<lparr>slab := (\<lambda>_. 0)(3 := 7), issued_total := 8, carved_high_water := 8\<rparr>"

lemma demo_dirty_reach: "pool_reach demo_backing 64 (pool_start demo_dirty)"
proof -
  let ?p = "demo_pool\<lparr>bump := 8, live := 1, issued_total := 8, carved_high_water := 8\<rparr>"
  let ?q = "?p\<lparr>slab := (\<lambda>_. 0)(3 := 7)\<rparr>"
  let ?w = "\<lambda>p. \<lparr>pool = p, pool_calls = {#}, handed = {#demo_region#}\<rparr>"
  have "pool_step\<^sup>*\<^sup>* (pool_start demo_pool) (?w ?p)"
    using allocate_run [of "pool_start demo_pool"] demo_allocate by (simp add: pool_start_def)
  also have "pool_step (?w ?p) (?w ?q)"
    using owner_writes [of demo_region "?w ?p" 3 7] by (simp add: region_def demo_pool_def)
  also have "pool_step (?w ?q) (pool_start (pool_release ?q))"
    using release [of "?w ?q" demo_region "{#}"] by (simp add: pool_start_def)
  also have "pool_step (pool_start (pool_release ?q)) (pool_start demo_dirty)"
    using reset [of "pool_start (pool_release ?q)"]
    by (simp add: pool_start_def pool_release_def saturating_sub_def pool_reset_def demo_dirty_def demo_pool_def)
  finally show ?thesis using demo_new by blast
qed

theorem pool_handout_zeroed_witness:
  "slab demo_dirty 3 = 7 \<and> snd (allocate demo_dirty 8 16) = Ok demo_region
   \<and> slab (fst (allocate demo_dirty 8 16)) 3 = 0"
proof -
  obtain p where p: "allocate demo_dirty 8 16 = (p, Ok demo_region)"
    using demo_carve(1) [of demo_dirty]
    by (simp add: allocate_def demo_request demo_dirty_def demo_pool_def Let_def)
  obtain v where v: "pool_step\<^sup>*\<^sup>* (pool_start demo_dirty) v" "handed v = {#}"
    "pool_step v ((pool_start demo_dirty)\<lparr>pool := p, handed := {#demo_region#}\<rparr>)"
    using allocate_steps [of "pool_start demo_dirty" 8 16 p demo_region] p by (auto simp: pool_start_def)
  have "pool_reach demo_backing 64 v" using demo_dirty_reach v(1) by (blast intro: rtranclp_trans)
  from pool_handout_zeroed [OF this v(3), of demo_region] have "slab p 3 = 0"
    using v(2) by (simp add: region_def)
  with p show ?thesis by (simp add: demo_dirty_def)
qed

lemma carve_fits:
  assumes "check_request n align = Ok ()"
    and "(unat current + unat align - 1) div unat align * unat align + unat n \<le> unat len"
  shows "\<exists>b r. carve_body len (n, align) current = Commit b r"
proof -
  obtain k where k: "k < 64" "align = 2 ^ k" using assms(1) power_of_two_cases by (auto simp: check_request_Ok)
  have ua: "unat align = 2 ^ k" using k by (simp add: unat_two_power)
  then have a1: "unat (align - 1) = unat align - 1" by (simp add: unat_minus_one word_neq_0_conv word_less_nat_alt)
  let ?v = "unat current + unat align - 1"
  have "?v < 2 ^ 64"
  proof (rule ccontr)
    assume "\<not> ?v < 2 ^ 64"
    then have "2 ^ 64 div 2 ^ k \<le> ?v div 2 ^ k" by (intro div_le_mono) simp
    moreover have "(2 :: nat) ^ 64 div 2 ^ k * 2 ^ k = 2 ^ 64"
      by (rule dvd_div_mult_self) (rule le_imp_power_dvd, use k(1) in simp)
    ultimately have "2 ^ 64 \<le> ?v div 2 ^ k * 2 ^ k" by (metis mult_le_mono1)
    then show False using assms(2) unat_less_pow [of len] by (simp add: ua)
  qed
  then obtain v where v: "checked_add current (align - 1) = Some v" "unat v = ?v"
    using a1 ua by (auto simp: checked_add_def unat_add_nowrap)
  have al: "unat (v AND NOT (align - 1)) = ?v div unat align * unat align"
    using unat_align_down [OF k(1), of v] k by (simp add: v(2) unat_two_power minus_mod_eq_mult_div mult.commute)
  then obtain b where b: "checked_add (v AND NOT (align - 1)) n = Some b" "unat b = ?v div unat align * unat align + unat n"
    using assms(2) unat_less_pow [of len] by (auto simp: checked_add_def unat_add_nowrap)
  with v assms(2) show ?thesis by (simp add: carve_body_Commit word_le_nat_alt)
qed

text \<open>
  What one allocation returns. An accepted request gets the first multiple of its alignment
  at or after the bump pointer if it fits into the slab, and is refused without any change
  otherwise; the call is a run of the interleaved model, so everything shown there holds of it.
\<close>

theorem allocate_spec:
  fixes p :: unified_memory_pool
  assumes "check_request n align = Ok ()"
  defines "start \<equiv> (unat (bump p) + unat align - 1) div unat align * unat align"
  shows "if start + unat n \<le> unat (slab_len p)
      then \<exists>p' a. allocate p n align = (p', Ok a) \<and> unat (alloc_offset a) = start \<and> alloc_size a = n
             \<and> unat (bump p') = start + unat n
             \<and> (\<forall>w. pool w = p \<longrightarrow> pool_step\<^sup>*\<^sup>* w (w\<lparr>pool := p', handed := add_mset a (handed w)\<rparr>))
      else \<exists>e. allocate p n align = (p, Err e)"
proof (cases "start + unat n \<le> unat (slab_len p)")
  case True
  then obtain b r where c: "carve_body (slab_len p) (n, align) (bump p) = Commit b r"
    using carve_fits [OF assms(1), of "bump p" "slab_len p"] start_def by auto
  then obtain aligned where r: "carve (slab_len p) n align (bump p) = (b, Ok (aligned, b))"
    by (auto simp: carve_body_Commit carve_def cas_atomic_def)
  let ?a = "\<lparr>alloc_offset = aligned, alloc_size = n\<rparr>"
  obtain p' where p': "allocate p n align = (p', Ok ?a)" "bump p' = b"
    using r assms(1) by (simp add: allocate_def Let_def)
  moreover have "unat aligned = start" "unat b = start + unat n"
    using carve_Ok [OF assms(1) r] by (simp_all add: start_def)
  moreover have "pool_step\<^sup>*\<^sup>* w (w\<lparr>pool := p', handed := add_mset ?a (handed w)\<rparr>)" if "pool w = p" for w
    using that p'(1) by (intro allocate_run) simp
  ultimately show ?thesis
    unfolding if_P [OF True] by (intro exI [of _ p'] exI [of _ ?a]) simp
next
  case False
  have "snd (carve (slab_len p) n align (bump p)) \<noteq> Ok (aligned, e)" for aligned e
  proof
    assume "snd (carve (slab_len p) n align (bump p)) = Ok (aligned, e)"
    then obtain b where "carve (slab_len p) n align (bump p) = (b, Ok (aligned, e))"
      by (cases "carve (slab_len p) n align (bump p)") auto
    from carve_Ok [OF assms(1) this] False show False by (simp add: start_def word_le_nat_alt)
  qed
  then obtain e where "snd (carve (slab_len p) n align (bump p)) = Err e"
    by (cases "snd (carve (slab_len p) n align (bump p))") auto
  then have "allocate p n align = (p, Err e)"
    using assms(1) by (cases "carve (slab_len p) n align (bump p)") (auto simp: allocate_def)
  with False show ?thesis by simp
qed

theorem allocate_spec_witness:
  "\<exists>p' a. allocate (demo_pool\<lparr>bump := 8\<rparr>) 4 16 = (p', Ok a) \<and> unat (alloc_offset a) = 16"
  using allocate_spec [OF demo_request(2), of "demo_pool\<lparr>bump := 8\<rparr>"] by (auto simp: demo_pool_def)

end
