(* ===== verification/Rust_Str.thy ===== *)
theory Rust_Str
  imports Core_Error
begin

text \<open>
  The functions of Rust's \<open>str\<close> that the text formats of the program use, on ASCII text:
  \<open>trim\<close>, \<open>split\<close>, \<open>split_once\<close>, \<open>starts_with\<close> and \<open>parse::<u64>\<close>, with the laws that relate
  splitting to joining and parsing to printing.
\<close>

section \<open>Functions\<close>

text \<open>The ASCII characters with the property \<open>White_Space\<close>.\<close>

definition is_whitespace :: "char \<Rightarrow> bool" where
  "is_whitespace c \<longleftrightarrow> c \<in> {CHR 0x09, CHR 0x0A, CHR 0x0B, CHR 0x0C, CHR 0x0D, CHR 0x20}"

definition trim :: "string \<Rightarrow> string" where
  "trim s = trim_end_matches is_whitespace (trim_start_matches is_whitespace s)"

fun split_on :: "char \<Rightarrow> string \<Rightarrow> string list" where
  "split_on c [] = [[]]"
| "split_on c (x # xs) =
     (if x = c then [] # split_on c xs
      else case split_on c xs of [] \<Rightarrow> [[x]] | w # ws \<Rightarrow> (x # w) # ws)"

definition split_once :: "char \<Rightarrow> string \<Rightarrow> (string \<times> string) option" where
  "split_once c s = (if c \<in> set s then Some (takeWhile (\<lambda>x. x \<noteq> c) s, tl (dropWhile (\<lambda>x. x \<noteq> c) s)) else None)"

definition starts_with :: "string \<Rightarrow> string \<Rightarrow> bool" where
  "starts_with p s \<longleftrightarrow> take (length p) s = p"

text \<open>\<open>u64::from_str\<close>: an optional plus sign, then digits whose value fits.\<close>

definition parse_u64 :: "string \<Rightarrow> u64 option" where
  "parse_u64 s =
     (let ds = (if starts_with ''+'' s then drop 1 s else s)
      in if ds = [] \<or> \<not> list_all is_ascii_digit ds then None
         else if read_nat ds < 2 ^ 64 then Some (of_nat (read_nat ds)) else None)"

fun join :: "char \<Rightarrow> string list \<Rightarrow> string" where
  "join c [] = []"
| "join c [w] = w"
| "join c (w # v # ws) = w @ c # join c (v # ws)"

section \<open>Laws\<close>

lemma split_on_no_sep: "c \<notin> set s \<Longrightarrow> split_on c s = [s]"
  by (induction s) auto

lemma split_on_append: "c \<notin> set w \<Longrightarrow> split_on c (w @ c # s) = w # split_on c s"
  by (induction w) auto

lemma split_join: "ws \<noteq> [] \<Longrightarrow> \<forall>w \<in> set ws. c \<notin> set w \<Longrightarrow> split_on c (join c ws) = ws"
  by (induction c ws rule: join.induct) (simp_all add: split_on_no_sep split_on_append)

lemma join_Cons: "ws \<noteq> [] \<Longrightarrow> join c (w # ws) = w @ c # join c ws"
  by (cases ws) simp_all

lemma join_append: "vs \<noteq> [] \<Longrightarrow> ws \<noteq> [] \<Longrightarrow> join c (vs @ ws) = join c vs @ c # join c ws"
  by (induction c vs rule: join.induct) (simp_all add: join_Cons)

lemma join_snoc: "vs \<noteq> [] \<Longrightarrow> join c (vs @ [w]) = join c vs @ c # w"
  by (simp add: join_append)

lemma split_once_append: "c \<notin> set a \<Longrightarrow> split_once c (a @ c # b) = Some (a, b)"
proof -
  assume "c \<notin> set a"
  then have "takeWhile (\<lambda>x. x \<noteq> c) (a @ c # b) = a" "dropWhile (\<lambda>x. x \<noteq> c) (a @ c # b) = c # b"
    by (induction a) auto
  then show ?thesis by (simp add: split_once_def)
qed

lemma split_once_None_iff: "split_once c s = None \<longleftrightarrow> c \<notin> set s"
  by (simp add: split_once_def)

lemma split_once_Some: "split_once c s = Some (a, b) \<longleftrightarrow> s = a @ c # b \<and> c \<notin> set a"
proof
  assume *: "split_once c s = Some (a, b)"
  then have "c \<in> set s" by (simp add: split_once_def split: if_splits)
  then obtain a' b' where s: "s = a' @ c # b'" "c \<notin> set a'" using split_list_first by fastforce
  with * split_once_append [OF s(2)] show "s = a @ c # b \<and> c \<notin> set a" by simp
qed (simp add: split_once_append)

text \<open>Text without whitespace at its ends.\<close>

definition trimmed :: "string \<Rightarrow> bool" where
  "trimmed s \<longleftrightarrow> s = [] \<or> \<not> is_whitespace (hd s) \<and> \<not> is_whitespace (last s)"

lemma trim_trimmed: "trimmed s \<Longrightarrow> trim s = s"
proof (cases "s = []")
  case False
  assume "trimmed s"
  with False have h: "\<not> is_whitespace (hd s)" and l: "\<not> is_whitespace (hd (rev s))"
    by (simp_all add: trimmed_def hd_rev)
  have "dropWhile is_whitespace xs = xs" if "xs \<noteq> []" "\<not> is_whitespace (hd xs)" for xs
    using that by (cases xs) simp_all
  then show ?thesis using False h l by (simp add: trim_def trim_start_matches_def trim_end_matches_def)
qed (simp add: trim_def trim_start_matches_def trim_end_matches_def)

lemma trim_ne: "s \<noteq> [] \<Longrightarrow> \<not> is_whitespace (hd s) \<Longrightarrow> trim s \<noteq> []"
proof -
  assume *: "s \<noteq> []" "\<not> is_whitespace (hd s)"
  then have "dropWhile is_whitespace s = s" by (cases s) simp_all
  moreover have "hd s \<in> set (rev s)" using *(1) by simp
  ultimately show ?thesis using *(2) by (auto simp: trim_def trim_start_matches_def trim_end_matches_def dropWhile_eq_Nil_conv)
qed

lemma show_nat_ne [simp]: "show_nat n \<noteq> []"
  by (simp add: show_nat.simps [of n])

lemma digit_chars: "list_all (\<lambda>k. is_ascii_digit (char_of (48 + k :: nat))) [0..<10]"
  by code_simp

lemma show_nat_digits: "list_all is_ascii_digit (show_nat n)"
proof (induction n rule: show_nat.induct)
  case (1 n)
  have d: "is_ascii_digit (char_of (48 + k))" if "k < 10" for k :: nat
    using digit_chars that by (simp only: list_all_iff set_upt) simp
  show ?case
  proof (cases "n < 10")
    case True
    then show ?thesis by (simp add: show_nat.simps [of n] d)
  next
    case False
    with 1 show ?thesis by (simp add: show_nat.simps [of n] d)
  qed
qed

lemma parse_show_u64: "parse_u64 (show_u64 w) = Some w"
proof -
  have "\<not> starts_with ''+'' (show_u64 w)"
    using show_nat_digits [of "unat w"]
    by (cases "show_nat (unat w)") (auto simp: starts_with_def is_ascii_digit_def)
  moreover have "unat w < 2 ^ 64" using unat_less_pow [of w] by simp
  ultimately show ?thesis by (simp add: parse_u64_def Let_def show_nat_digits of_nat_unat)
qed

lemma digits_not_in: "c \<notin> set ''0123456789'' \<Longrightarrow> c \<notin> set (show_nat n)"
  using show_nat_digits [of n] by (auto simp: list_all_iff is_ascii_digit_def)

lemma digit_not_whitespace: "is_ascii_digit c \<Longrightarrow> \<not> is_whitespace c"
  unfolding is_ascii_digit_def is_whitespace_def by (simp, elim disjE; simp)

lemma show_nat_trimmed: "trimmed (show_nat n)"
proof -
  have "hd (show_nat n) \<in> set (show_nat n)" "last (show_nat n) \<in> set (show_nat n)" by simp_all
  then have "is_ascii_digit (hd (show_nat n))" "is_ascii_digit (last (show_nat n))"
    using show_nat_digits [of n] by (auto simp: list_all_iff)
  then show ?thesis by (simp add: trimmed_def digit_not_whitespace)
qed

end
