(* ===== verification/Token_Scope.thy ===== *)
theory Token_Scope
  imports Rust_Str
begin

text \<open>
  Scoped bearer tokens, \<^verbatim>\<open>crates/tensor-wasm-api/src/token_scope.rs\<close>: the scopes, the parser
  of one entry, and the parser of the \<open>TENSOR_WASM_API_TOKENS\<close> list with its regrouping of
  comma-separated tenant ids. The text is ASCII. A hash set is a set, a hash map a map.
\<close>

section \<open>Model\<close>

datatype tenant_scope = AllTenants | TenantSet "tenant_id set"

definition allows :: "tenant_scope \<Rightarrow> tenant_id \<Rightarrow> bool" where
  "allows sc t = (case sc of AllTenants \<Rightarrow> True | TenantSet s \<Rightarrow> t \<in> s)"

definition is_all :: "tenant_scope \<Rightarrow> bool" where
  "is_all sc = (case sc of AllTenants \<Rightarrow> True | TenantSet s \<Rightarrow> False)"

record token_scope =
  scope_tenants :: tenant_scope

definition scope_all :: token_scope where
  "scope_all = \<lparr>scope_tenants = AllTenants\<rparr>"

definition from_tenants :: "tenant_id list \<Rightarrow> token_scope" where
  "from_tenants ts = \<lparr>scope_tenants = TenantSet (set ts)\<rparr>"

datatype scope_parse_error =
    EmptyEntry
  | MissingBearer
  | EmptyTenantList
  | InvalidTenant string
  | WildcardMixedWithIds
  | UnknownKey string

record parsed_tokens =
  token_scopes :: "string \<rightharpoonup> token_scope"
  deprecated_count :: nat

text \<open>The loop over the tenant list.\<close>

fun parse_tenants :: "bool \<Rightarrow> tenant_id set \<Rightarrow> string list \<Rightarrow> (scope_parse_error, bool \<times> tenant_id set) result" where
  "parse_tenants saw_wildcard ids [] = Ok (saw_wildcard, ids)"
| "parse_tenants saw_wildcard ids (raw # rest) =
     (let frag = trim raw
      in if frag = [] then Err (InvalidTenant frag)
         else if frag = ''*'' then parse_tenants True ids rest
         else case parse_u64 frag of
                Some v \<Rightarrow> parse_tenants saw_wildcard (insert v ids) rest
              | None \<Rightarrow> Err (InvalidTenant frag))"

definition parse_scope :: "string \<Rightarrow> (scope_parse_error, token_scope) result" where
  "parse_scope rest =
     (case split_once CHR ''='' rest of
        None \<Rightarrow> Err (UnknownKey rest)
      | Some (key, v) \<Rightarrow>
          if key \<noteq> ''tenant'' then Err (UnknownKey key)
          else if trim v = [] then Err EmptyTenantList
          else (case parse_tenants False {} (split_on CHR '','' (trim v)) of
                  Inl e \<Rightarrow> Err e
                | Inr (saw_wildcard, ids) \<Rightarrow>
                    if saw_wildcard \<and> ids \<noteq> {} then Err WildcardMixedWithIds
                    else Ok (if saw_wildcard then scope_all else \<lparr>scope_tenants = TenantSet ids\<rparr>)))"

definition parse_token_entry :: "string \<Rightarrow> (scope_parse_error, string \<times> token_scope) result" where
  "parse_token_entry s =
     (let trimmed = trim s
      in if trimmed = [] then Err EmptyEntry
         else case split_once CHR '':'' trimmed of
                None \<Rightarrow> Ok (trimmed, scope_all)
              | Some (bearer, rest) \<Rightarrow>
                  if trim bearer = [] then Err MissingBearer
                  else case parse_scope (trim rest) of
                         Inl e \<Rightarrow> Err e
                       | Inr sc \<Rightarrow> Ok (trim bearer, sc))"

text \<open>Regrouping: the finished entries, the entry under construction, whether its tenant list is open.\<close>

definition flush :: "string list \<Rightarrow> string \<Rightarrow> string list" where
  "flush entries current = (if current \<noteq> [] then entries @ [current] else entries)"

definition continues :: "string \<Rightarrow> bool" where
  "continues s \<longleftrightarrow> s = ''*'' \<or> parse_u64 s \<noteq> None"

definition opens_list :: "string \<Rightarrow> bool" where
  "opens_list s \<longleftrightarrow> CHR '':'' \<in> set s
     \<and> (case split_once CHR '':'' s of None \<Rightarrow> False | Some (_, rest) \<Rightarrow> starts_with ''tenant='' (trim rest))"

definition glue :: "string list \<times> string \<times> bool \<Rightarrow> string \<Rightarrow> string list \<times> string \<times> bool" where
  "glue = (\<lambda>(entries, current, in_tenant_list) frag.
     let trimmed = trim frag
     in if trimmed = [] then (flush entries current, [], False)
        else if in_tenant_list \<and> CHR '':'' \<notin> set trimmed \<and> continues trimmed
        then (entries, current @ '','' @ trimmed, in_tenant_list)
        else (flush entries current, trimmed, opens_list trimmed))"

definition group_entries :: "string \<Rightarrow> string list" where
  "group_entries env =
     (case foldl glue ([], [], False) (split_on CHR '','' env) of (entries, current, _) \<Rightarrow> flush entries current)"

definition accept_entry :: "parsed_tokens \<Rightarrow> string \<Rightarrow> parsed_tokens" where
  "accept_entry out entry =
     (case parse_token_entry entry of
        Inl _ \<Rightarrow> out
      | Inr (bearer, sc) \<Rightarrow>
          \<lparr>token_scopes = (token_scopes out)(bearer \<mapsto> sc),
           deprecated_count = (if CHR '':'' \<notin> set entry then Suc (deprecated_count out) else deprecated_count out)\<rparr>)"

definition parsed_default :: parsed_tokens where
  "parsed_default = \<lparr>token_scopes = Map.empty, deprecated_count = 0\<rparr>"

definition parse_tokens_env :: "string \<Rightarrow> parsed_tokens" where
  "parse_tokens_env env =
     (if trim env = [] then parsed_default else foldl accept_entry parsed_default (group_entries env))"

section \<open>One entry\<close>

text \<open>The tenant list read: the ids, and whether it had a wildcard.\<close>

lemma parse_tenants_Ok:
  "parse_tenants w ids frags = Ok (w', ids') \<longleftrightarrow>
     (\<forall>f \<in> set frags. trim f = ''*'' \<or> (trim f \<noteq> [] \<and> parse_u64 (trim f) \<noteq> None))
   \<and> w' = (w \<or> (\<exists>f \<in> set frags. trim f = ''*''))
   \<and> ids' = ids \<union> {v. \<exists>f \<in> set frags. trim f \<noteq> ''*'' \<and> parse_u64 (trim f) = Some v}"
proof (induction w ids frags rule: parse_tenants.induct)
  case (2 w ids raw rest)
  show ?case
  proof (cases "trim raw = ''*''")
    case True
    with "2.IH"(1) [of "trim raw"] show ?thesis by auto
  next
    case False
    show ?thesis
    proof (cases "parse_u64 (trim raw)")
      case None
      with False show ?thesis by (auto simp: Let_def)
    next
      case (Some v)
      with False "2.IH"(2) [of "trim raw" v] show ?thesis by (cases "trim raw = []") (auto simp: Let_def)
    qed
  qed
qed auto

lemma split_on_ne [simp]: "split_on c s \<noteq> []"
  by (cases s) (auto split: list.split)

lemma parse_u64_special [simp]: "parse_u64 ''*'' = None" "parse_u64 [] = None"
  by (simp_all add: parse_u64_def starts_with_def is_ascii_digit_def)

definition list_scope :: "string list \<Rightarrow> token_scope \<Rightarrow> bool" where
  "list_scope frags sc \<longleftrightarrow>
     (if \<forall>f \<in> set frags. trim f = ''*'' then sc = scope_all
      else (\<forall>f \<in> set frags. trim f \<noteq> ''*'' \<and> parse_u64 (trim f) \<noteq> None)
        \<and> sc = \<lparr>scope_tenants = TenantSet {t. \<exists>f \<in> set frags. parse_u64 (trim f) = Some t}\<rparr>)"

definition close_list :: "(scope_parse_error, bool \<times> tenant_id set) result \<Rightarrow> (scope_parse_error, token_scope) result" where
  "close_list r = (case r of
       Inl e \<Rightarrow> Err e
     | Inr (saw_wildcard, ids) \<Rightarrow>
         if saw_wildcard \<and> ids \<noteq> {} then Err WildcardMixedWithIds
         else Ok (if saw_wildcard then scope_all else \<lparr>scope_tenants = TenantSet ids\<rparr>))"

lemma close_list_Ok:
  "close_list r = Ok sc \<longleftrightarrow> (\<exists>w ids. r = Ok (w, ids) \<and> \<not> (w \<and> ids \<noteq> {})
     \<and> sc = (if w then scope_all else \<lparr>scope_tenants = TenantSet ids\<rparr>))"
  by (cases r) (auto simp: close_list_def split: prod.splits if_splits)

lemma parse_tenants_scope:
  assumes "frags \<noteq> []"
  shows "close_list (parse_tenants False {} frags) = Ok sc \<longleftrightarrow> list_scope frags sc"
proof -
  let ?star = "\<lambda>f. trim f = ''*''" and ?ids = "{t. \<exists>f \<in> set frags. parse_u64 (trim f) = Some t}"
  have ids: "{v. \<exists>f \<in> set frags. \<not> ?star f \<and> parse_u64 (trim f) = Some v} = ?ids" by force
  have ok: "parse_tenants False {} frags = Ok (w, i) \<longleftrightarrow>
      (\<forall>f \<in> set frags. ?star f \<or> parse_u64 (trim f) \<noteq> None) \<and> w = (\<exists>f \<in> set frags. ?star f) \<and> i = ?ids" for w i
    unfolding parse_tenants_Ok using ids by fastforce
  obtain f where f: "f \<in> set frags" using assms by (cases frags) auto
  show ?thesis
  proof (cases "\<forall>f \<in> set frags. ?star f")
    case True
    then have "?ids = {}" by auto
    with True f show ?thesis by (auto simp: close_list_Ok ok list_scope_def)
  next
    case False
    then obtain g where g: "g \<in> set frags" "\<not> ?star g" by blast
    show ?thesis
    proof (cases "\<exists>f \<in> set frags. ?star f")
      case True
      have "?ids \<noteq> {}" if "\<forall>f \<in> set frags. ?star f \<or> parse_u64 (trim f) \<noteq> None" using that g by blast
      then have "close_list (parse_tenants False {} frags) \<noteq> Ok sc"
        using True unfolding close_list_Ok ok by blast
      moreover have "\<not> list_scope frags sc" using True unfolding list_scope_def if_not_P [OF False] by blast
      ultimately show ?thesis by simp
    next
      case none: False
      then show ?thesis unfolding close_list_Ok ok list_scope_def if_not_P [OF False] by auto
    qed
  qed
qed

lemma parse_scope_Ok:
  "parse_scope rest = Ok sc \<longleftrightarrow>
     (\<exists>v. rest = ''tenant='' @ v \<and> trim v \<noteq> [] \<and> list_scope (split_on CHR '','' (trim v)) sc)"
proof (cases "split_once CHR ''='' rest")
  case None
  then have "rest \<noteq> ''tenant='' @ v" for v by (auto simp: split_once_None_iff)
  with None show ?thesis by (simp add: parse_scope_def)
next
  case (Some kv)
  obtain key v where kv: "kv = (key, v)" by fastforce
  then have rest: "rest = key @ CHR ''='' # v" "CHR ''='' \<notin> set key" using Some split_once_Some by auto
  have eq: "rest = ''tenant='' @ v' \<longleftrightarrow> key = ''tenant'' \<and> v' = v" for v'
    using split_once_append [of "CHR ''=''" "''tenant''" v'] Some kv rest by auto
  have "parse_scope rest = Ok sc \<longleftrightarrow> key = ''tenant'' \<and> trim v \<noteq> []
      \<and> close_list (parse_tenants False {} (split_on CHR '','' (trim v))) = Ok sc"
    by (simp add: parse_scope_def Some kv close_list_def)
  then show ?thesis unfolding eq parse_tenants_scope [OF split_on_ne] by auto
qed

text \<open>
  What an entry grants. An entry without a colon grants every tenant to the trimmed text. An
  entry with one is accepted only as \<open>bearer:tenant=list\<close>; it grants every tenant if and only
  if each element of the list is \<open>*\<close>, and otherwise each element is a number and it grants
  exactly those tenants. No malformed element is skipped and no mixture grants everything.
\<close>

theorem parse_token_entry_grants:
  "parse_token_entry s = Ok (bearer, sc) \<longleftrightarrow>
     bearer \<noteq> [] \<and>
     (if CHR '':'' \<notin> set (trim s) then bearer = trim s \<and> scope_tenants sc = AllTenants
      else \<exists>b rest v frags. trim s = b @ '':'' @ rest \<and> CHR '':'' \<notin> set b \<and> bearer = trim b
        \<and> trim rest = ''tenant='' @ v \<and> trim v \<noteq> [] \<and> frags = split_on CHR '','' (trim v)
        \<and> (if \<forall>f \<in> set frags. trim f = ''*'' then scope_tenants sc = AllTenants
           else (\<forall>f \<in> set frags. trim f \<noteq> ''*'' \<and> parse_u64 (trim f) \<noteq> None)
             \<and> scope_tenants sc = TenantSet {t. \<exists>f \<in> set frags. parse_u64 (trim f) = Some t}))"
proof -
  have sc: "list_scope frags sc \<longleftrightarrow>
      (if \<forall>f \<in> set frags. trim f = ''*'' then scope_tenants sc = AllTenants
       else (\<forall>f \<in> set frags. trim f \<noteq> ''*'' \<and> parse_u64 (trim f) \<noteq> None)
         \<and> scope_tenants sc = TenantSet {t. \<exists>f \<in> set frags. parse_u64 (trim f) = Some t})" for frags
    by (cases sc) (simp add: list_scope_def scope_all_def)
  show ?thesis
  proof (cases "split_once CHR '':'' (trim s)")
    case None
    then have "CHR '':'' \<notin> set (trim s)" by (simp add: split_once_None_iff)
    with None show ?thesis by (cases sc) (auto simp: parse_token_entry_def Let_def scope_all_def)
  next
    case (Some br)
    obtain b rest where br: "br = (b, rest)" by fastforce
    then have t: "trim s = b @ CHR '':'' # rest" "CHR '':'' \<notin> set b" using Some split_once_Some by auto
    have eq: "trim s = b' @ '':'' @ rest' \<and> CHR '':'' \<notin> set b' \<longleftrightarrow> b' = b \<and> rest' = rest" for b' rest'
      using split_once_Some [of "CHR '':''" "trim s" b' rest'] Some br by auto
    have ne: "trim s \<noteq> []" and colon: "\<not> CHR '':'' \<notin> set (trim s)" unfolding t(1) by simp_all
    have ex: "(\<exists>b' rest' v frags. trim s = b' @ '':'' @ rest' \<and> CHR '':'' \<notin> set b' \<and> Q b' rest' v frags)
        \<longleftrightarrow> (\<exists>v frags. Q b rest v frags)" for Q :: "string \<Rightarrow> string \<Rightarrow> string \<Rightarrow> string list \<Rightarrow> bool"
      by (simp only: conj_assoc [symmetric] eq) simp
    have "parse_token_entry s = (if trim b = [] then Err MissingBearer
        else case parse_scope (trim rest) of Inl e \<Rightarrow> Err e | Inr sc \<Rightarrow> Ok (trim b, sc))"
      unfolding parse_token_entry_def Let_def if_not_P [OF ne] Some br by simp
    then have "parse_token_entry s = Ok (bearer, sc) \<longleftrightarrow> bearer = trim b \<and> bearer \<noteq> [] \<and> parse_scope (trim rest) = Ok sc"
      by (simp split: sum.splits) blast
    then show ?thesis
      unfolding if_not_P [OF colon] ex parse_scope_Ok sc by blast
  qed
qed

theorem parse_token_entry_grants_witness:
  "parse_token_entry '' tok : tenant= 7,9'' = Ok (''tok'', \<lparr>scope_tenants = TenantSet {7, 9}\<rparr>)
   \<and> (\<exists>v. trim '' tenant= 7,9'' = ''tenant='' @ v
        \<and> TenantSet {7, 9} = TenantSet {t. \<exists>f \<in> set (split_on CHR '','' (trim v)). parse_u64 (trim f) = Some t})"
proof -
  let ?s = "'' tok : tenant= 7,9''" and ?sc = "\<lparr>scope_tenants = TenantSet {7, 9}\<rparr>"
  have split: "split_once CHR '':'' (trim ?s) = Some (''tok '', '' tenant= 7,9'')" by code_simp
  have t: "trim ?s = ''tok '' @ '':'' @ '' tenant= 7,9''" "CHR '':'' \<notin> set ''tok ''" "''tok'' = trim ''tok ''"
      "trim '' tenant= 7,9'' = ''tenant='' @ '' 7,9''" "trim '' 7,9'' \<noteq> []" "CHR '':'' \<in> set (trim ?s)"
    by code_simp+
  have f: "split_on CHR '','' (trim '' 7,9'') = [''7'', ''9'']" by code_simp
  have u: "parse_u64 (trim ''7'') = Some 7" "parse_u64 (trim ''9'') = Some 9" "trim ''7'' \<noteq> ''*''" "trim ''9'' \<noteq> ''*''"
    by (simp_all add: trim_trimmed trimmed_def is_whitespace_def parse_u64_def starts_with_def is_ascii_digit_def read_nat_def digit_val_def)
  have ids: "{t. \<exists>f \<in> set [''7'', ''9'']. parse_u64 (trim f) = Some t} = {7, 9}" by (auto simp: u)
  have fr: "if \<forall>f \<in> set [''7'', ''9'']. trim f = ''*'' then scope_tenants ?sc = AllTenants
      else (\<forall>f \<in> set [''7'', ''9'']. trim f \<noteq> ''*'' \<and> parse_u64 (trim f) \<noteq> None)
        \<and> scope_tenants ?sc = TenantSet {t. \<exists>f \<in> set [''7'', ''9'']. parse_u64 (trim f) = Some t}"
    unfolding ids using u by simp
  have nc: "\<not> CHR '':'' \<notin> set (trim ?s)" using t(6) by simp
  have "parse_token_entry ?s = Ok (''tok'', ?sc)"
    unfolding parse_token_entry_grants if_not_P [OF nc]
    by (intro conjI exI [of _ "''tok ''"] exI [of _ "'' tenant= 7,9''"] exI [of _ "'' 7,9''"] exI [of _ "[''7'', ''9'']"] t(1-5) f [symmetric] fr)
      simp
  with t(4) f ids show ?thesis by (intro conjI exI [of _ "'' 7,9''"]) simp_all
qed

section \<open>The list\<close>

text \<open>The entries an operator means, and how they are written.\<close>

datatype token_entry = Bare string | Wild string | Listed string "tenant_id list"

fun entry_bearer :: "token_entry \<Rightarrow> string" where
  "entry_bearer (Bare b) = b"
| "entry_bearer (Wild b) = b"
| "entry_bearer (Listed b ts) = b"

fun entry_scope :: "token_entry \<Rightarrow> token_scope" where
  "entry_scope (Listed b ts) = from_tenants ts"
| "entry_scope _ = scope_all"

fun entry_fragments :: "token_entry \<Rightarrow> string list" where
  "entry_fragments (Bare b) = [b]"
| "entry_fragments (Wild b) = [b @ '':tenant=*'']"
| "entry_fragments (Listed b ts) = (b @ '':tenant='' @ show_u64 (hd ts)) # map (\<lambda>t. show_u64 t) (tl ts)"

definition print_entry :: "token_entry \<Rightarrow> string" where
  "print_entry e = join CHR '','' (entry_fragments e)"

definition print_env :: "token_entry list \<Rightarrow> string" where
  "print_env es = join CHR '','' (map print_entry es)"

text \<open>
  A bearer is not empty, has no comma or colon, and no blanks around it; a bare one does not read
  as a tenant id or a wildcard.
\<close>

definition bearer_ok :: "string \<Rightarrow> bool" where
  "bearer_ok b \<longleftrightarrow> b \<noteq> [] \<and> CHR '','' \<notin> set b \<and> CHR '':'' \<notin> set b \<and> trimmed b"

fun entry_ok :: "token_entry \<Rightarrow> bool" where
  "entry_ok (Bare b) \<longleftrightarrow> bearer_ok b \<and> \<not> continues b"
| "entry_ok (Wild b) \<longleftrightarrow> bearer_ok b"
| "entry_ok (Listed b ts) \<longleftrightarrow> bearer_ok b \<and> ts \<noteq> []"

lemma entry_fragments_ne [simp]: "entry_fragments e \<noteq> []"
  by (cases e) simp_all

lemma comma_digits: "CHR '','' \<notin> set (show_nat n)" "CHR '':'' \<notin> set (show_nat n)"
  by (simp_all add: digits_not_in)

lemma fragments_no_comma: "entry_ok e \<Longrightarrow> f \<in> set (entry_fragments e) \<Longrightarrow> CHR '','' \<notin> set f"
  by (cases e) (auto simp: bearer_ok_def comma_digits)

lemma print_env_fragments: "es \<noteq> [] \<Longrightarrow> print_env es = join CHR '','' (concat (map entry_fragments es))"
  unfolding print_env_def
proof (induction es rule: list_nonempty_induct)
  case (cons e es)
  then have "concat (map entry_fragments es) \<noteq> []" by (cases es) simp_all
  with cons show ?case by (simp add: join_Cons join_append print_entry_def)
qed (simp add: print_entry_def)

lemma trimmed_append: "trimmed a \<Longrightarrow> trimmed b \<Longrightarrow> a \<noteq> [] \<Longrightarrow> b \<noteq> [] \<Longrightarrow> trimmed (a @ c @ b)"
  by (simp add: trimmed_def)

lemma opens_scoped:
  assumes "bearer_ok b" and "trimmed v" and "v \<noteq> []"
  shows "opens_list (b @ '':tenant='' @ v)" and "trimmed (b @ '':tenant='' @ v)"
proof -
  have t: "trimmed (''tenant='' @ v)" using assms(2,3) by (simp add: trimmed_def is_whitespace_def)
  have "split_once CHR '':'' (b @ '':tenant='' @ v) = Some (b, ''tenant='' @ v)"
    using split_once_append [of "CHR '':''" b "''tenant='' @ v"] assms(1) by (simp add: bearer_ok_def)
  then show "opens_list (b @ '':tenant='' @ v)"
    using trim_trimmed [OF t] by (simp add: opens_list_def starts_with_def)
  show "trimmed (b @ '':tenant='' @ v)" using assms by (intro trimmed_append) (simp_all add: bearer_ok_def)
qed

text \<open>One entry through the regrouping.\<close>

lemma glue_new:
  assumes "trimmed f" and "f \<noteq> []" and "CHR '':'' \<in> set f \<or> \<not> continues f"
  shows "glue (es, current, open) f = (flush es current, f, opens_list f)"
  using assms by (auto simp: glue_def Let_def trim_trimmed)

lemma glue_ids:
  "foldl glue (es, current, True) (map (\<lambda>t. show_u64 t) ts) = (es, join CHR '','' (current # map (\<lambda>t. show_u64 t) ts), True)"
proof (induction ts arbitrary: current)
  case (Cons t ts)
  have "glue (es, current, True) (show_u64 t) = (es, current @ '','' @ show_u64 t, True)"
    by (simp add: glue_def Let_def trim_trimmed show_nat_trimmed comma_digits continues_def parse_show_u64)
  with Cons show ?case by (cases ts) simp_all
qed simp

lemma glue_entry:
  assumes "entry_ok e"
  shows "\<exists>open. foldl glue (es, current, was_open) (entry_fragments e) = (flush es current, print_entry e, open)"
proof (cases e)
  case (Bare b)
  with assms show ?thesis by (simp add: glue_new bearer_ok_def print_entry_def)
next
  case (Wild b)
  have "trimmed ''*''" by (simp add: trimmed_def is_whitespace_def)
  then have "glue (es, current, was_open) (b @ '':tenant=*'') = (flush es current, b @ '':tenant=*'', True)"
    using assms Wild opens_scoped [of b "''*''"] by (subst glue_new) simp_all
  with Wild show ?thesis by (simp add: print_entry_def) blast
next
  case (Listed b ts)
  let ?f = "b @ '':tenant='' @ show_u64 (hd ts)"
  have "glue (es, current, was_open) ?f = (flush es current, ?f, True)"
    using assms Listed opens_scoped [of b "show_u64 (hd ts)"] by (subst glue_new) (simp_all add: show_nat_trimmed)
  with Listed show ?thesis by (simp add: glue_ids print_entry_def) blast
qed

lemma print_entry_ne: "entry_ok e \<Longrightarrow> print_entry e \<noteq> []"
  by (cases e; cases "tl (entry_fragments e)") (simp_all add: print_entry_def bearer_ok_def join_Cons)

lemma glue_entries:
  assumes "list_all entry_ok es"
  shows "\<exists>acc' current' open. foldl glue (acc, current, was_open) (concat (map entry_fragments es)) = (acc', current', open)
      \<and> flush acc' current' = flush acc current @ map print_entry es"
  using assms
proof (induction es arbitrary: acc current was_open)
  case (Cons e es)
  obtain o1 where g: "foldl glue (acc, current, was_open) (entry_fragments e) = (flush acc current, print_entry e, o1)"
    using glue_entry [of e acc current was_open] Cons.prems by auto
  have "flush (flush acc current) (print_entry e) = flush acc current @ [print_entry e]"
    using print_entry_ne [of e] Cons.prems by (simp add: flush_def)
  with Cons.IH [of "flush acc current" "print_entry e" o1] Cons.prems g show ?case by auto
qed simp

lemma group_print:
  assumes "list_all entry_ok es" and "es \<noteq> []"
  shows "group_entries (print_env es) = map print_entry es"
proof -
  have "concat (map entry_fragments es) \<noteq> []" using assms(2) by (cases es) simp_all
  moreover have "\<forall>f \<in> set (concat (map entry_fragments es)). CHR '','' \<notin> set f"
    using assms(1) fragments_no_comma by (auto simp: list_all_iff)
  ultimately have "split_on CHR '','' (print_env es) = concat (map entry_fragments es)"
    by (simp add: print_env_fragments [OF assms(2)] split_join)
  then show ?thesis
    using glue_entries [OF assms(1), of "[]" "[]" False] by (auto simp: group_entries_def flush_def)
qed

text \<open>One entry through its parser.\<close>

lemma parse_scope_tenant:
  assumes "trimmed v" and "v \<noteq> []" and "list_scope (split_on CHR '','' v) sc"
  shows "parse_scope (''tenant='' @ v) = Ok sc"
  unfolding parse_scope_Ok using assms trim_trimmed by (intro exI [of _ v]) simp

lemma parse_scoped_entry:
  assumes b: "bearer_ok b" and v: "trimmed v" "v \<noteq> []" and sc: "list_scope (split_on CHR '','' v) sc"
  shows "parse_token_entry (b @ '':tenant='' @ v) = Ok (b, sc)"
proof -
  let ?s = "b @ '':tenant='' @ v"
  have t: "trimmed (''tenant='' @ v)" using v by (simp add: trimmed_def is_whitespace_def)
  have "split_once CHR '':'' ?s = Some (b, ''tenant='' @ v)"
    using split_once_append [of "CHR '':''" b "''tenant='' @ v"] b by (simp add: bearer_ok_def)
  moreover have "trim ?s = ?s" using opens_scoped(2) [OF b v] by (rule trim_trimmed)
  moreover have "trim b = b" "b \<noteq> []" using b trim_trimmed by (simp_all add: bearer_ok_def)
  ultimately show ?thesis
    using trim_trimmed [OF t] parse_scope_tenant [OF v sc] by (simp add: parse_token_entry_def Let_def)
qed

lemma list_scope_ids:
  assumes "ts \<noteq> []"
  shows "list_scope (map (\<lambda>t. show_u64 t) ts) (from_tenants ts)"
proof -
  have t: "trim (show_u64 t) = show_u64 t" for t :: u64 by (simp add: trim_trimmed show_nat_trimmed)
  have ne: "show_u64 t \<noteq> ''*''" for t :: u64 using parse_show_u64 [of t] by auto
  have "{t. \<exists>f \<in> set (map (\<lambda>t. show_u64 t) ts). parse_u64 (trim f) = Some t} = set ts"
    by (auto simp: t parse_show_u64)
  with assms show ?thesis
    by (cases ts) (simp_all add: list_scope_def from_tenants_def t ne parse_show_u64)
qed

lemma join_ids_trimmed:
  "ts \<noteq> [] \<Longrightarrow> trimmed (join CHR '','' (map (\<lambda>t. show_u64 t) ts)) \<and> join CHR '','' (map (\<lambda>t. show_u64 t) ts) \<noteq> []"
proof (induction ts rule: list_nonempty_induct)
  case (cons t ts)
  then have "map (\<lambda>t. show_u64 t) ts \<noteq> []" by simp
  then show ?case using cons trimmed_append [of "show_u64 t" _ "'',''"] by (simp add: join_Cons show_nat_trimmed)
qed (simp add: show_nat_trimmed)

lemma print_listed:
  assumes "ts \<noteq> []"
  shows "print_entry (Listed b ts) = b @ '':tenant='' @ join CHR '','' (map (\<lambda>t. show_u64 t) ts)"
  using assms by (cases ts; cases "tl ts") (simp_all add: print_entry_def join_Cons)

lemma parse_print_entry:
  assumes "entry_ok e"
  shows "parse_token_entry (print_entry e) = Ok (entry_bearer e, entry_scope e)"
proof (cases e)
  case (Bare b)
  with assms show ?thesis
    by (simp add: print_entry_def parse_token_entry_def bearer_ok_def trim_trimmed Let_def split_once_def)
next
  case (Wild b)
  have t: "trimmed ''*''" by (simp add: trimmed_def is_whitespace_def)
  have "list_scope (split_on CHR '','' ''*'') scope_all" using trim_trimmed [OF t] by (simp add: list_scope_def)
  from parse_scoped_entry [OF _ t _ this] assms Wild show ?thesis by (simp add: print_entry_def)
next
  case (Listed b ts)
  let ?v = "join CHR '','' (map (\<lambda>t. show_u64 t) ts)"
  have ts: "ts \<noteq> []" and b: "bearer_ok b" using assms Listed by simp_all
  have "split_on CHR '','' ?v = map (\<lambda>t. show_u64 t) ts" using ts by (intro split_join) (auto simp: comma_digits)
  then have "list_scope (split_on CHR '','' ?v) (from_tenants ts)" using list_scope_ids [OF ts] by simp
  from parse_scoped_entry [OF b _ _ this] join_ids_trimmed [OF ts] print_listed [OF ts] Listed
  show ?thesis by simp
qed

definition is_bare :: "token_entry \<Rightarrow> bool" where
  "is_bare e = (case e of Bare _ \<Rightarrow> True | _ \<Rightarrow> False)"

lemma print_entry_colon: "entry_ok e \<Longrightarrow> CHR '':'' \<notin> set (print_entry e) \<longleftrightarrow> is_bare e"
  by (cases e; cases "tl (entry_fragments e)")
    (simp_all add: print_entry_def bearer_ok_def is_bare_def join_Cons)

lemma accept_entries:
  assumes "list_all entry_ok es"
  shows "foldl accept_entry out (map print_entry es) =
    \<lparr>token_scopes = token_scopes out ++ map_of (rev (map (\<lambda>e. (entry_bearer e, entry_scope e)) es)),
     deprecated_count = deprecated_count out + length (filter is_bare es)\<rparr>"
  using assms
proof (induction es arbitrary: out)
  case (Cons e es)
  then have "accept_entry out (print_entry e) =
      \<lparr>token_scopes = (token_scopes out)(entry_bearer e \<mapsto> entry_scope e),
       deprecated_count = (if is_bare e then Suc (deprecated_count out) else deprecated_count out)\<rparr>"
    by (simp add: accept_entry_def parse_print_entry print_entry_colon)
  with Cons show ?case by simp
qed simp

lemma print_env_blank:
  assumes "list_all entry_ok es" and "es \<noteq> []"
  shows "trim (print_env es) \<noteq> []"
proof -
  obtain e es' where es: "es = e # es'" using assms(2) by (cases es) auto
  obtain b r where b: "print_entry e = b @ r" "bearer_ok b"
  proof (cases e)
    case (Listed b ts)
    with assms(1) es that [of b] print_listed [of ts b] show ?thesis by auto
  qed (use assms(1) es that in \<open>auto simp: print_entry_def\<close>)
  obtain r' where "print_env es = b @ r'"
    using b(1) es by (cases es') (simp_all add: print_env_def)
  moreover have "hd (b @ r') = hd b" "\<not> is_whitespace (hd b)" "b \<noteq> []"
    using b(2) by (auto simp: bearer_ok_def trimmed_def)
  ultimately show ?thesis using trim_ne [of "print_env es"] by simp
qed

text \<open>
  C12: the token list reads back. Written out from well-formed entries (a bearer has no comma, colon
  or surrounding blanks, and a bare one does not read as a tenant id), the environment value
  parses to exactly those bearers with exactly those scopes, the last entry of a bearer winning,
  and counts the bare ones. The commas inside a tenant list and the commas between entries are
  told apart.
\<close>

theorem parse_print_tokens_env:
  assumes "list_all entry_ok es"
  shows "parse_tokens_env (print_env es) =
    \<lparr>token_scopes = map_of (rev (map (\<lambda>e. (entry_bearer e, entry_scope e)) es)),
     deprecated_count = length (filter is_bare es)\<rparr>"
proof -
  have "parse_tokens_env (print_env es) = foldl accept_entry parsed_default (map print_entry es)"
  proof (cases "es = []")
    case True
    then show ?thesis by (simp add: parse_tokens_env_def print_env_def trim_def trim_start_matches_def trim_end_matches_def)
  next
    case False
    then show ?thesis
      using print_env_blank [OF assms False] group_print [OF assms False] by (simp add: parse_tokens_env_def)
  qed
  then show ?thesis by (simp add: accept_entries [OF assms] parsed_default_def)
qed

text \<open>
  Two entries in one list. The second is a tenant id beyond 64 bits: the list parser would refuse it
  inside the first entry, the regrouping makes it a bearer of its own that may act for every tenant.
\<close>

theorem parse_print_tokens_env_witness:
  "print_env [Listed ''tok'' [1, 7], Bare ''18446744073709551616''] = ''tok:tenant=1,7,18446744073709551616''
   \<and> list_all entry_ok [Listed ''tok'' [1, 7], Bare ''18446744073709551616'']
   \<and> parse_tokens_env ''tok:tenant=1,7,18446744073709551616'' =
       \<lparr>token_scopes = [''tok'' \<mapsto> from_tenants [1, 7], ''18446744073709551616'' \<mapsto> scope_all], deprecated_count = 1\<rparr>"
proof -
  let ?es = "[Listed ''tok'' [1, 7], Bare ''18446744073709551616'']"
  have p: "print_env ?es = ''tok:tenant=1,7,18446744073709551616''" by code_simp
  have "trimmed ''tok''" "trimmed ''18446744073709551616''" "\<not> continues ''18446744073709551616''"
    by (simp_all add: trimmed_def is_whitespace_def continues_def parse_u64_def Let_def starts_with_def read_nat_def digit_val_def)
  then have ok: "list_all entry_ok ?es" by (simp add: bearer_ok_def)
  show ?thesis
    using parse_print_tokens_env [OF ok] p ok by (simp add: is_bare_def fun_upd_twist)
qed

end
