(* ===== verification/Gpu_Scheduler.thy ===== *)
theory Gpu_Scheduler
  imports Token_Bucket Gpu_Abi "HOL-Library.Multiset"
begin

text \<open>
  Admission of GPU work, \<^verbatim>\<open>crates/tensor-wasm-wasi-gpu/src/async_dispatch.rs\<close>, and the cooperative
  deadlines of \<^verbatim>\<open>src/scheduler.rs\<close> beside it. The semaphore is tokio's and a parameter. Every
  acquire operation is a program counter that moves by one access to shared state at a time, so
  concurrent calls, their cancellation and the clock interleave freely. Instants count
  nanoseconds.
\<close>

section \<open>Back-pressure\<close>

definition DEFAULT_MAX_CONCURRENT_GPU_OPS :: u64 where
  "DEFAULT_MAX_CONCURRENT_GPU_OPS = 256"

definition DEADLINE_NEAR_WINDOW :: u128 where
  "DEADLINE_NEAR_WINDOW = 50 * 1000000"

datatype back_pressure_error = Saturated | DeadlineNear | DeadlineElapsed

fun back_pressure_name :: "back_pressure_error \<Rightarrow> string" where
  "back_pressure_name Saturated = ''saturated''"
| "back_pressure_name DeadlineNear = ''deadline_near''"
| "back_pressure_name DeadlineElapsed = ''deadline_elapsed''"

fun back_pressure_to_abi :: "back_pressure_error \<Rightarrow> abi_error" where
  "back_pressure_to_abi Saturated = QuotaExceeded"
| "back_pressure_to_abi DeadlineNear = QuotaExceeded"
| "back_pressure_to_abi DeadlineElapsed = QuotaExceeded"

text \<open>The operations of the semaphore, and what its documentation says they do to the permits left.\<close>

record 's semaphore_ops =
  sem_new :: "u64 \<Rightarrow> 's"
  sem_take :: "'s \<Rightarrow> 's option"
  sem_give :: "'s \<Rightarrow> 's"

definition counts_permits :: "'s semaphore_ops \<Rightarrow> ('s \<Rightarrow> nat) \<Rightarrow> bool" where
  "counts_permits S avail \<longleftrightarrow>
     (\<forall>n. avail (sem_new S n) = unat n)
   \<and> (\<forall>s. case sem_take S s of None \<Rightarrow> avail s = 0 | Some s' \<Rightarrow> avail s = Suc (avail s'))
   \<and> (\<forall>s. avail (sem_give S s) = Suc (avail s))"

record 's back_pressure_inner =
  semaphore :: 's
  active :: u64
  max_concurrent :: u64

definition with_cap :: "'s semaphore_ops \<Rightarrow> u64 \<Rightarrow> 's back_pressure_inner" where
  "with_cap S cap = \<lparr>semaphore = sem_new S cap, active = 0, max_concurrent = cap\<rparr>"

definition check_deadline :: "instant option \<Rightarrow> instant \<Rightarrow> (back_pressure_error, unit) result" where
  "check_deadline deadline now =
     (case deadline of
        None \<Rightarrow> Ok ()
      | Some d \<Rightarrow>
          if now \<ge> d then Err DeadlineElapsed
          else if saturating_sub d now \<le> DEADLINE_NEAR_WINDOW then Err DeadlineNear
          else Ok ())"

text \<open>
  The acquire operations. Their accesses: the deadline check, the synchronous probe of the
  semaphore, the wait for a permit, the second deadline check, the count; then the caller holds
  the permit until it is dropped, which returns the slot first and lowers the count after.
\<close>

datatype acquire_kind = Acquire | AcquireWithDeadline | TryAcquireWithDeadline | AcquireBorrowed | TryAcquire

datatype acquire_pc = Entered | Probing | Waiting | Rechecking | Counting | Holding | Uncounting

record acquire_call =
  kind :: acquire_kind
  deadline :: "instant option"
  at_pc :: acquire_pc

definition deadline_aware :: "acquire_kind \<Rightarrow> bool" where
  "deadline_aware k \<longleftrightarrow> k \<in> {AcquireWithDeadline, TryAcquireWithDeadline, AcquireBorrowed}"

definition probes :: "acquire_kind \<Rightarrow> bool" where
  "probes k \<longleftrightarrow> k \<in> {TryAcquireWithDeadline, AcquireBorrowed, TryAcquire}"

text \<open>A probe that fails waits only in \<open>acquire_borrowed\<close>, and there only with a cap above zero.\<close>

definition waits_after_probe :: "acquire_kind \<Rightarrow> 's back_pressure_inner \<Rightarrow> bool" where
  "waits_after_probe k b \<longleftrightarrow> k = AcquireBorrowed \<and> max_concurrent b \<noteq> 0"

fun acquire_move ::
    "'s semaphore_ops \<Rightarrow> instant \<Rightarrow> acquire_kind \<Rightarrow> instant option \<Rightarrow> 's back_pressure_inner \<Rightarrow> acquire_pc
      \<Rightarrow> ('s back_pressure_inner \<times> acquire_pc) option" where
  "acquire_move S now k dl b Entered =
     (if deadline_aware k \<and> \<not> is_ok (check_deadline dl now) then None
      else Some (b, if probes k then Probing else Waiting))"
| "acquire_move S now k dl b Probing =
     (case sem_take S (semaphore b) of
        Some s \<Rightarrow> Some (b\<lparr>semaphore := s\<rparr>, Counting)
      | None \<Rightarrow> if waits_after_probe k b then Some (b, Waiting) else None)"
| "acquire_move S now k dl b Waiting =
     (case sem_take S (semaphore b) of
        Some s \<Rightarrow> Some (b\<lparr>semaphore := s\<rparr>, if deadline_aware k then Rechecking else Counting)
      | None \<Rightarrow> None)"
| "acquire_move S now k dl b Rechecking =
     (if is_ok (check_deadline dl now) then Some (b, Counting) else None)"
| "acquire_move S now k dl b Counting = Some (b\<lparr>active := active b + 1\<rparr>, Holding)"
| "acquire_move S now k dl b Holding = Some (b\<lparr>semaphore := sem_give S (semaphore b)\<rparr>, Uncounting)"
| "acquire_move S now k dl b Uncounting = None"

fun acquire_refuse ::
    "'s semaphore_ops \<Rightarrow> instant \<Rightarrow> acquire_kind \<Rightarrow> instant option \<Rightarrow> 's back_pressure_inner \<Rightarrow> acquire_pc
      \<Rightarrow> ('s back_pressure_inner \<times> back_pressure_error) option" where
  "acquire_refuse S now k dl b Entered =
     (case check_deadline dl now of Inl e \<Rightarrow> if deadline_aware k then Some (b, e) else None | Inr _ \<Rightarrow> None)"
| "acquire_refuse S now k dl b Probing =
     (if sem_take S (semaphore b) = None \<and> \<not> waits_after_probe k b then Some (b, Saturated) else None)"
| "acquire_refuse S now k dl b Waiting =
     (case dl of Some d \<Rightarrow> if deadline_aware k \<and> d \<le> now then Some (b, DeadlineElapsed) else None | None \<Rightarrow> None)"
| "acquire_refuse S now k dl b Rechecking =
     (case check_deadline dl now of Inl e \<Rightarrow> Some (b\<lparr>semaphore := sem_give S (semaphore b)\<rparr>, e) | Inr _ \<Rightarrow> None)"
| "acquire_refuse S now k dl b _ = None"

record 's bp_world =
  inner :: "'s back_pressure_inner"
  clock :: instant
  acquires :: "acquire_call multiset"

text \<open>
  One access of one call, and the runs in which time passes and calls arrive. A call is cancelled
  while it waits; when the semaphore had handed it a permit before it ran again, the permit goes back.
\<close>

inductive call_step :: "'s semaphore_ops \<Rightarrow> 's bp_world \<Rightarrow> 's bp_world \<Rightarrow> bool" for S where
  move: "acquires w = add_mset c m
    \<Longrightarrow> acquire_move S (clock w) (kind c) (deadline c) (inner w) (at_pc c) = Some (b, p)
    \<Longrightarrow> call_step S w (w\<lparr>inner := b, acquires := add_mset (c\<lparr>at_pc := p\<rparr>) m\<rparr>)"
| refuse: "acquires w = add_mset c m
    \<Longrightarrow> acquire_refuse S (clock w) (kind c) (deadline c) (inner w) (at_pc c) = Some (b, e)
    \<Longrightarrow> call_step S w (w\<lparr>inner := b, acquires := m\<rparr>)"
| finish: "acquires w = add_mset c m \<Longrightarrow> at_pc c = Uncounting
    \<Longrightarrow> call_step S w (w\<lparr>inner := (inner w)\<lparr>active := active (inner w) - 1\<rparr>, acquires := m\<rparr>)"

inductive bp_step :: "'s semaphore_ops \<Rightarrow> 's bp_world \<Rightarrow> 's bp_world \<Rightarrow> bool" for S where
  tick: "clock w \<le> t \<Longrightarrow> bp_step S w (w\<lparr>clock := t\<rparr>)"
| start: "bp_step S w (w\<lparr>acquires := add_mset \<lparr>kind = k, deadline = dl, at_pc = Entered\<rparr> (acquires w)\<rparr>)"
| call: "call_step S w w' \<Longrightarrow> bp_step S w w'"
| cancel: "acquires w = add_mset c m \<Longrightarrow> at_pc c = Waiting \<Longrightarrow> bp_step S w (w\<lparr>acquires := m\<rparr>)"
| cancel_granted: "acquires w = add_mset c m \<Longrightarrow> at_pc c \<in> {Rechecking, Counting}
    \<Longrightarrow> bp_step S w (w\<lparr>inner := (inner w)\<lparr>semaphore := sem_give S (semaphore (inner w))\<rparr>, acquires := m\<rparr>)"

definition bp_start :: "'s semaphore_ops \<Rightarrow> u64 \<Rightarrow> instant \<Rightarrow> 's bp_world" where
  "bp_start S cap t = \<lparr>inner = with_cap S cap, clock = t, acquires = {#}\<rparr>"

section \<open>Cooperative deadlines\<close>

definition YIELD_CODE_CONTINUE :: u32 where "YIELD_CODE_CONTINUE = 0"

definition YIELD_CODE_DEADLINE_APPROACHING :: u32 where "YIELD_CODE_DEADLINE_APPROACHING = 1"

definition YIELD_CODE_STOP :: u32 where "YIELD_CODE_STOP = 2"

definition SUGGESTED_YIELD_THRESHOLD_MS :: u64 where "SUGGESTED_YIELD_THRESHOLD_MS = 10"

record scheduler_context =
  started_at :: instant
  deadline_ms :: "u32 option"
  yield_count :: u32
  bp_deadline_instant :: "instant option"

definition scheduler_new :: "u32 option \<Rightarrow> instant \<Rightarrow> scheduler_context" where
  "scheduler_new ms now = \<lparr>started_at = now, deadline_ms = ms, yield_count = 0, bp_deadline_instant = None\<rparr>"

definition rearm :: "instant \<Rightarrow> scheduler_context \<Rightarrow> scheduler_context" where
  "rearm now c = c\<lparr>started_at := now\<rparr>"

definition rearm_with_instant :: "instant option \<Rightarrow> instant \<Rightarrow> scheduler_context \<Rightarrow> scheduler_context" where
  "rearm_with_instant d now c = c\<lparr>started_at := now, bp_deadline_instant := d\<rparr>"

text \<open>\<open>Duration::as_millis\<close>, and the time since the start with its cast to 64 bits.\<close>

definition as_millis :: "u128 \<Rightarrow> u128" where
  "as_millis d = d div 1000000"

definition elapsed_ms :: "scheduler_context \<Rightarrow> instant \<Rightarrow> u64" where
  "elapsed_ms c now = ucast (as_millis (saturating_sub now (started_at c)))"

definition yield_now :: "instant \<Rightarrow> scheduler_context \<Rightarrow> scheduler_context \<times> u32" where
  "yield_now now c =
     (c\<lparr>yield_count := yield_count c + 1\<rparr>,
      case bp_deadline_instant c of
        Some d \<Rightarrow>
          if now \<ge> d then YIELD_CODE_STOP
          else if saturating_sub d now \<le> DEADLINE_NEAR_WINDOW then YIELD_CODE_DEADLINE_APPROACHING
          else YIELD_CODE_CONTINUE
      | None \<Rightarrow>
          (case deadline_ms c of
             None \<Rightarrow> YIELD_CODE_CONTINUE
           | Some budget \<Rightarrow>
               let remaining = saturating_sub (ucast budget) (elapsed_ms c now)
               in if remaining = 0 then YIELD_CODE_STOP
                  else if remaining < SUGGESTED_YIELD_THRESHOLD_MS then YIELD_CODE_DEADLINE_APPROACHING
                  else YIELD_CODE_CONTINUE))"

definition deadline_remaining_ms :: "instant \<Rightarrow> scheduler_context \<Rightarrow> u32" where
  "deadline_remaining_ms now c =
     (case bp_deadline_instant c of
        Some d \<Rightarrow>
          let ms = as_millis (saturating_sub d now)
          in if unat ms < 2 ^ 32 then ucast ms else saturating_sub word_max 1
      | None \<Rightarrow>
          (case deadline_ms c of
             None \<Rightarrow> word_max
           | Some budget \<Rightarrow>
               let ms = saturating_sub (ucast budget) (elapsed_ms c now)
               in if unat ms < 2 ^ 32 then ucast ms else saturating_sub word_max 1))"

section \<open>The permits\<close>

text \<open>How many calls are at a point, and the calls that own a permit.\<close>

definition at :: "acquire_pc set \<Rightarrow> acquire_call multiset \<Rightarrow> nat" where
  "at P m = size (filter_mset (\<lambda>c. at_pc c \<in> P) m)"

abbreviation owners :: "acquire_pc set" where
  "owners \<equiv> {Rechecking, Counting, Holding}"

lemma at_simps [simp]:
  "at P {#} = 0"
  "at P (add_mset c m) = of_bool (at_pc c \<in> P) + at P m"
  by (simp_all add: at_def)

lemma at_mono: "P \<subseteq> Q \<Longrightarrow> at P m \<le> at Q m"
  by (induction m) auto

lemma at_pos: "0 < at P m \<longleftrightarrow> (\<exists>c \<in># m. at_pc c \<in> P)"
  by (induction m) auto

text \<open>The operations that wait for a permit: \<open>acquire_borrowed\<close> does so only if there can be one.\<close>

definition may_wait :: "u64 \<Rightarrow> acquire_kind \<Rightarrow> bool" where
  "may_wait cap k \<longleftrightarrow> k \<in> {Acquire, AcquireWithDeadline} \<or> k = AcquireBorrowed \<and> cap \<noteq> 0"

definition bp_ok :: "('s \<Rightarrow> nat) \<Rightarrow> u64 \<Rightarrow> 's bp_world \<Rightarrow> bool" where
  "bp_ok avail cap w \<longleftrightarrow>
     max_concurrent (inner w) = cap
   \<and> avail (semaphore (inner w)) + at owners (acquires w) = unat cap
   \<and> active (inner w) = of_nat (at {Holding, Uncounting} (acquires w))
   \<and> (\<forall>c \<in># acquires w. at_pc c = Waiting \<longrightarrow> may_wait cap (kind c))"

lemma counts_take:
  assumes "counts_permits S avail"
  shows "sem_take S s = Some s' \<Longrightarrow> avail s = Suc (avail s')" and "sem_take S s = None \<longleftrightarrow> avail s = 0"
proof -
  have *: "case sem_take S s of None \<Rightarrow> avail s = 0 | Some s' \<Rightarrow> avail s = Suc (avail s')"
    using assms by (simp add: counts_permits_def)
  then show "sem_take S s = Some s' \<Longrightarrow> avail s = Suc (avail s')" by simp
  from * show "sem_take S s = None \<longleftrightarrow> avail s = 0" by (cases "sem_take S s") simp_all
qed

lemma counts_give: "counts_permits S avail \<Longrightarrow> avail (sem_give S s) = Suc (avail s)"
  by (simp add: counts_permits_def)

text \<open>What one access does to the permits and the count.\<close>

lemma acquire_move_effect:
  assumes "counts_permits S avail" and "acquire_move S now k dl b p = Some (b', p')"
  shows "max_concurrent b' = max_concurrent b"
    and "avail (semaphore b') + of_bool (p' \<in> owners) = avail (semaphore b) + of_bool (p \<in> owners)"
    and "active b' + of_bool (p \<in> {Holding, Uncounting}) = active b + of_bool (p' \<in> {Holding, Uncounting})"
    and "p' = Waiting \<Longrightarrow> may_wait (max_concurrent b) k"
  using assms(2) counts_take(1) [OF assms(1), of "semaphore b"] counts_give [OF assms(1), of "semaphore b"]
  by (cases p; cases k; auto split: if_splits option.splits simp: waits_after_probe_def probes_def may_wait_def)+

lemma acquire_refuse_effect:
  assumes "counts_permits S avail" and "acquire_refuse S now k dl b p = Some (b', e)"
  shows "max_concurrent b' = max_concurrent b" and "active b' = active b"
    and "avail (semaphore b') = avail (semaphore b) + of_bool (p \<in> owners)"
    and "p \<notin> {Holding, Uncounting}"
  using assms(2) counts_give [OF assms(1), of "semaphore b"]
  by (cases p; auto split: if_splits option.splits sum.splits)+

lemma bp_ok_start: "counts_permits S avail \<Longrightarrow> bp_ok avail cap (bp_start S cap t)"
  by (simp add: bp_ok_def bp_start_def with_cap_def counts_permits_def)

lemma active_move:
  "a' + of_bool P = a + of_bool Q \<Longrightarrow> a = of_nat (of_bool P + n) \<Longrightarrow> a' = (of_nat (of_bool Q + n) :: u64)"
  by (cases P; cases Q) (auto simp: algebra_simps)

lemma bp_ok_call:
  assumes S: "counts_permits S avail" and "call_step S w w'" and ok: "bp_ok avail cap w"
  shows "bp_ok avail cap w'"
  using assms(2)
proof cases
  case (move c m b p)
  note e = acquire_move_effect [OF S move(3)] and o = ok [unfolded bp_ok_def move(2) at_simps]
  have "active b = of_nat (of_bool (p \<in> {Holding, Uncounting}) + at {Holding, Uncounting} m)"
    using o by (intro active_move [OF e(3)]) blast
  moreover have "avail (semaphore b) + (of_bool (p \<in> owners) + at owners m) = unat cap"
    using e(2) conjunct1 [OF conjunct2 [OF o]] by linarith
  moreover have "max_concurrent b = cap" using e(1) conjunct1 [OF o] by (rule trans)
  moreover have "\<forall>c' \<in># add_mset (c\<lparr>at_pc := p\<rparr>) m. at_pc c' = Waiting \<longrightarrow> may_wait cap (kind c')"
    using e(4) o by auto
  ultimately show ?thesis unfolding move(1) bp_ok_def by simp
next
  case (refuse c m b e)
  from ok refuse(2) acquire_refuse_effect [OF S refuse(3)] show ?thesis
    by (auto simp: bp_ok_def refuse(1))
next
  case (finish c m)
  with ok show ?thesis by (auto simp: bp_ok_def)
qed

lemma bp_ok_step:
  assumes "counts_permits S avail" and "bp_step S w w'" and "bp_ok avail cap w"
  shows "bp_ok avail cap w'"
  using assms(2)
proof cases
  case (call)
  with assms bp_ok_call show ?thesis by blast
next
  case (cancel_granted c m)
  then show ?thesis using assms(3) counts_give [OF assms(1)] by (auto simp: bp_ok_def)
qed (use assms(3) in \<open>auto simp: bp_ok_def\<close>)

lemma bp_ok_reach:
  assumes "counts_permits S avail" and "(bp_step S)\<^sup>*\<^sup>* (bp_start S cap t) w"
  shows "bp_ok avail cap w"
  using assms(2) by (induction) (auto intro: bp_ok_start bp_ok_step assms(1))

text \<open>
  C20: back-pressure bounds the work in flight. Whatever calls run, wait, time out, are cancelled or
  drop their permits, and however their accesses interleave: the permits held and the permits
  left add up to the cap, so at most the cap of dispatches is in flight, and the live counter is the
  number of permits held plus the drops between their two writes. With a cap above zero a call of
  any kind that waits for a permit does not wait for nothing: a permit is free or another call owns
  one. With a cap of zero no call of the production path \<open>acquire_borrowed\<close> ever waits, nor does a
  \<open>try_\<close> form; only \<open>acquire\<close> and \<open>acquire_with_deadline\<close> do.
\<close>

theorem back_pressure_bound:
  assumes "counts_permits S avail" and "(bp_step S)\<^sup>*\<^sup>* (bp_start S cap t) w"
  shows "avail (semaphore (inner w)) + at owners (acquires w) = unat cap
    \<and> at {Holding} (acquires w) \<le> unat cap
    \<and> active (inner w) = of_nat (at {Holding, Uncounting} (acquires w))
    \<and> (\<forall>c \<in># acquires w. at_pc c = Waiting \<longrightarrow>
         (if cap = 0 then kind c \<in> {Acquire, AcquireWithDeadline}
          else 0 < avail (semaphore (inner w)) \<or> (\<exists>c' \<in># acquires w. at_pc c' \<in> owners)))"
proof -
  note ok = bp_ok_reach [OF assms, unfolded bp_ok_def]
  have "at {Holding} (acquires w) \<le> at owners (acquires w)" by (rule at_mono) simp
  moreover have "kind c \<in> {Acquire, AcquireWithDeadline}" if "c \<in># acquires w" "at_pc c = Waiting" "cap = 0" for c
    using ok that by (auto simp: may_wait_def)
  moreover have "0 < avail (semaphore (inner w)) \<or> 0 < at owners (acquires w)" if "cap \<noteq> 0"
    using ok that unat_gt_0 [of cap] by linarith
  ultimately show ?thesis using ok unfolding at_pos by auto
qed

section \<open>Calls come to an end\<close>

text \<open>An upper bound on the accesses a call has left.\<close>

fun pc_rank :: "acquire_pc \<Rightarrow> nat" where
  "pc_rank Entered = 7"
| "pc_rank Probing = 6"
| "pc_rank Waiting = 5"
| "pc_rank Rechecking = 4"
| "pc_rank Counting = 3"
| "pc_rank Holding = 2"
| "pc_rank Uncounting = 1"

definition accesses_left :: "acquire_call multiset \<Rightarrow> nat" where
  "accesses_left m = (\<Sum>c\<in>#m. pc_rank (at_pc c))"

lemma move_rank: "acquire_move S now k dl b p = Some (b', p') \<Longrightarrow> pc_rank p' < pc_rank p"
  by (cases p) (auto split: if_splits option.splits)

lemma pc_rank_pos: "0 < pc_rank p" "pc_rank p \<le> 7"
  by (cases p; simp)+

lemma call_step_decreases: "call_step S w w' \<Longrightarrow> accesses_left (acquires w') < accesses_left (acquires w)"
  by (induction rule: call_step.induct) (auto simp: accesses_left_def pc_rank_pos dest: move_rank)

lemma accesses_left_le: "accesses_left m \<le> 7 * size m"
  unfolding accesses_left_def by (induction m) (auto simp: pc_rank_pos(2) intro: add_mono)

lemma call_run_bound: "(call_step S ^^ n) w w' \<Longrightarrow> n + accesses_left (acquires w') \<le> accesses_left (acquires w)"
proof (induction n arbitrary: w')
  case (Suc n)
  then obtain v where "(call_step S ^^ n) w v" "call_step S v w'" by auto
  with Suc.IH [of v] call_step_decreases [of S v w'] show ?case by linarith
qed simp

lemma call_run_reach:
  "(bp_step S)\<^sup>*\<^sup>* v w \<Longrightarrow> (call_step S ^^ n) w w' \<Longrightarrow> (bp_step S)\<^sup>*\<^sup>* v w'"
  by (induction n arbitrary: w') (auto intro: rtranclp.rtrancl_into_rtrancl bp_step.call)

text \<open>A call that cannot move waits for a permit, and there is none.\<close>

lemma stuck_call:
  assumes "counts_permits S avail" and "c \<in># acquires w" and "\<nexists>w'. call_step S w w'"
  shows "at_pc c = Waiting \<and> avail (semaphore (inner w)) = 0
    \<and> (deadline_aware (kind c) \<longrightarrow> (case deadline c of None \<Rightarrow> True | Some d \<Rightarrow> clock w < d))"
proof -
  obtain m where m: "acquires w = add_mset c m" using assms(2) by (meson multi_member_split)
  have mv: "acquire_move S (clock w) (kind c) (deadline c) (inner w) (at_pc c) = None"
    using call_step.move [OF m] assms(3) by (metis not_Some_eq surj_pair)
  have rf: "acquire_refuse S (clock w) (kind c) (deadline c) (inner w) (at_pc c) = None"
    using call_step.refuse [OF m] assms(3) by (metis not_Some_eq surj_pair)
  have "at_pc c \<noteq> Uncounting" using call_step.finish [OF m] assms(3) by blast
  with mv rf show ?thesis
    by (cases "at_pc c") (auto simp: counts_take(2) [OF assms(1)] split: if_splits option.splits sum.splits)
qed

text \<open>
  C21: acquiring terminates, and what is left when it cannot. From every reachable state the calls in
  flight make at most seven accesses each, however they interleave. When none of them can make
  another one and the cap is not zero, every call has returned and every permit is back. With a cap
  of zero every \<open>acquire_borrowed\<close> and every \<open>try_\<close> form has returned too; what is left are the calls of
  \<open>acquire\<close>, which no permit will ever reach, and those of \<open>acquire_with_deadline\<close> that have no
  deadline or one that still lies ahead.
\<close>

theorem acquire_terminates:
  assumes "counts_permits S avail" and "(bp_step S)\<^sup>*\<^sup>* (bp_start S cap t) w" and "(call_step S ^^ n) w w'"
  shows "n \<le> 7 * size (acquires w)
    \<and> ((\<nexists>w''. call_step S w' w'') \<longrightarrow>
         active (inner w') = 0 \<and> avail (semaphore (inner w')) = unat cap
         \<and> (if cap \<noteq> 0 then acquires w' = {#}
            else \<forall>c \<in># acquires w'. at_pc c = Waiting
              \<and> (kind c = Acquire \<or> kind c = AcquireWithDeadline \<and> (case deadline c of None \<Rightarrow> True | Some d \<Rightarrow> clock w' < d))))"
proof (intro conjI impI)
  show "n \<le> 7 * size (acquires w)"
    using call_run_bound [OF assms(3)] accesses_left_le [of "acquires w"] by linarith
next
  assume *: "\<nexists>w''. call_step S w' w''"
  have ok: "bp_ok avail cap w'"
    by (rule bp_ok_reach [OF assms(1)]) (rule call_run_reach [OF assms(2,3)])
  note stuck = stuck_call [OF assms(1) _ *]
  have none: "at P (acquires w') = 0" if "Waiting \<notin> P" for P
    using at_pos [of P "acquires w'"] stuck that by fastforce
  with ok show av: "avail (semaphore (inner w')) = unat cap" and "active (inner w') = 0" by (simp_all add: bp_ok_def)
  have "acquires w' = {#}" if "cap \<noteq> 0"
  proof -
    have "avail (semaphore (inner w')) \<noteq> 0" using av that by (simp add: unat_eq_0)
    then show ?thesis using stuck by fastforce
  qed
  moreover have "at_pc c = Waiting \<and> (kind c = Acquire \<or> kind c = AcquireWithDeadline \<and> (case deadline c of None \<Rightarrow> True | Some d \<Rightarrow> clock w' < d))"
    if "cap = 0" "c \<in># acquires w'" for c
    using stuck [OF that(2)] ok that by (auto simp: bp_ok_def may_wait_def deadline_aware_def)
  ultimately show "if cap \<noteq> 0 then acquires w' = {#}
            else \<forall>c \<in># acquires w'. at_pc c = Waiting
              \<and> (kind c = Acquire \<or> kind c = AcquireWithDeadline \<and> (case deadline c of None \<Rightarrow> True | Some d \<Rightarrow> clock w' < d))"
    by simp
qed

section \<open>The guest and the admission path agree\<close>

definition yield_verdict :: "(back_pressure_error, unit) result \<Rightarrow> u32" where
  "yield_verdict r = (case r of
       Inr _ \<Rightarrow> YIELD_CODE_CONTINUE
     | Inl DeadlineElapsed \<Rightarrow> YIELD_CODE_STOP
     | Inl _ \<Rightarrow> YIELD_CODE_DEADLINE_APPROACHING)"

lemma unat_as_millis [unat_ops]: "unat (as_millis d) = unat d div 1000000"
  by (simp add: as_millis_def unat_ops)

lemma near_window [simp]: "unat DEADLINE_NEAR_WINDOW = 50000000"
  by (simp add: DEADLINE_NEAR_WINDOW_def)

lemma check_deadline_cases:
  "check_deadline (Some d) now =
     (if unat d \<le> unat now then Err DeadlineElapsed
      else if unat d - unat now \<le> 50000000 then Err DeadlineNear else Ok ())"
  by (simp add: check_deadline_def unat_ops)

lemma unat_remaining_instant:
  assumes "bp_deadline_instant c = Some d"
  shows "unat (deadline_remaining_ms now c) = (let ms = (unat d - unat now) div 1000000 in if ms < 2 ^ 32 then ms else 2 ^ 32 - 2)"
proof -
  have m: "unat (as_millis (saturating_sub d now)) = (unat d - unat now) div 1000000" by (simp add: unat_ops)
  have w: "unat (saturating_sub word_max 1 :: u32) = 2 ^ 32 - 2" by (simp add: unat_saturating_sub unat_word_max)
  show ?thesis
    by (simp add: deadline_remaining_ms_def assms Let_def m w unsigned_ucast_eq take_bit_nat_eq_self_iff)
qed

text \<open>
  C27: the guest's view of its deadline and the host's admission decision agree. With the deadline the
  executor installs on both, \<open>yield\<close> answers STOP exactly when an acquire is refused as elapsed,
  APPROACHING exactly when it is refused as near, and CONTINUE exactly when it may proceed; the
  remaining budget the guest reads is then 0 milliseconds, at most 50, and at least 50.
\<close>

theorem yield_agrees_with_admission:
  assumes "bp_deadline_instant c = Some d"
  shows "snd (yield_now now c) = yield_verdict (check_deadline (Some d) now)
    \<and> (check_deadline (Some d) now = Err DeadlineElapsed \<longrightarrow> deadline_remaining_ms now c = 0)
    \<and> (check_deadline (Some d) now = Err DeadlineNear \<longrightarrow> unat (deadline_remaining_ms now c) \<le> 50)
    \<and> (check_deadline (Some d) now = Ok () \<longrightarrow> 50 \<le> unat (deadline_remaining_ms now c))"
proof (intro conjI)
  show "snd (yield_now now c) = yield_verdict (check_deadline (Some d) now)"
    by (simp add: yield_now_def assms check_deadline_def yield_verdict_def)
  show "check_deadline (Some d) now = Err DeadlineElapsed \<longrightarrow> deadline_remaining_ms now c = 0"
    unfolding check_deadline_cases by (simp add: unat_remaining_instant [OF assms] unat_eq_0 [symmetric] Let_def)
  show "check_deadline (Some d) now = Err DeadlineNear \<longrightarrow> unat (deadline_remaining_ms now c) \<le> 50"
    unfolding check_deadline_cases unat_remaining_instant [OF assms] by (auto simp: Let_def)
  show "check_deadline (Some d) now = Ok () \<longrightarrow> 50 \<le> unat (deadline_remaining_ms now c)"
    unfolding check_deadline_cases unat_remaining_instant [OF assms] by (auto simp: Let_def)
qed

text \<open>The documented sentinel for an unbounded context is also a finite reading.\<close>

lemma remaining_sentinel_collision:
  "deadline_remaining_ms now (scheduler_new (Some word_max) now) = word_max"
  "deadline_remaining_ms now (scheduler_new None now) = word_max"
proof -
  have u: "unat (ucast (word_max :: u32) :: u64) = 2 ^ 32 - 1" by (simp add: unat_u32_as_u64 unat_word_max)
  have "ucast (ucast (word_max :: u32) :: u64) = (word_max :: u32)"
    unfolding word_unat_eq_iff unsigned_ucast_eq [where 'b = 64] u unat_word_max by (simp add: take_bit_eq_mod)
  with u show "deadline_remaining_ms now (scheduler_new (Some word_max) now) = word_max"
    by (simp add: deadline_remaining_ms_def scheduler_new_def elapsed_ms_def as_millis_def Let_def saturating_sub_def)
  show "deadline_remaining_ms now (scheduler_new None now) = word_max"
    by (simp add: deadline_remaining_ms_def scheduler_new_def)
qed

section \<open>Concrete runs\<close>

text \<open>A semaphore that is a counter, and two calls on a cap of one.\<close>

definition counter_semaphore :: "nat semaphore_ops" where
  "counter_semaphore = \<lparr>sem_new = unat, sem_take = (\<lambda>n. if n = 0 then None else Some (n - 1)), sem_give = Suc\<rparr>"

lemma counter_semaphore_counts: "counts_permits counter_semaphore id"
  by (simp add: counts_permits_def counter_semaphore_def)

abbreviation borrowed :: "acquire_pc \<Rightarrow> acquire_call" where
  "borrowed p \<equiv> \<lparr>kind = AcquireBorrowed, deadline = None, at_pc = p\<rparr>"

abbreviation demo_bp :: "nat \<Rightarrow> u64 \<Rightarrow> acquire_call multiset \<Rightarrow> nat bp_world" where
  "demo_bp n a m \<equiv> \<lparr>inner = \<lparr>semaphore = n, active = a, max_concurrent = 1\<rparr>, clock = 0, acquires = m\<rparr>"

lemma demo_bp_start: "bp_start counter_semaphore 1 0 = demo_bp 1 0 {#}"
  by (simp add: bp_start_def with_cap_def counter_semaphore_def)

lemma demo_bp_arrive: "bp_step counter_semaphore (demo_bp n a m) (demo_bp n a (add_mset (borrowed Entered) m))"
  using bp_step.start [of counter_semaphore "demo_bp n a m" AcquireBorrowed None] by simp

lemma demo_bp_move:
  assumes "acquire_move counter_semaphore 0 AcquireBorrowed None (inner (demo_bp n a m)) p = Some (inner (demo_bp n' a' m), p')"
  shows "call_step counter_semaphore (demo_bp n a (add_mset (borrowed p) m)) (demo_bp n' a' (add_mset (borrowed p') m))"
  using call_step.move [of "demo_bp n a (add_mset (borrowed p) m)" "borrowed p" m counter_semaphore] assms by auto

lemma demo_bp_enter: "call_step counter_semaphore (demo_bp n a (add_mset (borrowed Entered) m)) (demo_bp n a (add_mset (borrowed Probing) m))"
  and demo_bp_probe: "call_step counter_semaphore (demo_bp 1 a (add_mset (borrowed Probing) m)) (demo_bp 0 a (add_mset (borrowed Counting) m))"
  and demo_bp_park: "call_step counter_semaphore (demo_bp 0 a (add_mset (borrowed Probing) m)) (demo_bp 0 a (add_mset (borrowed Waiting) m))"
  and demo_bp_count: "call_step counter_semaphore (demo_bp n a (add_mset (borrowed Counting) m)) (demo_bp n (a + 1) (add_mset (borrowed Holding) m))"
  by (rule demo_bp_move; simp add: check_deadline_def probes_def counter_semaphore_def waits_after_probe_def)+

text \<open>One call holds the permit, the other waits.\<close>

lemma demo_bp_contended:
  "(bp_step counter_semaphore)\<^sup>*\<^sup>* (bp_start counter_semaphore 1 0) (demo_bp 0 1 {#borrowed Waiting, borrowed Holding#})"
proof -
  let ?S = counter_semaphore
  note step = converse_rtranclp_into_rtranclp [of "bp_step ?S"]
  have "(bp_step ?S)\<^sup>*\<^sup>* (demo_bp 1 0 {#}) (demo_bp 0 1 {#borrowed Holding#})"
    by (rule step [OF demo_bp_arrive],
        rule step [OF bp_step.call [OF demo_bp_enter]],
        rule step [OF bp_step.call [OF demo_bp_probe]],
        rule step [OF bp_step.call [OF demo_bp_count]]) simp
  moreover have "(bp_step ?S)\<^sup>*\<^sup>* (demo_bp 0 1 {#borrowed Holding#}) (demo_bp 0 1 {#borrowed Waiting, borrowed Holding#})"
    by (rule step [OF demo_bp_arrive],
        rule step [OF bp_step.call [OF demo_bp_enter]],
        rule step [OF bp_step.call [OF demo_bp_park]]) simp
  ultimately show ?thesis unfolding demo_bp_start by (rule rtranclp_trans)
qed

theorem back_pressure_bound_witness:
  "(bp_step counter_semaphore)\<^sup>*\<^sup>* (bp_start counter_semaphore 1 0) (demo_bp 0 1 {#borrowed Waiting, borrowed Holding#})
   \<and> at {Holding} {#borrowed Waiting, borrowed Holding#} \<le> 1"
  using back_pressure_bound [OF counter_semaphore_counts demo_bp_contended] demo_bp_contended by simp

theorem acquire_terminates_witness:
  "(bp_step counter_semaphore)\<^sup>*\<^sup>* (bp_start counter_semaphore 1 0) (demo_bp 0 1 {#borrowed Waiting, borrowed Holding#})
   \<and> (\<forall>w'. \<not> (call_step counter_semaphore ^^ 15) (demo_bp 0 1 {#borrowed Waiting, borrowed Holding#}) w')"
proof -
  have "\<not> (call_step counter_semaphore ^^ 15) (demo_bp 0 1 {#borrowed Waiting, borrowed Holding#}) w'" for w'
  proof
    assume "(call_step counter_semaphore ^^ 15) (demo_bp 0 1 {#borrowed Waiting, borrowed Holding#}) w'"
    from acquire_terminates [OF counter_semaphore_counts demo_bp_contended this] show False by simp
  qed
  with demo_bp_contended show ?thesis by blast
qed

theorem yield_agrees_with_admission_witness:
  "snd (yield_now 40000000 (rearm_with_instant (Some 100000000) 0 (scheduler_new None 0))) = YIELD_CODE_CONTINUE
   \<and> snd (yield_now 60000000 (rearm_with_instant (Some 100000000) 0 (scheduler_new None 0))) = YIELD_CODE_DEADLINE_APPROACHING"
  using yield_agrees_with_admission [of "rearm_with_instant (Some 100000000) 0 (scheduler_new None 0)" 100000000]
  by (simp add: rearm_with_instant_def scheduler_new_def check_deadline_cases yield_verdict_def)

end
