(* ===== verification/Gpu_Streaming.thy ===== *)
theory Gpu_Streaming
  imports Gpu_Host "HOL-Library.Multiset"
begin

text \<open>
  The streaming interface of \<^verbatim>\<open>crates/tensor-wasm-wasi-gpu/src/streaming.rs\<close>: chunks a guest
  emits, counted against a cap and sent over a channel, and the input a guest reads. The channel
  is tokio's: a send delivers the chunk while the receiver exists and fails once it is dropped.
  Calls that emit are interleaved at each access to the shared counter and the channel; a call
  that waits for room in the channel may be cancelled.
\<close>

section \<open>Model\<close>

definition MAX_CHUNK_BYTES :: nat where
  "MAX_CHUNK_BYTES = 64 * 1024"

definition MAX_TOTAL_STREAM_BYTES :: u64 where
  "MAX_TOTAL_STREAM_BYTES = 64 * 1024 * 1024"

record streaming_context =
  has_sender :: bool
  bytes_emitted :: u64
  max_total :: u64

definition streaming_disabled :: streaming_context where
  "streaming_disabled = \<lparr>has_sender = False, bytes_emitted = 0, max_total = 0\<rparr>"

definition with_channel_and_cap :: "u64 \<Rightarrow> streaming_context" where
  "with_channel_and_cap cap = \<lparr>has_sender = True, bytes_emitted = 0, max_total = cap\<rparr>"

text \<open>\<open>emit_chunk\<close> run alone: the context after, what was sent, and the code.\<close>

definition emit_chunk :: "bool \<Rightarrow> bytes \<Rightarrow> streaming_context \<Rightarrow> streaming_context \<times> bytes option \<times> int" where
  "emit_chunk receiver_alive bs c =
     (if \<not> has_sender c then (c, None, -1)
      else
        let added = of_nat (length bs);
            new_total = bytes_emitted c + added;
            c' = c\<lparr>bytes_emitted := new_total\<rparr>
        in if new_total > max_total c then (c'\<lparr>bytes_emitted := new_total - added\<rparr>, None, -2)
           else if receiver_alive then (c', Some bs, 0)
           else (c'\<lparr>bytes_emitted := new_total - added\<rparr>, None, -3))"

definition stream_flush :: "bool \<Rightarrow> streaming_context \<Rightarrow> int" where
  "stream_flush receiver_alive c = (if \<not> has_sender c then -1 else if \<not> receiver_alive then -3 else 0)"

definition prepare_emit_chunk :: "bytes option \<Rightarrow> i32 \<Rightarrow> i32 \<Rightarrow> (int, bytes) result" where
  "prepare_emit_chunk memory buf_ptr buf_len =
     (if sint buf_len < 0 \<or> sint buf_ptr < 0 then Err (-2)
      else if unat buf_len > MAX_CHUNK_BYTES then Err (-2)
      else case memory of
             None \<Rightarrow> Err (-2)
           | Some mem \<Rightarrow>
               (case checked_add (ucast buf_ptr :: u64) (ucast buf_len) of
                  None \<Rightarrow> Err (-2)
                | Some stop \<Rightarrow>
                    if unat stop > length mem then Err (-2)
                    else Ok (take (unat buf_len) (drop (unat buf_ptr) mem))))"

definition input_len :: "bytes \<Rightarrow> u32" where
  "input_len staged = (if length staged < 2 ^ 32 then of_nat (length staged) else word_max)"

text \<open>The new memory and the value returned.\<close>

definition read_input :: "bytes \<Rightarrow> u32 \<Rightarrow> u32 \<Rightarrow> bytes option \<Rightarrow> bytes option \<times> int" where
  "read_input staged ptr n memory =
     (if staged = [] \<or> n = 0 then (memory, 0)
      else
        let to_copy = min (length staged) (unat n)
        in case memory of
             None \<Rightarrow> (memory, abi_error_code InvalidPointer)
           | Some mem \<Rightarrow>
               (case checked_add (ucast ptr :: u64) (of_nat to_copy) of
                  None \<Rightarrow> (memory, abi_error_code InvalidPointer)
                | Some stop \<Rightarrow>
                    if unat stop > length mem then (memory, abi_error_code InvalidPointer)
                    else (Some (write_memory (unat ptr) (take to_copy staged) mem),
                          if to_copy < 2 ^ 31 then int to_copy else 2 ^ 31 - 1)))"

section \<open>Interleaved emits\<close>

datatype emit_call = Charging bytes | Sending bytes | Refunding bytes int

record stream_world =
  stream :: streaming_context
  receiver_alive :: bool
  received :: "bytes list"
  emits :: "emit_call multiset"
  abandoned :: nat \<comment> \<open>bytes charged by calls that were cancelled\<close>

definition MAX_EMITS :: nat where
  "MAX_EMITS = 2 ^ 32"

inductive stream_step :: "stream_world \<Rightarrow> stream_world \<Rightarrow> bool" where
  enter: "prepare_emit_chunk memory p n = Ok bs \<Longrightarrow> has_sender (stream w) \<Longrightarrow> size (emits w) < MAX_EMITS
    \<Longrightarrow> stream_step w (w\<lparr>emits := add_mset (Charging bs) (emits w)\<rparr>)"
| charge: "emits w = add_mset (Charging bs) m \<Longrightarrow> added = of_nat (length bs)
    \<Longrightarrow> new_total = bytes_emitted (stream w) + added
    \<Longrightarrow> stream_step w (w\<lparr>stream := (stream w)\<lparr>bytes_emitted := new_total\<rparr>,
          emits := add_mset (if new_total > max_total (stream w) then Refunding bs (-2) else Sending bs) m\<rparr>)"
| send: "emits w = add_mset (Sending bs) m \<Longrightarrow> receiver_alive w
    \<Longrightarrow> stream_step w (w\<lparr>received := received w @ [bs], emits := m\<rparr>)"
| send_fails: "emits w = add_mset (Sending bs) m \<Longrightarrow> \<not> receiver_alive w
    \<Longrightarrow> stream_step w (w\<lparr>emits := add_mset (Refunding bs (-3)) m\<rparr>)"
| refund: "emits w = add_mset (Refunding bs code) m
    \<Longrightarrow> stream_step w (w\<lparr>stream := (stream w)\<lparr>bytes_emitted := bytes_emitted (stream w) - of_nat (length bs)\<rparr>, emits := m\<rparr>)"
| cancel: "emits w = add_mset (Sending bs) m
    \<Longrightarrow> stream_step w (w\<lparr>emits := m, abandoned := abandoned w + length bs\<rparr>)"
| disconnect: "stream_step w (w\<lparr>receiver_alive := False\<rparr>)"

definition stream_start :: "u64 \<Rightarrow> stream_world" where
  "stream_start cap = \<lparr>stream = with_channel_and_cap cap, receiver_alive = True, received = [], emits = {#}, abandoned = 0\<rparr>"

section \<open>The cap\<close>

text \<open>What a call has charged, and what it may still deliver.\<close>

fun charged_bytes :: "emit_call \<Rightarrow> nat" where
  "charged_bytes (Charging bs) = 0"
| "charged_bytes (Sending bs) = length bs"
| "charged_bytes (Refunding bs code) = length bs"

fun deliverable :: "emit_call \<Rightarrow> nat" where
  "deliverable (Sending bs) = length bs"
| "deliverable _ = 0"

fun chunk :: "emit_call \<Rightarrow> bytes" where
  "chunk (Charging bs) = bs"
| "chunk (Sending bs) = bs"
| "chunk (Refunding bs code) = bs"

definition received_bytes :: "stream_world \<Rightarrow> nat" where
  "received_bytes w = sum_list (map length (received w))"

definition stream_ok :: "u64 \<Rightarrow> stream_world \<Rightarrow> bool" where
  "stream_ok cap w \<longleftrightarrow> max_total (stream w) = cap
     \<and> size (emits w) \<le> MAX_EMITS \<and> (\<forall>e \<in># emits w. length (chunk e) \<le> MAX_CHUNK_BYTES)
     \<and> received_bytes w + abandoned w + (\<Sum>e\<in>#emits w. deliverable e) \<le> unat cap
     \<and> bytes_emitted (stream w) = of_nat (received_bytes w + abandoned w + (\<Sum>e\<in>#emits w. charged_bytes e))"

lemma prepare_emit_chunk_length: "prepare_emit_chunk memory p n = Ok bs \<Longrightarrow> length bs \<le> MAX_CHUNK_BYTES"
  by (auto simp: prepare_emit_chunk_def split: if_splits option.splits)

lemma charged_bound:
  assumes "\<forall>e \<in># m. length (chunk e) \<le> MAX_CHUNK_BYTES" and "size m \<le> MAX_EMITS"
  shows "(\<Sum>e\<in>#m. charged_bytes e) \<le> (\<Sum>e\<in>#m. deliverable e) + 2 ^ 48"
proof -
  have "(\<Sum>e\<in>#m. charged_bytes e) \<le> (\<Sum>e\<in>#m. deliverable e) + size m * MAX_CHUNK_BYTES"
    using assms(1)
  proof (induction m)
    case (add e m)
    then show ?case by (cases e) auto
  qed simp
  moreover have "size m * MAX_CHUNK_BYTES \<le> MAX_EMITS * MAX_CHUNK_BYTES" using assms(2) by (rule mult_le_mono1)
  ultimately show ?thesis by (simp add: MAX_EMITS_def MAX_CHUNK_BYTES_def)
qed

lemma unat_of_nat_u64: "n < 2 ^ 64 \<Longrightarrow> unat (of_nat n :: u64) = n"
  by (simp add: unat_of_nat take_bit_nat_eq_self_iff)

text \<open>The counter read as a number: with a cap of at most \<open>2 ^ 63\<close> bytes it does not wrap.\<close>

lemma counter_exact:
  assumes "stream_ok cap w" and "cap \<le> 2 ^ 63"
  shows "unat (bytes_emitted (stream w)) = received_bytes w + abandoned w + (\<Sum>e\<in>#emits w. charged_bytes e)"
    and "received_bytes w + abandoned w + (\<Sum>e\<in>#emits w. charged_bytes e) \<le> 2 ^ 63 + 2 ^ 48"
proof -
  have "unat cap \<le> 2 ^ 63" using assms(2) by (simp add: word_le_nat_alt)
  with assms(1) charged_bound [of "emits w"]
  show b: "received_bytes w + abandoned w + (\<Sum>e\<in>#emits w. charged_bytes e) \<le> 2 ^ 63 + 2 ^ 48"
    unfolding stream_ok_def by linarith
  then have "received_bytes w + abandoned w + (\<Sum>e\<in>#emits w. charged_bytes e) < 2 ^ 64" by simp
  with assms(1) show "unat (bytes_emitted (stream w)) = received_bytes w + abandoned w + (\<Sum>e\<in>#emits w. charged_bytes e)"
    unfolding stream_ok_def by (metis unat_of_nat_u64)
qed

lemma stream_ok_charge:
  assumes ok: "stream_ok cap w" and cap: "cap \<le> 2 ^ 63" and e: "emits w = add_mset (Charging bs) m"
    and t: "new_total = bytes_emitted (stream w) + of_nat (length bs)"
  shows "stream_ok cap (w\<lparr>stream := (stream w)\<lparr>bytes_emitted := new_total\<rparr>,
      emits := add_mset (if new_total > max_total (stream w) then Refunding bs (-2) else Sending bs) m\<rparr>)"
proof -
  let ?c = "received_bytes w + abandoned w + (\<Sum>e\<in>#m. charged_bytes e)"
  have c: "unat (bytes_emitted (stream w)) = ?c" and b: "?c \<le> 2 ^ 63 + 2 ^ 48"
    using counter_exact [OF ok cap] by (simp_all add: e)
  have l: "length bs \<le> MAX_CHUNK_BYTES" using ok by (simp add: stream_ok_def e)
  have n: "new_total = of_nat (?c + length bs)" using ok by (simp add: stream_ok_def e t)
  have "?c + length bs < 2 ^ 64" using b l by (simp add: MAX_CHUNK_BYTES_def)
  with n have u: "unat new_total = ?c + length bs" by (metis unat_of_nat_u64)
  show ?thesis
  proof (cases "new_total > cap")
    case True
    with ok n show ?thesis by (auto simp: stream_ok_def e received_bytes_def)
  next
    case False
    then have "?c + length bs \<le> unat cap" using u by (simp add: word_le_nat_alt not_less)
    moreover have "(\<Sum>e\<in>#m. deliverable e) \<le> (\<Sum>e\<in>#m. charged_bytes e)"
    proof (induction m)
      case (add e m)
      then show ?case by (cases e) auto
    qed simp
    ultimately show ?thesis using False ok n by (auto simp: stream_ok_def e received_bytes_def)
  qed
qed

lemma stream_ok_step:
  assumes "stream_step w w'" and "stream_ok cap w" and "cap \<le> 2 ^ 63"
  shows "stream_ok cap w'"
  using assms(1)
proof cases
  case (charge bs m added new_total)
  with stream_ok_charge [OF assms(2,3)] show ?thesis by simp
qed (use assms(2) in \<open>auto simp: stream_ok_def received_bytes_def prepare_emit_chunk_length\<close>)

lemma stream_ok_reach:
  assumes "stream_step\<^sup>*\<^sup>* (stream_start cap) w" and "cap \<le> 2 ^ 63"
  shows "stream_ok cap w"
  using assms(1)
proof induction
  case base
  show ?case by (simp add: stream_ok_def stream_start_def with_channel_and_cap_def received_bytes_def)
next
  case (step y z)
  with stream_ok_step assms(2) show ?case by blast
qed

text \<open>
  C23: the stream cap holds under concurrency. However calls that emit chunks interleave, fail, are
  refunded or cancelled, the client never receives more bytes than the cap, although each call
  adds its bytes before it checks; and once no call is in flight the counter is exactly what was
  received plus what cancelled calls had charged.
\<close>

theorem stream_cap_holds:
  assumes "stream_step\<^sup>*\<^sup>* (stream_start cap) w" and "cap \<le> 2 ^ 63"
  shows "received_bytes w + abandoned w \<le> unat cap
    \<and> (emits w = {#} \<longrightarrow> unat (bytes_emitted (stream w)) = received_bytes w + abandoned w)"
proof -
  note ok = stream_ok_reach [OF assms]
  from ok have "received_bytes w + abandoned w \<le> unat cap" by (simp add: stream_ok_def)
  moreover have "unat (bytes_emitted (stream w)) = received_bytes w + abandoned w" if "emits w = {#}"
    using counter_exact(1) [OF ok assms(2)] that by simp
  ultimately show ?thesis by blast
qed

text \<open>
  A call of \<open>emit_chunk\<close> with no other access in between is a run of these steps, on success and on
  both refusals: it leaves the counter, and hands the client the bytes, that the function computes.
\<close>

lemma emit_chunk_is_run:
  assumes "prepare_emit_chunk memory p n = Ok bs" and "has_sender (stream w)" and "size (emits w) < MAX_EMITS"
    and "emit_chunk (receiver_alive w) bs (stream w) = (c, sent, code)"
  shows "stream_step\<^sup>*\<^sup>* w (w\<lparr>stream := c, received := received w @ (case sent of None \<Rightarrow> [] | Some b \<Rightarrow> [b])\<rparr>)"
proof -
  let ?t = "bytes_emitted (stream w) + of_nat (length bs)"
  let ?w1 = "w\<lparr>emits := add_mset (Charging bs) (emits w)\<rparr>"
  let ?w2 = "\<lambda>e. w\<lparr>stream := (stream w)\<lparr>bytes_emitted := ?t\<rparr>, emits := add_mset e (emits w)\<rparr>"
  have 1: "stream_step w ?w1" by (rule stream_step.enter [OF assms(1-3)])
  have 2: "stream_step ?w1 (?w2 (if ?t > max_total (stream w) then Refunding bs (-2) else Sending bs))"
    using stream_step.charge [of ?w1 bs "emits w" _ ?t] by simp
  have 3: "stream_step (?w2 (Refunding bs k)) w" for k
    using stream_step.refund [of "?w2 (Refunding bs k)" bs k "emits w"] by simp
  show ?thesis
  proof (cases "?t > max_total (stream w)")
    case True
    then have "c = stream w" "sent = None" using assms(2,4) by (auto simp: emit_chunk_def Let_def)
    then show ?thesis using 1 2 3 True by (simp add: rtranclp.rtrancl_into_rtrancl)
  next
    case False
    then have 4: "stream_step ?w1 (?w2 (Sending bs))" using 2 by simp
    show ?thesis
    proof (cases "receiver_alive w")
      case True
      then have "c = (stream w)\<lparr>bytes_emitted := ?t\<rparr>" "sent = Some bs" using False assms(2,4) by (auto simp: emit_chunk_def Let_def)
      moreover have "stream_step (?w2 (Sending bs)) (w\<lparr>stream := (stream w)\<lparr>bytes_emitted := ?t\<rparr>, received := received w @ [bs]\<rparr>)"
        using stream_step.send [of "?w2 (Sending bs)" bs "emits w"] True by simp
      ultimately show ?thesis using 1 4 by (simp add: converse_rtranclp_into_rtranclp)
    next
      case dead: False
      then have "c = stream w" "sent = None" using False assms(2,4) by (auto simp: emit_chunk_def Let_def)
      moreover have "stream_step (?w2 (Sending bs)) (?w2 (Refunding bs (-3)))"
        using stream_step.send_fails [of "?w2 (Sending bs)" bs "emits w"] dead by simp
      ultimately show ?thesis using 1 4 3 by (simp add: rtranclp.rtrancl_into_rtrancl)
    qed
  qed
qed

section \<open>Guest memory\<close>

lemma u32_sum: "k < 2 ^ 33 \<Longrightarrow> checked_add (ucast (p :: u32) :: u64) (of_nat k) = Some (of_nat (unat p + k))"
proof -
  assume k: "k < 2 ^ 33"
  have p: "unat p < 2 ^ 32" using unsigned_less [of p, where 'a = nat] by simp
  have "unat (of_nat k :: u64) = k" "unat (of_nat (unat p + k) :: u64) = unat p + k"
    using k p by (intro unat_of_nat_u64; simp)+
  then show ?thesis by (simp only: checked_add_Some_iff unat_u32_as_u64)
qed

text \<open>
  A guest that asks for the length of its input and offers that much room in its memory reads
  exactly the staged bytes, and no other byte of its memory changes; where the room is not inside
  the memory the call fails and nothing is written.
\<close>

theorem read_input_delivers:
  assumes "staged \<noteq> []" and "length staged < 2 ^ 31"
  shows "if unat ptr + length staged \<le> length mem
    then \<exists>mem'. read_input staged ptr (input_len staged) (Some mem) = (Some mem', int (length staged))
           \<and> length mem' = length mem \<and> take (length staged) (drop (unat ptr) mem') = staged
           \<and> (\<forall>i < length mem. i < unat ptr \<or> unat ptr + length staged \<le> i \<longrightarrow> mem' ! i = mem ! i)
    else read_input staged ptr (input_len staged) (Some mem) = (Some mem, abi_error_code InvalidPointer)"
proof -
  let ?n = "length staged"
  have n: "unat (input_len staged) = ?n" using assms(2) by (simp add: input_len_def unat_of_nat take_bit_nat_eq_self_iff)
  then have nz: "input_len staged \<noteq> 0" using assms(1) by (metis length_0_conv unat_0)
  have p: "unat ptr < 2 ^ 32" using unsigned_less [of ptr, where 'a = nat] by simp
  have c: "checked_add (ucast ptr :: u64) (of_nat ?n) = Some (of_nat (unat ptr + ?n))" using assms(2) by (intro u32_sum) simp
  have s: "unat (of_nat (unat ptr + ?n) :: u64) = unat ptr + ?n"
    using assms(2) p by (intro unat_of_nat_u64) simp
  have r: "read_input staged ptr (input_len staged) (Some mem) =
      (if unat ptr + ?n > length mem then (Some mem, abi_error_code InvalidPointer)
       else (Some (write_memory (unat ptr) staged mem), int ?n))"
    unfolding read_input_def n using assms nz by (simp add: c s del: of_nat_add)
  show ?thesis
    unfolding r by (auto simp: write_memory_def nth_append not_less min_def)
qed

text \<open>A chunk of guest memory, read, counted and sent.\<close>

definition demo_memory :: bytes where
  "demo_memory = [1, 2, 3, 4]"

lemma demo_chunk: "prepare_emit_chunk (Some demo_memory) 1 2 = Ok [2, 3]"
  by (simp add: prepare_emit_chunk_def demo_memory_def MAX_CHUNK_BYTES_def checked_add_def)

text \<open>Two calls charge two bytes each against a cap of three: one is received, one is refunded.\<close>

abbreviation demo_stream :: "u64 \<Rightarrow> bytes list \<Rightarrow> emit_call multiset \<Rightarrow> stream_world" where
  "demo_stream n r m \<equiv>
     \<lparr>stream = \<lparr>has_sender = True, bytes_emitted = n, max_total = 3\<rparr>, receiver_alive = True, received = r, emits = m, abandoned = 0\<rparr>"

lemma demo_stream_enter:
  "size m < MAX_EMITS \<Longrightarrow> stream_step (demo_stream n r m) (demo_stream n r (add_mset (Charging [2, 3]) m))"
  using stream_step.enter [OF demo_chunk, of "demo_stream n r m"] by simp

lemma demo_stream_charge:
  "stream_step (demo_stream n r (add_mset (Charging [2, 3]) m))
     (demo_stream (n + 2) r (add_mset (if n + 2 > 3 then Refunding [2, 3] (-2) else Sending [2, 3]) m))"
  using stream_step.charge [of "demo_stream n r (add_mset (Charging [2, 3]) m)" "[2, 3]" m] by simp

lemma demo_stream_run: "stream_step\<^sup>*\<^sup>* (stream_start 3) (demo_stream 2 [[2, 3]] {#})"
proof -
  note step = converse_rtranclp_into_rtranclp [of stream_step]
  let ?c = "Charging [2, 3]" and ?s = "Sending [2, 3]" and ?r = "Refunding [2, 3] (-2)"
  have 1: "stream_step (demo_stream 0 [] {#}) (demo_stream 0 [] {#?c#})"
    and 2: "stream_step (demo_stream 0 [] {#?c#}) (demo_stream 0 [] {#?c, ?c#})"
    by (intro demo_stream_enter; simp add: MAX_EMITS_def)+
  have 3: "stream_step (demo_stream 0 [] {#?c, ?c#}) (demo_stream 2 [] {#?c, ?s#})"
    using demo_stream_charge [of 0 "[]" "{#?c#}"] by (simp add: add_mset_commute)
  have 4: "stream_step (demo_stream 2 [] {#?c, ?s#}) (demo_stream 4 [] {#?s, ?r#})"
    using demo_stream_charge [of 2 "[]" "{#?s#}"] by (simp add: add_mset_commute)
  have 5: "stream_step (demo_stream 4 [] {#?s, ?r#}) (demo_stream 4 [[2, 3]] {#?r#})"
    using stream_step.send [of "demo_stream 4 [] {#?s, ?r#}" "[2, 3]"] by simp
  have 6: "stream_step (demo_stream 4 [[2, 3]] {#?r#}) (demo_stream 2 [[2, 3]] {#})"
    using stream_step.refund [of "demo_stream 4 [[2, 3]] {#?r#}" "[2, 3]"] by simp
  have "stream_start 3 = demo_stream 0 [] {#}" by (simp add: stream_start_def with_channel_and_cap_def)
  then show ?thesis
    using step [OF 1 step [OF 2 step [OF 3 step [OF 4 step [OF 5 step [OF 6]]]]]] by simp
qed

theorem stream_cap_holds_witness:
  "stream_step\<^sup>*\<^sup>* (stream_start 3) (demo_stream 2 [[2, 3]] {#}) \<and> received_bytes (demo_stream 2 [[2, 3]] {#}) \<le> 3"
  using stream_cap_holds [OF demo_stream_run] demo_stream_run by simp

theorem read_input_delivers_witness:
  "\<exists>mem'. read_input [7, 8] 1 (input_len [7, 8]) (Some demo_memory) = (Some mem', 2) \<and> take 2 (drop 1 mem') = [7, 8]"
  using read_input_delivers [of "[7, 8]" 1 demo_memory] by (auto simp: demo_memory_def) (simp add: numeral_2_eq_2)

end
