(* ===== verification/Gpu_Dispatch.thy ===== *)
theory Gpu_Dispatch
  imports Main
begin

text \<open>
  The future of a launched kernel, \<open>DispatchFuture\<close> of
  \<^verbatim>\<open>crates/tensor-wasm-wasi-gpu/src/async_dispatch.rs\<close>: its \<open>poll\<close> on one thread and the stream
  callback of the CUDA driver on another, sharing a flag and a slot for the waker, interleaved at
  each access. The driver runs the callback at most once for a registration that succeeded. A
  waker is identified by the number of the poll that parked it.
\<close>

section \<open>Model\<close>

record callback_state =
  is_done :: bool
  waker :: "nat option"

text \<open>Where a poll is: outside, after loading the flag, after parking the waker.\<close>

datatype poll_pc = Idle | Loaded | Parked

datatype poll_result = Ready | Pending

text \<open>Where the callback is: not called, after storing the flag, after waking.\<close>

datatype callback_pc = NotCalled | Stored | Finished

record dispatch_world =
  has_stream :: bool
  registered :: "callback_state option"
  poll_pc :: poll_pc
  polls :: nat \<comment> \<open>the number of the current or last poll\<close>
  last_result :: "poll_result option" \<comment> \<open>what the last poll returned; nothing while one runs\<close>
  callback_pc :: callback_pc
  woken :: "nat set" \<comment> \<open>the wakers that were woken\<close>

definition dispatch_new :: "bool \<Rightarrow> dispatch_world" where
  "dispatch_new s = \<lparr>has_stream = s, registered = None, poll_pc = Idle, polls = 0, last_result = None,
     callback_pc = NotCalled, woken = {}\<rparr>"

text \<open>The first access of a poll: no stream, the registration (which may fail), or the load of the flag.\<close>

inductive dispatch_step :: "dispatch_world \<Rightarrow> dispatch_world \<Rightarrow> bool" where
  poll_no_stream: "poll_pc w = Idle \<Longrightarrow> last_result w \<noteq> Some Ready \<Longrightarrow> \<not> has_stream w
    \<Longrightarrow> dispatch_step w (w\<lparr>polls := Suc (polls w), last_result := Some Ready\<rparr>)"
| poll_register: "poll_pc w = Idle \<Longrightarrow> last_result w \<noteq> Some Ready \<Longrightarrow> has_stream w \<Longrightarrow> registered w = None
    \<Longrightarrow> dispatch_step w (w\<lparr>polls := Suc (polls w), last_result := Some Pending,
          registered := Some \<lparr>is_done = False, waker = Some (Suc (polls w))\<rparr>\<rparr>)"
| poll_register_fails: "poll_pc w = Idle \<Longrightarrow> last_result w \<noteq> Some Ready \<Longrightarrow> has_stream w \<Longrightarrow> registered w = None
    \<Longrightarrow> dispatch_step w (w\<lparr>polls := Suc (polls w), last_result := Some Ready\<rparr>)"
| poll_load: "poll_pc w = Idle \<Longrightarrow> last_result w \<noteq> Some Ready \<Longrightarrow> has_stream w \<Longrightarrow> registered w = Some s
    \<Longrightarrow> dispatch_step w (if is_done s then w\<lparr>polls := Suc (polls w), last_result := Some Ready\<rparr>
          else w\<lparr>polls := Suc (polls w), last_result := None, poll_pc := Loaded\<rparr>)"
| poll_park: "poll_pc w = Loaded \<Longrightarrow> registered w = Some s
    \<Longrightarrow> dispatch_step w (w\<lparr>poll_pc := Parked, registered := Some (s\<lparr>waker := Some (polls w)\<rparr>)\<rparr>)"
| poll_recheck: "poll_pc w = Parked \<Longrightarrow> registered w = Some s
    \<Longrightarrow> dispatch_step w (w\<lparr>poll_pc := Idle, last_result := Some (if is_done s then Ready else Pending)\<rparr>)"
| callback_store: "callback_pc w = NotCalled \<Longrightarrow> registered w = Some s
    \<Longrightarrow> dispatch_step w (w\<lparr>callback_pc := Stored, registered := Some (s\<lparr>is_done := True\<rparr>)\<rparr>)"
| callback_wake: "callback_pc w = Stored \<Longrightarrow> registered w = Some s
    \<Longrightarrow> dispatch_step w (w\<lparr>callback_pc := Finished, registered := Some (s\<lparr>waker := None\<rparr>),
          woken := woken w \<union> set_option (waker s)\<rparr>)"

section \<open>No wake-up is lost\<close>

text \<open>
  The flag says whether the callback began. While it has not woken anybody, the waker in the slot
  is the one of the last poll, unless that poll has yet to park it. After it woke, a poll that
  goes on to park will see the flag.
\<close>

definition dispatch_ok :: "dispatch_world \<Rightarrow> bool" where
  "dispatch_ok w \<longleftrightarrow>
     (case registered w of
        None \<Rightarrow> poll_pc w = Idle \<and> last_result w \<noteq> Some Pending \<and> callback_pc w = NotCalled
      | Some s \<Rightarrow>
          has_stream w
        \<and> (poll_pc w \<noteq> Idle \<longleftrightarrow> last_result w = None)
        \<and> (is_done s \<longleftrightarrow> callback_pc w \<noteq> NotCalled)
        \<and> (callback_pc w \<noteq> Finished \<and> (last_result w = Some Pending \<or> poll_pc w = Parked) \<longrightarrow> waker s = Some (polls w))
        \<and> (callback_pc w = Finished \<and> last_result w = Some Pending \<longrightarrow> polls w \<in> woken w))"

lemma dispatch_ok_step:
  assumes "dispatch_step w w'" and "dispatch_ok w"
  shows "dispatch_ok w'"
  using assms
proof cases
  case (poll_load s)
  with assms(2) show ?thesis by (cases "is_done s") (simp_all add: dispatch_ok_def)
next
  case (poll_recheck s)
  with assms(2) show ?thesis by (cases "is_done s"; cases "callback_pc w") (simp_all add: dispatch_ok_def)
next
  case (callback_wake s)
  with assms(2) show ?thesis by (cases "last_result w = Some Pending") (simp_all add: dispatch_ok_def)
qed (simp_all add: dispatch_ok_def split: option.splits)

lemma dispatch_ok_reach:
  assumes "dispatch_step\<^sup>*\<^sup>* (dispatch_new s) w"
  shows "dispatch_ok w"
  using assms
proof induction
  case base
  show ?case by (simp add: dispatch_new_def dispatch_ok_def)
qed (rule dispatch_ok_step)

text \<open>
  C22: no wake-up is lost. Once the driver's callback has run, a future whose last poll returned
  Pending has had the waker of that very poll woken, however the callback and the polls
  interleaved; and the poll that follows returns Ready. A fiber that waits for a kernel is never
  stranded.
\<close>

theorem no_lost_wakeup:
  assumes "dispatch_step\<^sup>*\<^sup>* (dispatch_new s) w" and "callback_pc w = Finished" and "last_result w = Some Pending"
  shows "polls w \<in> woken w
    \<and> (\<forall>w'. dispatch_step w w' \<longrightarrow> last_result w' = Some Ready \<and> polls w' = Suc (polls w))
    \<and> (\<exists>w'. dispatch_step w w')"
proof -
  note ok = dispatch_ok_reach [OF assms(1)]
  obtain st where reg: "registered w = Some st" using ok assms(3) by (cases "registered w") (simp_all add: dispatch_ok_def)
  with ok assms(2,3) have st: "is_done st" "poll_pc w = Idle" "has_stream w" "polls w \<in> woken w"
    by (simp_all add: dispatch_ok_def)
  then have "dispatch_step w (w\<lparr>polls := Suc (polls w), last_result := Some Ready\<rparr>)"
    using dispatch_step.poll_load [OF st(2) _ st(3) reg] assms(3) st(1) by simp
  moreover have "last_result w' = Some Ready \<and> polls w' = Suc (polls w)" if "dispatch_step w w'" for w'
    using that by (cases rule: dispatch_step.cases) (use assms(2,3) st reg in simp_all)
  ultimately show ?thesis using st(4) by blast
qed

text \<open>The callback begins after a poll loaded the flag and ends after that poll parked its waker.\<close>

lemma demo_dispatch_run:
  "dispatch_step\<^sup>*\<^sup>* (dispatch_new True)
     \<lparr>has_stream = True, registered = Some \<lparr>is_done = True, waker = None\<rparr>, poll_pc = Idle, polls = 1,
      last_result = Some Pending, callback_pc = Finished, woken = {1}\<rparr>"
proof -
  let ?w0 = "dispatch_new True"
  let ?w1 = "?w0\<lparr>polls := 1, last_result := Some Pending, registered := Some \<lparr>is_done = False, waker = Some 1\<rparr>\<rparr>"
  let ?w2 = "?w1\<lparr>callback_pc := Stored, registered := Some \<lparr>is_done = True, waker = Some 1\<rparr>\<rparr>"
  let ?w3 = "?w2\<lparr>callback_pc := Finished, registered := Some \<lparr>is_done = True, waker = None\<rparr>, woken := {1}\<rparr>"
  note step = converse_rtranclp_into_rtranclp [of dispatch_step]
  have 1: "dispatch_step ?w0 ?w1" using dispatch_step.poll_register [of ?w0] by (simp add: dispatch_new_def)
  have 2: "dispatch_step ?w1 ?w2"
    using dispatch_step.callback_store [of ?w1 "\<lparr>is_done = False, waker = Some 1\<rparr>"] by (simp add: dispatch_new_def)
  have 3: "dispatch_step ?w2 ?w3"
    using dispatch_step.callback_wake [of ?w2 "\<lparr>is_done = True, waker = Some 1\<rparr>"] by (simp add: dispatch_new_def)
  show ?thesis using step [OF 1 step [OF 2 step [OF 3]]] by (simp add: dispatch_new_def)
qed

theorem no_lost_wakeup_witness:
  "\<exists>w. dispatch_step\<^sup>*\<^sup>* (dispatch_new True) w \<and> callback_pc w = Finished \<and> last_result w = Some Pending
     \<and> polls w \<in> woken w"
  using no_lost_wakeup [OF demo_dispatch_run] demo_dispatch_run by fastforce

end
