(* ===== verification/Artifact_Envelope.thy ===== *)
theory Artifact_Envelope
  imports Byte_Codec
begin

text \<open>
  The signed envelope of \<^verbatim>\<open>crates/tensor-wasm-artifacts/src/lib.rs\<close>: magic, version, content
  hash, compressed body and HMAC tag, written by \<open>encode_envelope_to_vec\<close> and read by
  \<open>decode_envelope_from_bytes_with_cap\<close>; and the hexadecimal names of the store. BLAKE3, HMAC
  and zstd are parameters. A streamed HMAC is the HMAC of the concatenation.
\<close>

unbundle bit_operations_syntax

section \<open>Parameters\<close>

text \<open>
  The compressor takes the chunks it was written in. The decompressor gives the bytes it produces
  and the error it then stops with, if any.
\<close>

record crypto =
  blake3 :: "bytes \<Rightarrow> bytes"
  hmac_sha256 :: "bytes \<Rightarrow> bytes \<Rightarrow> bytes"
  zstd_encode :: "int \<Rightarrow> bytes list \<Rightarrow> bytes"
  zstd_stream :: "bytes \<Rightarrow> bytes \<times> string option"

definition crypto_ok :: "crypto \<Rightarrow> bool" where
  "crypto_ok C \<longleftrightarrow> (\<forall>x. length (blake3 C x) = 32) \<and> (\<forall>k x. length (hmac_sha256 C k x) = 32)
     \<and> (\<forall>l cs. zstd_stream C (zstd_encode C l cs) = (concat cs, None))"

section \<open>Model\<close>

definition ARTIFACT_MAGIC :: bytes where
  "ARTIFACT_MAGIC = map of_char ''twasm-artifact01''"

definition ARTIFACT_VERSION :: u32 where
  "ARTIFACT_VERSION = 1"

definition ARTIFACT_HMAC_LEN :: nat where
  "ARTIFACT_HMAC_LEN = 32"

definition ARTIFACT_HEADER_LEN :: nat where
  "ARTIFACT_HEADER_LEN = 16 + 4 + 32"

definition DEFAULT_ZSTD_LEVEL :: int where
  "DEFAULT_ZSTD_LEVEL = 3"

definition MAX_PAYLOAD_LEN :: nat where
  "MAX_PAYLOAD_LEN = 256 * 1024 * 1024"

definition MAX_DECOMPRESSED_LEN :: nat where
  "MAX_DECOMPRESSED_LEN = MAX_PAYLOAD_LEN + 8 * 1024"

datatype artifact_error =
    NotFound string
  | BadMagic
  | BadVersion u32
  | BadHmac
  | HashMismatch string string
  | Decompression string
  | Metadata string
  | TooLarge nat nat
  | Io

definition HEX_LUT :: string where
  "HEX_LUT = ''0123456789abcdef''"

definition hex_of :: "bytes \<Rightarrow> string" where
  "hex_of bs = concat (map (\<lambda>b. [HEX_LUT ! unat (drop_bit 4 b), HEX_LUT ! unat (b AND 0x0f)]) bs)"

definition hex_val :: "char \<Rightarrow> u8 option" where
  "hex_val c =
     (let b = of_char c :: nat
      in if 48 \<le> b \<and> b \<le> 57 then Some (of_nat (b - 48))
         else if 97 \<le> b \<and> b \<le> 102 then Some (of_nat (b - 97 + 10))
         else None)"

fun parse_hex :: "string \<Rightarrow> bytes option" where
  "parse_hex [] = Some []"
| "parse_hex [c] = None"
| "parse_hex (c # d # s) =
     (case hex_val c of
        None \<Rightarrow> None
      | Some hi \<Rightarrow>
          (case hex_val d of
             None \<Rightarrow> None
           | Some lo \<Rightarrow> map_option (\<lambda>bs. (push_bit 4 hi OR lo) # bs) (parse_hex s)))"

definition parse_hash_hex :: "string \<Rightarrow> bytes option" where
  "parse_hash_hex s = (if length s \<noteq> 64 then None else parse_hex s)"

text \<open>The framed bytes, for a body that is already compressed.\<close>

definition envelope_prefix :: "bytes \<Rightarrow> bytes \<Rightarrow> bytes" where
  "envelope_prefix hash body = ARTIFACT_MAGIC @ to_le_bytes ARTIFACT_VERSION @ hash @ body"

definition envelope :: "crypto \<Rightarrow> bytes \<Rightarrow> bytes \<Rightarrow> bytes \<Rightarrow> bytes" where
  "envelope C key hash body = envelope_prefix hash body @ hmac_sha256 C key (envelope_prefix hash body)"

definition encode_envelope_to_vec :: "crypto \<Rightarrow> bytes \<Rightarrow> bytes \<Rightarrow> (artifact_error, bytes) result" where
  "encode_envelope_to_vec C payload key =
     (if length payload > MAX_PAYLOAD_LEN then Err (TooLarge (length payload) MAX_PAYLOAD_LEN)
      else Ok (envelope C key (blake3 C payload) (zstd_encode C DEFAULT_ZSTD_LEVEL [payload])))"

text \<open>\<open>decoder.take(cap + 1).read_to_end\<close>: an error is seen only if it comes before the limit.\<close>

definition read_capped :: "nat \<Rightarrow> bytes \<times> string option \<Rightarrow> (string, bytes) result" where
  "read_capped cap = (\<lambda>(out, stop).
     if length out > cap then Ok (take (cap + 1) out)
     else case stop of Some e \<Rightarrow> Err e | None \<Rightarrow> Ok out)"

definition decode_envelope_from_bytes_with_cap ::
    "crypto \<Rightarrow> bytes \<Rightarrow> bytes \<Rightarrow> nat \<Rightarrow> (artifact_error, bytes) result" where
  "decode_envelope_from_bytes_with_cap C bs key max_decompressed =
     (if length bs < ARTIFACT_HEADER_LEN + ARTIFACT_HMAC_LEN then Err BadMagic
      else if take 16 bs \<noteq> ARTIFACT_MAGIC then Err BadMagic
      else
        let version = from_le_bytes (take 4 (drop 16 bs))
        in if version \<noteq> ARTIFACT_VERSION then Err (BadVersion version)
           else
             let hash_on_disk = take 32 (drop 20 bs);
                 hmac_start = length bs - ARTIFACT_HMAC_LEN;
                 prefix = take hmac_start bs
             in if hmac_sha256 C key prefix \<noteq> drop hmac_start bs then Err BadHmac
                else case read_capped max_decompressed (zstd_stream C (drop ARTIFACT_HEADER_LEN prefix)) of
                       Inl e \<Rightarrow> Err (Decompression e)
                     | Inr payload \<Rightarrow>
                         if length payload > max_decompressed then Err (TooLarge (length payload) max_decompressed)
                         else if blake3 C payload \<noteq> hash_on_disk
                         then Err (HashMismatch (hex_of hash_on_disk) (hex_of (blake3 C payload)))
                         else Ok payload)"

definition decode_envelope_from_bytes :: "crypto \<Rightarrow> bytes \<Rightarrow> bytes \<Rightarrow> (artifact_error, bytes) result" where
  "decode_envelope_from_bytes C bs key = decode_envelope_from_bytes_with_cap C bs key MAX_DECOMPRESSED_LEN"

section \<open>Hexadecimal names\<close>

lemma hex_digit: "n < 16 \<Longrightarrow> hex_val (HEX_LUT ! n) = Some (of_nat n)"
proof -
  have "list_all (\<lambda>n. hex_val (HEX_LUT ! n) = Some (of_nat n)) [0..<16]" by code_simp
  then show "n < 16 \<Longrightarrow> ?thesis" by (simp add: list_all_iff)
qed

lemma nibbles: "push_bit 4 (drop_bit 4 b) OR (b AND 0x0f) = (b :: u8)"
proof -
  have "(0x0f :: u8) = mask 4" by (simp add: mask_eq_exp_minus_1)
  then show ?thesis by (simp only: take_bit_eq_mask [symmetric]) (rule bit_eqI, auto simp: bit_simps)
qed

lemma nibble_less: "unat (drop_bit 4 (b :: u8)) < 16" "unat ((b :: u8) AND 0x0f) < 16"
proof -
  have b: "unat b < 256" using unsigned_less [of b, where 'a = nat] by simp
  have "unat (drop_bit 4 b) = unat b div 16" by (simp add: drop_bit_eq_div unat_word_div)
  with b show "unat (drop_bit 4 b) < 16" by simp
  have "(0x0f :: u8) = mask 4" by (simp add: mask_eq_exp_minus_1)
  then have "b AND 0x0f = take_bit 4 b" by (simp only: take_bit_eq_mask)
  then have "unat (b AND 0x0f) = take_bit 4 (unat b)" by (simp only: unsigned_take_bit_eq)
  then show "unat (b AND 0x0f) < 16" by (simp add: take_bit_eq_mod)
qed

lemma parse_hex_of: "parse_hex (hex_of bs) = Some bs"
proof (induction bs)
  case (Cons b bs)
  have "hex_of (b # bs) = HEX_LUT ! unat (drop_bit 4 b) # HEX_LUT ! unat (b AND 0x0f) # hex_of bs"
    by (simp add: hex_of_def)
  with Cons show ?case by (simp add: hex_digit nibble_less nibbles of_nat_unat)
qed (simp add: hex_of_def)

lemma length_hex_of [simp]: "length (hex_of bs) = 2 * length bs"
  by (induction bs) (simp_all add: hex_of_def)

lemma parse_hash_hex_of: "length h = 32 \<Longrightarrow> parse_hash_hex (hex_of h) = Some h"
  by (simp add: parse_hash_hex_def parse_hex_of)

lemma hex_of_inject: "hex_of a = hex_of b \<longleftrightarrow> a = b"
  by (metis parse_hex_of option.inject)

lemma hex_of_chars: "set (hex_of bs) \<subseteq> set HEX_LUT"
proof -
  have "length HEX_LUT = 16" by (simp add: HEX_LUT_def)
  then show ?thesis using nibble_less by (auto simp: hex_of_def)
qed

section \<open>Accepted envelopes\<close>

lemma length_magic [simp]: "length ARTIFACT_MAGIC = 16"
  by (simp add: ARTIFACT_MAGIC_def)

lemma crypto_okD:
  assumes "crypto_ok C"
  shows "length (blake3 C x) = 32" and "length (hmac_sha256 C k x) = 32"
    and "zstd_stream C (zstd_encode C l cs) = (concat cs, None)"
  using assms by (simp_all add: crypto_ok_def)

text \<open>What remains of the fixed fields of a framed body.\<close>

lemma envelope_fields:
  fixes body :: bytes
  assumes "length hash = 32" and "length tag = 32"
  defines "bs \<equiv> envelope_prefix hash body @ tag"
  shows "length bs = ARTIFACT_HEADER_LEN + length body + ARTIFACT_HMAC_LEN"
    and "take 16 bs = ARTIFACT_MAGIC" and "take 4 (drop 16 bs) = to_le_bytes ARTIFACT_VERSION"
    and "take 32 (drop 20 bs) = hash"
    and "take (length bs - ARTIFACT_HMAC_LEN) bs = envelope_prefix hash body"
    and "drop (length bs - ARTIFACT_HMAC_LEN) bs = tag"
    and "drop ARTIFACT_HEADER_LEN (envelope_prefix hash body) = body"
  using assms(1,2) by (simp_all add: bs_def envelope_prefix_def ARTIFACT_HEADER_LEN_def ARTIFACT_HMAC_LEN_def)

text \<open>Bytes with the right magic and version are a prefix with that hash and body, and a tag.\<close>

lemma envelope_split:
  assumes "ARTIFACT_HEADER_LEN + ARTIFACT_HMAC_LEN \<le> length bs" and "take 16 bs = ARTIFACT_MAGIC"
    and "from_le_bytes (take 4 (drop 16 bs)) = ARTIFACT_VERSION"
  obtains hash body tag where "bs = envelope_prefix hash body @ tag" and "length hash = 32" and "length tag = 32"
proof -
  let ?n = "length bs - 32" and ?v = "take 4 (drop 16 bs)"
  have len: "84 \<le> length bs" using assms(1) by (simp add: ARTIFACT_HEADER_LEN_def ARTIFACT_HMAC_LEN_def)
  then have v: "?v = to_le_bytes ARTIFACT_VERSION"
    using assms(3) to_from_le_bytes(2) [of ?v] by simp
  have "take ?n bs = take 16 bs @ ?v @ take 32 (drop 20 bs) @ drop 52 (take ?n bs)"
  proof -
    have "take 52 bs = take 16 bs @ take 36 (drop 16 bs)" by (simp add: take_add [of 16 36, simplified])
    also have "take 36 (drop 16 bs) = ?v @ take 32 (drop 20 bs)"
      using take_add [of 4 32 "drop 16 bs"] by simp
    finally have "take 52 bs = take 16 bs @ ?v @ take 32 (drop 20 bs)" .
    moreover have "take ?n bs = take 52 bs @ drop 52 (take ?n bs)"
      using len append_take_drop_id [of 52 "take ?n bs"] by (simp add: min_absorb1)
    ultimately show ?thesis by simp
  qed
  then have "bs = envelope_prefix (take 32 (drop 20 bs)) (drop 52 (take ?n bs)) @ drop ?n bs"
    unfolding envelope_prefix_def using assms(2) v append_take_drop_id [of ?n bs] by simp
  then show thesis using that [of "take 32 (drop 20 bs)" "drop 52 (take ?n bs)" "drop ?n bs"] len by simp
qed

text \<open>Decoding, once the fixed fields are read off.\<close>

lemma decode_framed:
  assumes "length hash = 32" and "length tag = 32"
  shows "decode_envelope_from_bytes_with_cap C (envelope_prefix hash body @ tag) key cap =
    (if hmac_sha256 C key (envelope_prefix hash body) \<noteq> tag then Err BadHmac
     else case read_capped cap (zstd_stream C body) of
            Inl e \<Rightarrow> Err (Decompression e)
          | Inr payload \<Rightarrow>
              if length payload > cap then Err (TooLarge (length payload) cap)
              else if blake3 C payload \<noteq> hash then Err (HashMismatch (hex_of hash) (hex_of (blake3 C payload)))
              else Ok payload)"
  unfolding decode_envelope_from_bytes_with_cap_def
  using envelope_fields [OF assms, of body] by (simp add: Let_def)

lemma read_capped_Ok: "read_capped cap r = Ok p \<and> length p \<le> cap \<longleftrightarrow> r = (p, None) \<and> length p \<le> cap"
  by (cases r) (auto simp: read_capped_def split: option.splits)

lemma envelope_accepted:
  assumes "crypto_ok C"
  shows "decode_envelope_from_bytes_with_cap C bs key cap = Ok payload \<longleftrightarrow>
    length payload \<le> cap \<and> (\<exists>body. bs = envelope C key (blake3 C payload) body \<and> zstd_stream C body = (payload, None))"
    (is "?l \<longleftrightarrow> ?r")
proof
  assume l: ?l
  then have "ARTIFACT_HEADER_LEN + ARTIFACT_HMAC_LEN \<le> length bs" "take 16 bs = ARTIFACT_MAGIC"
    "from_le_bytes (take 4 (drop 16 bs)) = ARTIFACT_VERSION"
    by (auto simp: decode_envelope_from_bytes_with_cap_def Let_def split: if_splits)
  then obtain hash body tag where bs: "bs = envelope_prefix hash body @ tag" "length hash = 32" "length tag = 32"
    by (rule envelope_split)
  from l [unfolded bs(1) decode_framed [OF bs(2,3)]]
  have tag: "hmac_sha256 C key (envelope_prefix hash body) = tag" and h: "blake3 C payload = hash"
    and c: "read_capped cap (zstd_stream C body) = Ok payload \<and> length payload \<le> cap"
    by (auto split: if_splits sum.splits)
  from c have "zstd_stream C body = (payload, None) \<and> length payload \<le> cap" unfolding read_capped_Ok .
  with bs(1) tag h show ?r unfolding envelope_def by blast
next
  assume ?r
  then obtain body where r: "length payload \<le> cap" "bs = envelope C key (blake3 C payload) body"
    "zstd_stream C body = (payload, None)" by blast
  then have "read_capped cap (zstd_stream C body) = Ok payload" using read_capped_Ok [of cap _ payload] by blast
  with r show ?l unfolding r(2) envelope_def by (simp add: decode_framed crypto_okD [OF assms])
qed

text \<open>
  An envelope is accepted exactly when it is well made. Decoding returns a payload if and only if
  the bytes are the frame of a body that decompresses to that payload within the cap, with the
  payload's own hash in the header and a tag that verifies under the key; every other byte
  string is refused.
\<close>

theorem decode_envelope_Ok_iff:
  assumes "crypto_ok C"
  shows "decode_envelope_from_bytes_with_cap C bs key cap = Ok payload \<longleftrightarrow>
    length payload \<le> cap \<and> (\<exists>body. bs = envelope C key (blake3 C payload) body \<and> zstd_stream C body = (payload, None))"
  using assms by (rule envelope_accepted)

lemma decode_encode:
  assumes "crypto_ok C" and "encode_envelope_to_vec C payload key = Ok bs" and "length payload \<le> cap"
  shows "decode_envelope_from_bytes_with_cap C bs key cap = Ok payload"
proof -
  have "bs = envelope C key (blake3 C payload) (zstd_encode C DEFAULT_ZSTD_LEVEL [payload])"
    using assms(2) by (auto simp: encode_envelope_to_vec_def split: if_splits)
  moreover have "read_capped cap (payload, None) = Ok payload" using assms(3) by (simp add: read_capped_def)
  ultimately show ?thesis
    using assms(3) crypto_okD(3) [OF assms(1), of DEFAULT_ZSTD_LEVEL "[payload]"]
    by (simp add: envelope_def decode_framed crypto_okD(1,2) [OF assms(1)])
qed

section \<open>A concrete instance\<close>

text \<open>Functions of the right shape, for evaluating the definitions.\<close>

definition demo_crypto :: crypto where
  "demo_crypto = \<lparr>
     blake3 = (\<lambda>x. take 32 (x @ replicate 32 0)),
     hmac_sha256 = (\<lambda>k x. take 32 (rev x @ k @ replicate 32 0)),
     zstd_encode = (\<lambda>l cs. concat cs),
     zstd_stream = (\<lambda>bs. (bs, None))\<rparr>"

lemma demo_crypto_ok: "crypto_ok demo_crypto"
  by (auto simp: crypto_ok_def demo_crypto_def)

theorem decode_envelope_Ok_iff_witness:
  "decode_envelope_from_bytes_with_cap demo_crypto (envelope demo_crypto [9] (blake3 demo_crypto [1, 2]) [1, 2]) [9] 8 = Ok [1, 2]"
  unfolding decode_envelope_Ok_iff [OF demo_crypto_ok] by (auto simp: demo_crypto_def)

end
