(* ===== verification/Artifact_Store.thy ===== *)
theory Artifact_Store
  imports Artifact_Envelope "HOL-Library.AList"
begin

text \<open>
  \<open>DiskArtifactStore\<close> and \<open>InMemoryArtifactStore\<close> of \<^verbatim>\<open>crates/tensor-wasm-artifacts/src/lib.rs\<close>.
  The directory is the list of its files in the order in which it is read, each with its bytes
  and modification time; which system calls fail is a parameter of every operation, so each
  I/O error of the source is a branch. A write becomes visible by its rename only.
\<close>

section \<open>Keys and names\<close>

record key_provider =
  active_key :: bytes
  read_keys :: "bytes list"

definition single_key_provider :: "bytes \<Rightarrow> key_provider" where
  "single_key_provider key = \<lparr>active_key = key, read_keys = [key]\<rparr>"

definition rotating_key_provider :: "bytes \<Rightarrow> bytes list \<Rightarrow> key_provider" where
  "rotating_key_provider active also_accept = \<lparr>active_key = active, read_keys = active # also_accept\<rparr>"

definition validated_hash_segment :: "bytes \<Rightarrow> (artifact_error, string) result" where
  "validated_hash_segment hash =
     (let hash_hex = hex_of hash
      in if length hash_hex = 64 \<and> list_all (\<lambda>c. c \<in> set HEX_LUT) hash_hex then Ok hash_hex else Err BadMagic)"

definition key_fingerprint_hex :: "crypto \<Rightarrow> bytes \<Rightarrow> string" where
  "key_fingerprint_hex C key = hex_of (take 8 (blake3 C key))"

definition path_for_key :: "bytes \<Rightarrow> string \<Rightarrow> (artifact_error, string) result" where
  "path_for_key hash fp = rbind (validated_hash_segment hash) (\<lambda>hash_hex. Ok (hash_hex @ ''.'' @ fp @ ''.bin''))"

definition meta_path_for_key :: "bytes \<Rightarrow> string \<Rightarrow> (artifact_error, string) result" where
  "meta_path_for_key hash fp = rbind (validated_hash_segment hash) (\<lambda>hash_hex. Ok (hash_hex @ ''.'' @ fp @ ''.meta.json''))"

text \<open>\<open>str::strip_suffix\<close>, and \<open>rfind\<close> with the slices around its result.\<close>

definition strip_suffix :: "string \<Rightarrow> string \<Rightarrow> string option" where
  "strip_suffix suf s =
     (if drop (length s - length suf) s = suf then Some (take (length s - length suf) s) else None)"

definition rsplit_once :: "char \<Rightarrow> string \<Rightarrow> (string \<times> string) option" where
  "rsplit_once c s =
     (if c \<in> set s
      then Some (rev (tl (dropWhile (\<lambda>x. x \<noteq> c) (rev s))), rev (takeWhile (\<lambda>x. x \<noteq> c) (rev s)))
      else None)"

definition parse_blob_filename :: "string \<Rightarrow> (bytes \<times> string) option" where
  "parse_blob_filename name =
     (case strip_suffix ''.bin'' name of
        None \<Rightarrow> None
      | Some stem \<Rightarrow>
          (case rsplit_once CHR ''.'' stem of
             None \<Rightarrow> None
           | Some (hash_hex, fp) \<Rightarrow> map_option (\<lambda>hash. (hash, fp)) (parse_hash_hex hash_hex)))"

section \<open>The disk store\<close>

datatype io_op =
    CreateDir
  | WriteTemp
  | SyncTemp
  | Persist string
  | ReadDir
  | ReadEntry string
  | StatFile string
  | OpenFile string
  | WriteOut nat \<comment> \<open>after so many bytes of the stream\<close>
  | Unlink string

datatype durability_policy = FullSync | NoSync

type_synonym dir_files = "(string \<times> bytes \<times> nat option) list"

record disk_store =
  files :: dir_files
  hmac_key :: bytes
  provider :: key_provider
  zstd_level :: int
  durability :: durability_policy

definition store_build :: "dir_files \<Rightarrow> key_provider \<Rightarrow> int \<Rightarrow> durability_policy \<Rightarrow> disk_store" where
  "store_build fs kp level policy =
     \<lparr>files = fs, hmac_key = active_key kp, provider = kp, zstd_level = level, durability = policy\<rparr>"

definition with_key_provider :: "dir_files \<Rightarrow> key_provider \<Rightarrow> disk_store" where
  "with_key_provider fs kp = store_build fs kp DEFAULT_ZSTD_LEVEL FullSync"

text \<open>The end of \<open>put\<close> and \<open>put_from\<close>: the temporary file, its sync and the rename.\<close>

definition publish :: "(io_op \<Rightarrow> bool) \<Rightarrow> nat \<Rightarrow> string \<Rightarrow> bytes \<Rightarrow> disk_store \<Rightarrow> disk_store \<times> (artifact_error, unit) result" where
  "publish io now path content st =
     (if io WriteTemp then (st, Err Io)
      else if durability st = FullSync \<and> io SyncTemp then (st, Err Io)
      else if io (Persist path) then (st, Err Io)
      else (st\<lparr>files := AList.update path (content, Some now) (files st)\<rparr>, Ok ()))"

definition store_put ::
    "crypto \<Rightarrow> (io_op \<Rightarrow> bool) \<Rightarrow> nat \<Rightarrow> bytes \<Rightarrow> disk_store \<Rightarrow> disk_store \<times> (artifact_error, bytes) result" where
  "store_put C io now payload st =
     (if length payload > MAX_PAYLOAD_LEN then (st, Err (TooLarge (length payload) MAX_PAYLOAD_LEN))
      else if io CreateDir then (st, Err Io)
      else
        let hash = blake3 C payload
        in case path_for_key hash (key_fingerprint_hex C (hmac_key st)) of
             Inl e \<Rightarrow> (st, Err e)
           | Inr path \<Rightarrow>
               (case publish io now path (envelope C (hmac_key st) hash (zstd_encode C (zstd_level st) [payload])) st of
                  (st', Inl e) \<Rightarrow> (st', Err e)
                | (st', Inr _) \<Rightarrow> (st', Ok hash)))"

text \<open>The first pass of \<open>put_from\<close> over what the source returns read by read; an empty read ends it.\<close>

fun ingest :: "nat \<Rightarrow> bytes list \<Rightarrow> bytes list \<Rightarrow> (artifact_error, bytes list) result" where
  "ingest n acc [] = Ok acc"
| "ingest n acc (c # cs) =
     (if c = [] then Ok acc
      else if n + length c > MAX_PAYLOAD_LEN then Err (TooLarge (n + length c) MAX_PAYLOAD_LEN)
      else ingest (n + length c) (acc @ [c]) cs)"

definition store_put_from ::
    "crypto \<Rightarrow> (io_op \<Rightarrow> bool) \<Rightarrow> nat \<Rightarrow> bytes list \<Rightarrow> disk_store \<Rightarrow> disk_store \<times> (artifact_error, bytes) result" where
  "store_put_from C io now src st =
     (if io CreateDir then (st, Err Io)
      else if io WriteTemp then (st, Err Io)
      else case ingest 0 [] src of
             Inl e \<Rightarrow> (st, Err e)
           | Inr chunks \<Rightarrow>
               let hash = blake3 C (concat chunks)
               in case path_for_key hash (key_fingerprint_hex C (hmac_key st)) of
                    Inl e \<Rightarrow> (st, Err e)
                  | Inr path \<Rightarrow>
                      (case publish io now path (envelope C (hmac_key st) hash (zstd_encode C (zstd_level st) chunks)) st of
                         (st', Inl e) \<Rightarrow> (st', Err e)
                       | (st', Inr _) \<Rightarrow> (st', Ok hash)))"

fun resolve_keys ::
    "crypto \<Rightarrow> (io_op \<Rightarrow> bool) \<Rightarrow> dir_files \<Rightarrow> bytes \<Rightarrow> bytes list \<Rightarrow> (artifact_error, (string \<times> bytes) option) result" where
  "resolve_keys C io fs hash [] = Ok None"
| "resolve_keys C io fs hash (key # keys) =
     (case path_for_key hash (key_fingerprint_hex C key) of
        Inl e \<Rightarrow> Err e
      | Inr path \<Rightarrow>
          if io (StatFile path) then Err Io
          else if map_of fs path = None then resolve_keys C io fs hash keys
          else Ok (Some (path, key)))"

definition resolve_read_key ::
    "crypto \<Rightarrow> (io_op \<Rightarrow> bool) \<Rightarrow> bytes \<Rightarrow> disk_store \<Rightarrow> (artifact_error, (string \<times> bytes) option) result" where
  "resolve_read_key C io hash st = resolve_keys C io (files st) hash (read_keys (provider st))"

text \<open>
  The reader of \<open>get\<close>: the tag is checked before a decoding error, the size and the hashes are
  reported.
\<close>

definition read_blob :: "crypto \<Rightarrow> bytes \<Rightarrow> bytes \<Rightarrow> bytes \<Rightarrow> (artifact_error, bytes) result" where
  "read_blob C key hash content =
     (if length content < ARTIFACT_HEADER_LEN + ARTIFACT_HMAC_LEN then Err BadMagic
      else
        let prefix_end = length content - ARTIFACT_HMAC_LEN;
            header = take ARTIFACT_HEADER_LEN content;
            body = take (prefix_end - ARTIFACT_HEADER_LEN) (drop ARTIFACT_HEADER_LEN content)
        in if take 16 header \<noteq> ARTIFACT_MAGIC then Err BadMagic
           else
             let version = from_le_bytes (take 4 (drop 16 header))
             in if version \<noteq> ARTIFACT_VERSION then Err (BadVersion version)
                else
                  let hash_on_disk = take 32 (drop 20 header);
                      decode_result = read_capped MAX_DECOMPRESSED_LEN (zstd_stream C body)
                  in if hmac_sha256 C key (header @ body) \<noteq> drop prefix_end content then Err BadHmac
                     else case decode_result of
                            Inl e \<Rightarrow> Err (Decompression e)
                          | Inr payload \<Rightarrow>
                              if length payload > MAX_DECOMPRESSED_LEN
                              then Err (TooLarge (length payload) MAX_DECOMPRESSED_LEN)
                              else if blake3 C payload \<noteq> hash_on_disk
                              then Err (HashMismatch (hex_of hash_on_disk) (hex_of (blake3 C payload)))
                              else if blake3 C payload \<noteq> hash
                              then Err (HashMismatch (hex_of hash) (hex_of (blake3 C payload)))
                              else Ok payload)"

definition store_get :: "crypto \<Rightarrow> (io_op \<Rightarrow> bool) \<Rightarrow> bytes \<Rightarrow> disk_store \<Rightarrow> (artifact_error, bytes) result" where
  "store_get C io hash st =
     (case resolve_read_key C io hash st of
        Inl e \<Rightarrow> Err e
      | Inr None \<Rightarrow> Err (NotFound (hex_of hash))
      | Inr (Some (path, key)) \<Rightarrow>
          if io (OpenFile path) then Err Io
          else case map_of (files st) path of
                 None \<Rightarrow> Err (NotFound (hex_of hash))
               | Some (content, _) \<Rightarrow> read_blob C key hash content)"

text \<open>The two passes of \<open>get_to\<close>; the second gives what reached the writer and the outcome.\<close>

definition verify_blob :: "crypto \<Rightarrow> bytes \<Rightarrow> bytes \<Rightarrow> (artifact_error, bytes \<times> nat) result" where
  "verify_blob C key content =
     (if length content < ARTIFACT_HEADER_LEN + ARTIFACT_HMAC_LEN then Err BadMagic
      else
        let prefix_end = length content - ARTIFACT_HMAC_LEN;
            body_len = prefix_end - ARTIFACT_HEADER_LEN;
            header = take ARTIFACT_HEADER_LEN content
        in if take 16 header \<noteq> ARTIFACT_MAGIC then Err BadMagic
           else
             let version = from_le_bytes (take 4 (drop 16 header))
             in if version \<noteq> ARTIFACT_VERSION then Err (BadVersion version)
                else if hmac_sha256 C key (header @ take body_len (drop ARTIFACT_HEADER_LEN content)) \<noteq> drop prefix_end content
                then Err BadHmac
                else Ok (take 32 (drop 20 header), body_len))"

definition decode_to_writer ::
    "crypto \<Rightarrow> (io_op \<Rightarrow> bool) \<Rightarrow> bytes \<Rightarrow> bytes \<times> nat \<Rightarrow> bytes \<Rightarrow> bytes \<times> (artifact_error, nat) result" where
  "decode_to_writer C io requested = (\<lambda>(hash_on_disk, body_len) content.
     let cap = MAX_DECOMPRESSED_LEN;
         (out, stop) = zstd_stream C (take body_len (drop ARTIFACT_HEADER_LEN content));
         written = take (cap + 1) out
     in case List.find (\<lambda>k. io (WriteOut k)) [0..<length written] of
          Some k \<Rightarrow> (take k written, Err Io)
        | None \<Rightarrow>
        if length out \<le> cap \<and> stop \<noteq> None then (written, Err (Decompression (the stop)))
        else if length written > cap then (written, Err (TooLarge (length written) cap))
        else if blake3 C written \<noteq> hash_on_disk
        then (written, Err (HashMismatch (hex_of hash_on_disk) (hex_of (blake3 C written))))
        else if blake3 C written \<noteq> requested
        then (written, Err (HashMismatch (hex_of requested) (hex_of (blake3 C written))))
        else (written, Ok (length written)))"

definition store_get_to ::
    "crypto \<Rightarrow> (io_op \<Rightarrow> bool) \<Rightarrow> bytes \<Rightarrow> disk_store \<Rightarrow> bytes \<times> (artifact_error, nat) result" where
  "store_get_to C io hash st =
     (case resolve_read_key C io hash st of
        Inl e \<Rightarrow> ([], Err e)
      | Inr None \<Rightarrow> ([], Err (NotFound (hex_of hash)))
      | Inr (Some (path, key)) \<Rightarrow>
          if io (OpenFile path) then ([], Err Io)
          else case map_of (files st) path of
                 None \<Rightarrow> ([], Err (NotFound (hex_of hash)))
               | Some (content, _) \<Rightarrow>
                   (case verify_blob C key content of
                      Inl e \<Rightarrow> ([], Err e)
                    | Inr v \<Rightarrow> decode_to_writer C io hash v content))"

definition store_contains :: "crypto \<Rightarrow> (io_op \<Rightarrow> bool) \<Rightarrow> bytes \<Rightarrow> disk_store \<Rightarrow> (artifact_error, bool) result" where
  "store_contains C io hash st = rbind (resolve_read_key C io hash st) (\<lambda>r. Ok (r \<noteq> None))"

definition store_remove ::
    "crypto \<Rightarrow> (io_op \<Rightarrow> bool) \<Rightarrow> bytes \<Rightarrow> disk_store \<Rightarrow> disk_store \<times> (artifact_error, bool) result" where
  "store_remove C io hash st =
     (case resolve_read_key C io hash st of
        Inl e \<Rightarrow> (st, Err e)
      | Inr None \<Rightarrow> (st, Ok False)
      | Inr (Some (path, key)) \<Rightarrow>
          if io (Unlink path) then (st, Err Io)
          else
            let st' = st\<lparr>files := AList.delete path (files st)\<rparr>
            in case meta_path_for_key hash (key_fingerprint_hex C key) of
                 Inl _ \<Rightarrow> (st', Ok True)
               | Inr meta_path \<Rightarrow>
                   (if io (Unlink meta_path) then st' else st'\<lparr>files := AList.delete meta_path (files st')\<rparr>, Ok True))"

section \<open>Listing and collection\<close>

text \<open>\<open>for_each_blob\<close>: the hash, length and modification time of each blob under an accepted key.\<close>

fun scan_blobs ::
    "(io_op \<Rightarrow> bool) \<Rightarrow> string list \<Rightarrow> dir_files \<Rightarrow> (artifact_error, (bytes \<times> nat \<times> nat option) list) result" where
  "scan_blobs io accepted [] = Ok []"
| "scan_blobs io accepted ((name, content, modified) # es) =
     (if io (ReadEntry name) then Err Io
      else case parse_blob_filename name of
             None \<Rightarrow> scan_blobs io accepted es
           | Some (hash, fp) \<Rightarrow>
               if fp \<notin> set accepted then scan_blobs io accepted es
               else if io (StatFile name) then Err Io
               else if length content < ARTIFACT_HEADER_LEN + ARTIFACT_HMAC_LEN then scan_blobs io accepted es
               else rbind (scan_blobs io accepted es) (\<lambda>r. Ok ((hash, length content, modified) # r)))"

definition for_each_blob ::
    "crypto \<Rightarrow> (io_op \<Rightarrow> bool) \<Rightarrow> disk_store \<Rightarrow> (artifact_error, (bytes \<times> nat \<times> nat option) list) result" where
  "for_each_blob C io st =
     (if io ReadDir then Err Io
      else scan_blobs io (map (key_fingerprint_hex C) (read_keys (provider st))) (files st))"

definition store_list :: "crypto \<Rightarrow> (io_op \<Rightarrow> bool) \<Rightarrow> disk_store \<Rightarrow> (artifact_error, bytes list) result" where
  "store_list C io st = rbind (for_each_blob C io st) (\<lambda>blobs. Ok (remdups (map fst blobs)))"

definition store_total_bytes :: "crypto \<Rightarrow> (io_op \<Rightarrow> bool) \<Rightarrow> disk_store \<Rightarrow> (artifact_error, nat) result" where
  "store_total_bytes C io st = rbind (for_each_blob C io st) (\<lambda>blobs. Ok (\<Sum>(_, len, _)\<leftarrow>blobs. len))"

fun remove_victims ::
    "crypto \<Rightarrow> (io_op \<Rightarrow> bool) \<Rightarrow> bytes list \<Rightarrow> nat \<Rightarrow> disk_store \<Rightarrow> disk_store \<times> (artifact_error, nat) result" where
  "remove_victims C io [] removed st = (st, Ok removed)"
| "remove_victims C io (hash # victims) removed st =
     (case store_remove C io hash st of
        (st', Inl e) \<Rightarrow> (st', Err e)
      | (st', Inr was_there) \<Rightarrow> remove_victims C io victims (if was_there then removed + 1 else removed) st')"

definition prune_older_than ::
    "crypto \<Rightarrow> (io_op \<Rightarrow> bool) \<Rightarrow> nat \<Rightarrow> disk_store \<Rightarrow> disk_store \<times> (artifact_error, nat) result" where
  "prune_older_than C io cutoff st =
     (case for_each_blob C io st of
        Inl e \<Rightarrow> (st, Err e)
      | Inr blobs \<Rightarrow>
          remove_victims C io
            (map fst (filter (\<lambda>(_, _, modified). case modified of Some mtime \<Rightarrow> mtime < cutoff | None \<Rightarrow> False) blobs)) 0 st)"

record gc_policy =
  max_age :: "nat option"
  max_total_bytes :: "nat option"

record gc_outcome =
  removed_by_age :: nat
  removed_by_size :: nat
  bytes_after :: nat

fun evict_until ::
    "crypto \<Rightarrow> (io_op \<Rightarrow> bool) \<Rightarrow> nat \<Rightarrow> (bytes \<times> nat \<times> nat) list \<Rightarrow> nat \<Rightarrow> nat \<Rightarrow> disk_store
      \<Rightarrow> disk_store \<times> (artifact_error, nat) result" where
  "evict_until C io max_total [] total_len removed st = (st, Ok removed)"
| "evict_until C io max_total ((hash, len, _) # blobs) total_len removed st =
     (if total_len \<le> max_total then (st, Ok removed)
      else case store_remove C io hash st of
             (st', Inl e) \<Rightarrow> (st', Err e)
           | (st', Inr was_there) \<Rightarrow>
               if was_there then evict_until C io max_total blobs (total_len - len) (removed + 1) st'
               else evict_until C io max_total blobs total_len removed st')"

definition gc_by_size ::
    "crypto \<Rightarrow> (io_op \<Rightarrow> bool) \<Rightarrow> nat \<Rightarrow> disk_store \<Rightarrow> disk_store \<times> (artifact_error, nat) result" where
  "gc_by_size C io max_total st =
     (case for_each_blob C io st of
        Inl e \<Rightarrow> (st, Err e)
      | Inr found \<Rightarrow>
          let blobs = map (\<lambda>(hash, len, modified). (hash, len, case modified of Some m \<Rightarrow> m | None \<Rightarrow> 0)) found;
              total_len = (\<Sum>(_, len, _)\<leftarrow>found. len)
          in if total_len > max_total
             then evict_until C io max_total (sort_key (\<lambda>(_, _, mtime). mtime) blobs) total_len 0 st
             else (st, Ok 0))"

definition store_gc ::
    "crypto \<Rightarrow> (io_op \<Rightarrow> bool) \<Rightarrow> nat \<Rightarrow> gc_policy \<Rightarrow> disk_store \<Rightarrow> disk_store \<times> (artifact_error, gc_outcome) result" where
  "store_gc C io now policy st =
     (case (case max_age policy of None \<Rightarrow> (st, Ok 0) | Some age \<Rightarrow> prune_older_than C io (now - age) st) of
        (st1, Inl e) \<Rightarrow> (st1, Err e)
      | (st1, Inr by_age) \<Rightarrow>
          (case (case max_total_bytes policy of None \<Rightarrow> (st1, Ok 0) | Some m \<Rightarrow> gc_by_size C io m st1) of
             (st2, Inl e) \<Rightarrow> (st2, Err e)
           | (st2, Inr by_size) \<Rightarrow>
               (case store_total_bytes C io st2 of
                  Inl e \<Rightarrow> (st2, Err e)
                | Inr n \<Rightarrow> (st2, Ok \<lparr>removed_by_age = by_age, removed_by_size = by_size, bytes_after = n\<rparr>))))"

section \<open>The in-memory store\<close>

definition mem_put :: "crypto \<Rightarrow> bytes \<Rightarrow> (bytes \<rightharpoonup> bytes) \<Rightarrow> (bytes \<rightharpoonup> bytes) \<times> bytes" where
  "mem_put C payload m = (m(blake3 C payload \<mapsto> payload), blake3 C payload)"

definition mem_get :: "bytes \<Rightarrow> (bytes \<rightharpoonup> bytes) \<Rightarrow> (artifact_error, bytes) result" where
  "mem_get hash m = (case m hash of None \<Rightarrow> Err (NotFound (hex_of hash)) | Some payload \<Rightarrow> Ok payload)"

definition mem_remove :: "bytes \<Rightarrow> (bytes \<rightharpoonup> bytes) \<Rightarrow> (bytes \<rightharpoonup> bytes) \<times> bool" where
  "mem_remove hash m = (m(hash := None), m hash \<noteq> None)"

section \<open>Names\<close>

lemma validated_hash: "length hash = 32 \<Longrightarrow> validated_hash_segment hash = Ok (hex_of hash)"
  using hex_of_chars [of hash] by (auto simp: validated_hash_segment_def list_all_iff Let_def)

lemma paths_32 [simp]:
  assumes "length hash = 32"
  shows "path_for_key hash fp = Ok (hex_of hash @ ''.'' @ fp @ ''.bin'')"
    and "meta_path_for_key hash fp = Ok (hex_of hash @ ''.'' @ fp @ ''.meta.json'')"
  using assms by (simp_all add: path_for_key_def meta_path_for_key_def validated_hash)

lemma path_for_key_Ok: "path_for_key hash fp = Ok path \<Longrightarrow> length hash = 32 \<and> path = hex_of hash @ ''.'' @ fp @ ''.bin''"
  by (auto simp: path_for_key_def validated_hash_segment_def Let_def split: if_splits)

lemma rsplit_once_append: "c \<notin> set b \<Longrightarrow> rsplit_once c (a @ c # b) = Some (a, b)"
proof -
  assume c: "c \<notin> set b"
  then have n: "c \<notin> set (rev b)" by simp
  have "takeWhile (\<lambda>x. x \<noteq> c) (rev b @ c # rev a) = rev b" "dropWhile (\<lambda>x. x \<noteq> c) (rev b @ c # rev a) = c # rev a"
    using n by (subst takeWhile_append2 dropWhile_append2; auto)+
  then show ?thesis by (simp add: rsplit_once_def)
qed

lemma dot_not_hex: "CHR ''.'' \<notin> set (hex_of bs)"
  using hex_of_chars [of bs] by (auto simp: HEX_LUT_def)

lemma parse_blob_filename_of:
  assumes "length hash = 32"
  shows "parse_blob_filename (hex_of hash @ ''.'' @ hex_of fp @ ''.bin'') = Some (hash, hex_of fp)"
proof -
  have "strip_suffix ''.bin'' (hex_of hash @ ''.'' @ hex_of fp @ ''.bin'') = Some (hex_of hash @ CHR ''.'' # hex_of fp)"
    by (simp add: strip_suffix_def)
  with rsplit_once_append [OF dot_not_hex, of "hex_of hash" fp] assms show ?thesis
    by (simp add: parse_blob_filename_def parse_hash_hex_of)
qed

section \<open>Reading\<close>

text \<open>The streaming reader of \<open>get\<close> decides as the decoder of whole envelopes, then compares the hash asked for.\<close>

lemma blob_regions:
  assumes "ARTIFACT_HEADER_LEN + ARTIFACT_HMAC_LEN \<le> length content"
  defines "e \<equiv> length content - ARTIFACT_HMAC_LEN"
  shows "take ARTIFACT_HEADER_LEN content @ drop ARTIFACT_HEADER_LEN (take e content) = take e content"
    and "take (e - ARTIFACT_HEADER_LEN) (drop ARTIFACT_HEADER_LEN content) = drop ARTIFACT_HEADER_LEN (take e content)"
    and "take 16 (take ARTIFACT_HEADER_LEN content) = take 16 content"
    and "take 4 (drop 16 (take ARTIFACT_HEADER_LEN content)) = take 4 (drop 16 content)"
    and "take 32 (drop 20 (take ARTIFACT_HEADER_LEN content)) = take 32 (drop 20 content)"
proof -
  have "ARTIFACT_HEADER_LEN \<le> e" using assms(1) by (simp add: e_def)
  then have "take ARTIFACT_HEADER_LEN content = take ARTIFACT_HEADER_LEN (take e content)" by (simp add: min_absorb1)
  then show "take ARTIFACT_HEADER_LEN content @ drop ARTIFACT_HEADER_LEN (take e content) = take e content"
    by (simp only: append_take_drop_id)
qed (simp_all add: drop_take ARTIFACT_HEADER_LEN_def)

lemma read_blob_eq:
  "read_blob C key hash content =
     (case decode_envelope_from_bytes_with_cap C content key MAX_DECOMPRESSED_LEN of
        Inl e \<Rightarrow> Err e
      | Inr p \<Rightarrow> if blake3 C p \<noteq> hash then Err (HashMismatch (hex_of hash) (hex_of (blake3 C p))) else Ok p)"
proof (cases "ARTIFACT_HEADER_LEN + ARTIFACT_HMAC_LEN \<le> length content")
  case True
  then show ?thesis
    unfolding read_blob_def decode_envelope_from_bytes_with_cap_def Let_def blob_regions [OF True]
    by (cases "read_capped MAX_DECOMPRESSED_LEN
        (zstd_stream C (drop ARTIFACT_HEADER_LEN (take (length content - ARTIFACT_HMAC_LEN) content)))") simp_all
next
  case False
  then show ?thesis by (simp add: read_blob_def decode_envelope_from_bytes_with_cap_def)
qed

lemma read_blob_Ok:
  assumes "crypto_ok C"
  shows "read_blob C key hash content = Ok p \<longleftrightarrow> blake3 C p = hash \<and> length p \<le> MAX_DECOMPRESSED_LEN
    \<and> (\<exists>body. content = envelope C key hash body \<and> zstd_stream C body = (p, None))"
proof -
  have "read_blob C key hash content = Ok p \<longleftrightarrow>
      decode_envelope_from_bytes_with_cap C content key MAX_DECOMPRESSED_LEN = Ok p \<and> blake3 C p = hash"
    unfolding read_blob_eq by (cases "decode_envelope_from_bytes_with_cap C content key MAX_DECOMPRESSED_LEN") auto
  then show ?thesis unfolding envelope_accepted [OF assms] by blast
qed

text \<open>The two passes of \<open>get_to\<close> on one blob.\<close>

definition stream_blob :: "crypto \<Rightarrow> (io_op \<Rightarrow> bool) \<Rightarrow> bytes \<Rightarrow> bytes \<Rightarrow> bytes \<Rightarrow> bytes \<times> (artifact_error, nat) result" where
  "stream_blob C io key hash content =
     (case verify_blob C key content of Inl e \<Rightarrow> ([], Err e) | Inr v \<Rightarrow> decode_to_writer C io hash v content)"

lemma verify_blob_eq:
  assumes "ARTIFACT_HEADER_LEN + ARTIFACT_HMAC_LEN \<le> length content"
  shows "verify_blob C key content =
    (if take 16 content \<noteq> ARTIFACT_MAGIC then Err BadMagic
     else if from_le_bytes (take 4 (drop 16 content)) \<noteq> ARTIFACT_VERSION
     then Err (BadVersion (from_le_bytes (take 4 (drop 16 content))))
     else if hmac_sha256 C key (take (length content - ARTIFACT_HMAC_LEN) content) \<noteq> drop (length content - ARTIFACT_HMAC_LEN) content
     then Err BadHmac
     else Ok (take 32 (drop 20 content), length content - ARTIFACT_HMAC_LEN - ARTIFACT_HEADER_LEN))"
  unfolding verify_blob_def Let_def blob_regions [OF assms] using assms by simp

lemma verify_blob_Ok:
  assumes "verify_blob C key content = Ok (h, n)"
  shows "\<exists>body tag. content = envelope_prefix h body @ tag \<and> length h = 32 \<and> length tag = 32
    \<and> hmac_sha256 C key (envelope_prefix h body) = tag \<and> n = length body"
proof -
  have len: "ARTIFACT_HEADER_LEN + ARTIFACT_HMAC_LEN \<le> length content"
    using assms by (auto simp: verify_blob_def split: if_splits)
  from assms [unfolded verify_blob_eq [OF len]] have *: "take 16 content = ARTIFACT_MAGIC" "from_le_bytes (take 4 (drop 16 content)) = ARTIFACT_VERSION"
    "hmac_sha256 C key (take (length content - ARTIFACT_HMAC_LEN) content) = drop (length content - ARTIFACT_HMAC_LEN) content"
    "h = take 32 (drop 20 content)" "n = length content - ARTIFACT_HMAC_LEN - ARTIFACT_HEADER_LEN"
    by (auto split: if_splits)
  obtain hash body tag where c: "content = envelope_prefix hash body @ tag" "length hash = 32" "length tag = 32"
    using envelope_split [OF len *(1,2)] by blast
  note f = envelope_fields [OF c(2,3), of body, folded c(1)]
  from *(3) have "hmac_sha256 C key (envelope_prefix hash body) = tag" unfolding f(5,6) .
  moreover have "h = hash" using *(4) unfolding f(4) .
  moreover have "n = length body" using *(5) f(1) by simp
  ultimately show ?thesis using c by blast
qed

lemma verify_framed:
  assumes "length h = 32" and "length tag = 32" and "hmac_sha256 C key (envelope_prefix h body) = tag"
  shows "verify_blob C key (envelope_prefix h body @ tag) = Ok (h, length body)"
proof -
  let ?c = "envelope_prefix h body @ tag"
  note f = envelope_fields [OF assms(1,2), of body]
  have len: "ARTIFACT_HEADER_LEN + ARTIFACT_HMAC_LEN \<le> length ?c" unfolding f(1) by simp
  show ?thesis
    unfolding verify_blob_eq [OF len] f(2-6) using f(1) assms(3) by simp
qed

lemma framed_body:
  "length h = 32 \<Longrightarrow> take (length body) (drop ARTIFACT_HEADER_LEN (envelope_prefix h body @ tag)) = body"
  by (simp add: envelope_prefix_def ARTIFACT_HEADER_LEN_def)

text \<open>What reaches the writer is the payload \<open>get\<close> would return, or it comes from an authenticated blob.\<close>

lemma find_never [simp]: "List.find (\<lambda>k. False) xs = None"
  by (induction xs) simp_all

lemma stream_blob_Ok:
  assumes C: "crypto_ok C" and "\<forall>k. \<not> io (WriteOut k)"
  shows "stream_blob C io key hash content = (out, Ok n) \<longleftrightarrow> read_blob C key hash content = Ok out \<and> n = length out"
proof
  assume *: "stream_blob C io key hash content = (out, Ok n)"
  then obtain h l where v: "verify_blob C key content = Ok (h, l)" by (auto simp: stream_blob_def split: sum.splits)
  then obtain body tag where c: "content = envelope_prefix h body @ tag" "length h = 32"
    "hmac_sha256 C key (envelope_prefix h body) = tag" "l = length body" using verify_blob_Ok by blast
  obtain o' stop where z: "zstd_stream C body = (o', stop)" by fastforce
  have d: "decode_to_writer C io hash (h, length body) content = (out, Ok n)"
    using * by (simp add: stream_blob_def v c(4))
  have b: "zstd_stream C (take (length body) (drop ARTIFACT_HEADER_LEN content)) = (o', stop)"
    unfolding c(1) framed_body [OF c(2)] by (rule z)
  from d have "out = take (MAX_DECOMPRESSED_LEN + 1) o'" "n = length out" "blake3 C out = h" "blake3 C out = hash"
    "length out \<le> MAX_DECOMPRESSED_LEN" "\<not> (length o' \<le> MAX_DECOMPRESSED_LEN \<and> stop \<noteq> None)"
    unfolding decode_to_writer_def prod.case b Let_def using assms(2) by (auto split: if_splits)
  moreover from this have "out = o'" "stop = None" by (auto simp: min_def split: if_splits)
  ultimately show "read_blob C key hash content = Ok out \<and> n = length out"
    using c z unfolding read_blob_Ok [OF C] envelope_def by auto
next
  assume *: "read_blob C key hash content = Ok out \<and> n = length out"
  then obtain body where r: "blake3 C out = hash" "length out \<le> MAX_DECOMPRESSED_LEN"
    "content = envelope C key hash body" "zstd_stream C body = (out, None)"
    unfolding read_blob_Ok [OF C] by blast
  have h: "length hash = 32" using r(1) crypto_okD(1) [OF C, of out] by simp
  have v: "verify_blob C key content = Ok (hash, length body)"
    unfolding r(3) envelope_def by (rule verify_framed [OF h crypto_okD(2) [OF C] refl])
  have b: "take (length body) (drop ARTIFACT_HEADER_LEN content) = body"
    unfolding r(3) envelope_def by (rule framed_body [OF h])
  show "stream_blob C io key hash content = (out, Ok n)"
    using r(1,2,4) * assms(2) by (simp add: stream_blob_def v decode_to_writer_def b Let_def)
qed

lemma stream_blob_authentic:
  assumes "stream_blob C io key hash content = (out, r)" and "out \<noteq> []"
  shows "\<exists>h body. content = envelope C key h body"
proof -
  obtain h l where "verify_blob C key content = Ok (h, l)"
    using assms by (auto simp: stream_blob_def split: sum.splits)
  with verify_blob_Ok show ?thesis unfolding envelope_def by blast
qed

section \<open>Store and retrieve\<close>

abbreviation no_faults :: "io_op \<Rightarrow> bool" where
  "no_faults \<equiv> \<lambda>_. False"

lemma store_put_Ok:
  assumes C: "crypto_ok C" and "length payload \<le> MAX_PAYLOAD_LEN"
  shows "store_put C no_faults now payload st =
    (st\<lparr>files := AList.update (hex_of (blake3 C payload) @ ''.'' @ key_fingerprint_hex C (hmac_key st) @ ''.bin'')
       (envelope C (hmac_key st) (blake3 C payload) (zstd_encode C (zstd_level st) [payload]), Some now) (files st)\<rparr>,
     Ok (blake3 C payload))"
  using assms(2) by (simp add: store_put_def Let_def crypto_okD [OF C] publish_def not_less)

lemma resolve_keys_skip:
  assumes "length hash = 32" and "\<forall>k \<in> set ks. map_of fs (hex_of hash @ ''.'' @ key_fingerprint_hex C k @ ''.bin'') = None"
  shows "resolve_keys C no_faults fs hash (ks @ rest) = resolve_keys C no_faults fs hash rest"
  using assms by (induction ks) simp_all

text \<open>A blob in place is read back through every key list in which no earlier key has one.\<close>

lemma get_stored:
  assumes C: "crypto_ok C" and len: "length payload \<le> MAX_PAYLOAD_LEN"
    and keys: "read_keys (provider st) = older @ key # rest"
    and none: "\<forall>k \<in> set older. map_of (files st) (hex_of (blake3 C payload) @ ''.'' @ key_fingerprint_hex C k @ ''.bin'') = None"
    and f: "map_of (files st) (hex_of (blake3 C payload) @ ''.'' @ key_fingerprint_hex C key @ ''.bin'') =
      Some (envelope C key (blake3 C payload) (zstd_encode C level [payload]), t)"
  shows "store_get C no_faults (blake3 C payload) st = Ok payload"
    and "store_get_to C no_faults (blake3 C payload) st = (payload, Ok (length payload))"
proof -
  let ?h = "blake3 C payload" and ?c = "envelope C key (blake3 C payload) (zstd_encode C level [payload])"
  have h: "length ?h = 32" by (rule crypto_okD(1) [OF C])
  have res: "resolve_read_key C no_faults ?h st = Ok (Some (hex_of ?h @ ''.'' @ key_fingerprint_hex C key @ ''.bin'', key))"
    unfolding resolve_read_key_def using resolve_keys_skip [OF h none] f h by (simp add: keys)
  have "length payload \<le> MAX_DECOMPRESSED_LEN" using len by (simp add: MAX_DECOMPRESSED_LEN_def)
  then have rb: "read_blob C key ?h ?c = Ok payload"
    unfolding read_blob_Ok [OF C] using crypto_okD(3) [OF C, of level "[payload]"] by auto
  have sb: "stream_blob C no_faults key ?h ?c = (payload, Ok (length payload))"
    unfolding stream_blob_Ok [OF C, of no_faults, simplified] using rb by simp
  show "store_get C no_faults ?h st = Ok payload" "store_get_to C no_faults ?h st = (payload, Ok (length payload))"
    using res f rb sb by (simp_all add: store_get_def store_get_to_def stream_blob_def)
qed

text \<open>
  C24: what is stored is read back, also after a key rotation. A payload within the limit is stored
  under its hash; afterwards \<open>get\<close> returns it, and \<open>get_to\<close> writes exactly it, for every key
  provider that lists the signing key behind keys that have no blob of that hash, in particular
  for the provider the store was built with.
\<close>

theorem put_get_roundtrip:
  assumes "crypto_ok C" and "length payload \<le> MAX_PAYLOAD_LEN"
    and "store_put C no_faults now payload st = (st', r)"
    and "read_keys kp = older @ hmac_key st # rest"
    and "\<forall>k \<in> set older. map_of (files st') (hex_of (blake3 C payload) @ ''.'' @ key_fingerprint_hex C k @ ''.bin'') = None"
  shows "r = Ok (blake3 C payload)
    \<and> store_get C no_faults (blake3 C payload) (st'\<lparr>provider := kp\<rparr>) = Ok payload
    \<and> store_get_to C no_faults (blake3 C payload) (st'\<lparr>provider := kp\<rparr>) = (payload, Ok (length payload))"
proof -
  have st': "(st', r) = (st\<lparr>files := AList.update (hex_of (blake3 C payload) @ ''.'' @ key_fingerprint_hex C (hmac_key st) @ ''.bin'')
      (envelope C (hmac_key st) (blake3 C payload) (zstd_encode C (zstd_level st) [payload]), Some now) (files st)\<rparr>, Ok (blake3 C payload))"
    using assms(3) unfolding store_put_Ok [OF assms(1,2)] by (rule sym)
  have "map_of (files st') (hex_of (blake3 C payload) @ ''.'' @ key_fingerprint_hex C (hmac_key st) @ ''.bin'') =
      Some (envelope C (hmac_key st) (blake3 C payload) (zstd_encode C (zstd_level st) [payload]), Some now)"
    using st' by (simp add: update_conv')
  then show ?thesis using get_stored [OF assms(1,2), of "st'\<lparr>provider := kp\<rparr>"] assms(4,5) st' by simp
qed

section \<open>Tampering\<close>

text \<open>A prefix the store itself signed, for one of the payloads it was given.\<close>

definition signed :: "crypto \<Rightarrow> bytes set \<Rightarrow> bytes \<Rightarrow> bool" where
  "signed C P prefix \<longleftrightarrow> (\<exists>level chunks. concat chunks \<in> P
     \<and> prefix = envelope_prefix (blake3 C (concat chunks)) (zstd_encode C level chunks))"

text \<open>Bytes that are an envelope with a valid tag under one of the keys only where the store signed them.\<close>

definition no_forgery :: "crypto \<Rightarrow> bytes set \<Rightarrow> bytes set \<Rightarrow> bytes \<Rightarrow> bool" where
  "no_forgery C K P content \<longleftrightarrow>
     (\<forall>key \<in> K. \<forall>h body. length h = 32 \<and> content = envelope C key h body \<longrightarrow> signed C P (envelope_prefix h body))"

text \<open>
  The stores that a history can lead to, with the payloads it stored: operations with any
  failures, rotations among the keys \<open>K\<close>, and an adversary who deletes files and writes any
  name with any bytes that are not a forgery, so also copies, mixes and truncations of signed
  files.
\<close>

inductive store_history :: "crypto \<Rightarrow> bytes set \<Rightarrow> bytes set \<Rightarrow> disk_store \<Rightarrow> bool" for C K where
  opened: "set (read_keys kp) \<subseteq> K \<Longrightarrow> store_history C K {} (store_build [] kp level policy)"
| put: "store_history C K P st \<Longrightarrow> store_put C io now payload st = (st', r) \<Longrightarrow> store_history C K (insert payload P) st'"
| put_from: "store_history C K P st \<Longrightarrow> store_put_from C io now src st = (st', r)
    \<Longrightarrow> store_history C K (insert (concat (takeWhile (\<lambda>c. c \<noteq> []) src)) P) st'"
| remove: "store_history C K P st \<Longrightarrow> store_remove C io hash st = (st', r') \<Longrightarrow> store_history C K P st'"
| gc: "store_history C K P st \<Longrightarrow> store_gc C io now policy st = (st', r'') \<Longrightarrow> store_history C K P st'"
| rotate: "store_history C K P st \<Longrightarrow> set (read_keys kp) \<subseteq> K
    \<Longrightarrow> store_history C K P (store_build (files st) kp level policy)"
| tamper: "store_history C K P st \<Longrightarrow> no_forgery C K P content
    \<Longrightarrow> store_history C K P (st\<lparr>files := AList.update name (content, t) (files st)\<rparr>)"
| delete: "store_history C K P st \<Longrightarrow> store_history C K P (st\<lparr>files := AList.delete name (files st)\<rparr>)"

definition history_ok :: "crypto \<Rightarrow> bytes set \<Rightarrow> bytes set \<Rightarrow> disk_store \<Rightarrow> bool" where
  "history_ok C K P st \<longleftrightarrow> set (read_keys (provider st)) \<subseteq> K \<and> (\<forall>f \<in> set (files st). no_forgery C K P (fst (snd f)))"

lemma signed_mono: "signed C P prefix \<Longrightarrow> P \<subseteq> Q \<Longrightarrow> signed C Q prefix"
  unfolding signed_def by blast

lemma no_forgery_mono: "no_forgery C K P content \<Longrightarrow> P \<subseteq> Q \<Longrightarrow> no_forgery C K Q content"
  unfolding no_forgery_def using signed_mono by blast

text \<open>The lengths of tags make the split of an envelope unique, so its own tag is no forgery.\<close>

lemma envelope_no_forgery:
  assumes "crypto_ok C" and "concat chunks \<in> P"
  shows "no_forgery C K P (envelope C key (blake3 C (concat chunks)) (zstd_encode C level chunks))"
  unfolding no_forgery_def
proof (intro ballI allI impI)
  fix key' h body
  let ?p = "envelope_prefix (blake3 C (concat chunks)) (zstd_encode C level chunks)"
  assume "length h = 32 \<and> envelope C key (blake3 C (concat chunks)) (zstd_encode C level chunks) = envelope C key' h body"
  then have "?p = envelope_prefix h body" using crypto_okD(2) [OF assms(1)] by (simp add: envelope_def append_eq_append_conv)
  with assms(2) show "signed C P (envelope_prefix h body)" unfolding signed_def by metis
qed

lemma set_update_subset: "set (AList.update k v al) \<subseteq> insert (k, v) (set al)"
  by (induction al) auto

lemma set_delete_subset: "set (AList.delete k al) \<subseteq> set al"
  by (auto simp: AList.delete_eq)

lemma history_ok_add:
  assumes "history_ok C K P st" and "no_forgery C K Q content" and "P \<subseteq> Q"
  shows "history_ok C K Q (st\<lparr>files := AList.update name (content, t) (files st)\<rparr>)"
  unfolding history_ok_def
proof (intro conjI ballI)
  fix f
  assume "f \<in> set (files (st\<lparr>files := AList.update name (content, t) (files st)\<rparr>))"
  then have "f = (name, content, t) \<or> f \<in> set (files st)" using set_update_subset [of name "(content, t)" "files st"] by auto
  then show "no_forgery C K Q (fst (snd f))"
    using assms(1,2) no_forgery_mono [OF _ assms(3)] by (auto simp: history_ok_def)
qed (use assms(1) in \<open>simp add: history_ok_def\<close>)

lemma history_ok_mono: "history_ok C K P st \<Longrightarrow> P \<subseteq> Q \<Longrightarrow> history_ok C K Q st"
  unfolding history_ok_def using no_forgery_mono by blast

text \<open>Removing never adds a file or changes the keys.\<close>

definition shrinks :: "disk_store \<Rightarrow> disk_store \<Rightarrow> bool" where
  "shrinks st st' \<longleftrightarrow> set (files st') \<subseteq> set (files st) \<and> provider st' = provider st"

lemma shrinks_trans: "shrinks a b \<Longrightarrow> shrinks b c \<Longrightarrow> shrinks a c"
  by (auto simp: shrinks_def)

lemma shrinks_refl [simp]: "shrinks st st"
  by (simp add: shrinks_def)

lemma history_ok_shrinks: "history_ok C K P st \<Longrightarrow> shrinks st st' \<Longrightarrow> history_ok C K P st'"
  by (auto simp: history_ok_def shrinks_def)

lemma delete_shrinks: "shrinks st (st\<lparr>files := AList.delete path (files st)\<rparr>)"
  using set_delete_subset [of path "files st"] by (simp add: shrinks_def)

lemma store_remove_shrinks:
  assumes "store_remove C io hash st = (st', r)"
  shows "shrinks st st'"
proof (cases "resolve_read_key C io hash st")
  case (Inr found)
  show ?thesis
  proof (cases found)
    case (Some pk)
    obtain path key where pk: "pk = (path, key)" by fastforce
    let ?d = "st\<lparr>files := AList.delete path (files st)\<rparr>"
    have "shrinks st (?d\<lparr>files := AList.delete meta (files ?d)\<rparr>)" for meta
      using delete_shrinks shrinks_trans by blast
    then show ?thesis
      using assms delete_shrinks [of st path] unfolding store_remove_def Inr Some pk Let_def
      by (simp split: if_splits sum.splits) auto
  qed (use assms Inr in \<open>simp add: store_remove_def\<close>)
qed (use assms in \<open>simp add: store_remove_def\<close>)

lemma remove_victims_shrinks: "remove_victims C io victims n st = (st', r) \<Longrightarrow> shrinks st st'"
proof (induction C io victims n st rule: remove_victims.induct)
  case (2 C io hash victims removed st)
  obtain st1 r1 where s: "store_remove C io hash st = (st1, r1)" by fastforce
  with 2 store_remove_shrinks [OF s] show ?case by (cases r1) (auto intro: shrinks_trans)
qed simp

lemma evict_until_shrinks: "evict_until C io m blobs n k st = (st', r) \<Longrightarrow> shrinks st st'"
proof (induction C io m blobs n k st rule: evict_until.induct)
  case (2 C io m hash len t blobs n k st)
  obtain st1 r1 where s: "store_remove C io hash st = (st1, r1)" by fastforce
  with 2 store_remove_shrinks [OF s] show ?case by (cases r1) (auto split: if_splits intro: shrinks_trans)
qed simp

lemma prune_shrinks: "prune_older_than C io cutoff st = (st', r) \<Longrightarrow> shrinks st st'"
  by (auto simp: prune_older_than_def dest: remove_victims_shrinks split: sum.splits)

lemma gc_by_size_shrinks: "gc_by_size C io m st = (st', r) \<Longrightarrow> shrinks st st'"
  by (auto simp: gc_by_size_def Let_def dest: evict_until_shrinks split: sum.splits if_splits)

lemma store_gc_shrinks:
  assumes "store_gc C io now policy st = (st', r)"
  shows "shrinks st st'"
proof -
  obtain st1 r1 where 1: "(case max_age policy of None \<Rightarrow> (st, Ok 0) | Some age \<Rightarrow> prune_older_than C io (now - age) st) = (st1, r1)"
    by fastforce
  obtain st2 r2 where 2: "(case max_total_bytes policy of None \<Rightarrow> (st1, Ok 0) | Some m \<Rightarrow> gc_by_size C io m st1) = (st2, r2)"
    by fastforce
  have "shrinks st st1" "shrinks st1 st2"
    using 1 2 by (auto dest: prune_shrinks gc_by_size_shrinks split: option.splits)
  moreover have "st' = st1 \<or> st' = st2"
    using assms by (auto simp: store_gc_def 1 2 split: sum.splits)
  ultimately show ?thesis by (auto intro: shrinks_trans)
qed

lemma history_ok_publish:
  assumes "crypto_ok C" and "history_ok C K P st" and "concat chunks \<in> Q" and "P \<subseteq> Q"
    and "publish io now path (envelope C key (blake3 C (concat chunks)) (zstd_encode C level chunks)) st = (st', r)"
  shows "history_ok C K Q st'"
  using assms(5) history_ok_mono [OF assms(2,4)] history_ok_add [OF assms(2) envelope_no_forgery [OF assms(1,3)] assms(4)]
  by (auto simp: publish_def split: if_splits)

lemma ingest_chunks: "ingest n acc src = Ok chunks \<Longrightarrow> chunks = acc @ takeWhile (\<lambda>c. c \<noteq> []) src"
  by (induction n acc src rule: ingest.induct) (auto split: if_splits)

lemma history_ok_put:
  assumes "crypto_ok C" and "history_ok C K P st" and "store_put C io now payload st = (st', r)"
  shows "history_ok C K (insert payload P) st'"
proof -
  have "publish io now path (envelope C (hmac_key st) (blake3 C payload) (zstd_encode C (zstd_level st) [payload])) st = (st1, r1)
      \<Longrightarrow> history_ok C K (insert payload P) st1" for path st1 r1
    using history_ok_publish [OF assms(1,2), of "[payload]" "insert payload P" io now path "hmac_key st" "zstd_level st" st1 r1]
    by auto
  then show ?thesis
    using assms(3) history_ok_mono [OF assms(2), of "insert payload P"]
    by (auto simp: store_put_def Let_def split: if_splits sum.splits prod.splits)
qed

lemma history_ok_put_from:
  assumes "crypto_ok C" and "history_ok C K P st" and "store_put_from C io now src st = (st', r)"
  shows "history_ok C K (insert (concat (takeWhile (\<lambda>c. c \<noteq> []) src)) P) st'"
proof -
  let ?cs = "takeWhile (\<lambda>c. c \<noteq> []) src"
  have "publish io now path (envelope C (hmac_key st) (blake3 C (concat ?cs)) (zstd_encode C (zstd_level st) ?cs)) st = (st1, r1)
      \<Longrightarrow> history_ok C K (insert (concat ?cs) P) st1" for path st1 r1
    using history_ok_publish [OF assms(1,2), of ?cs "insert (concat ?cs) P" io now path "hmac_key st" "zstd_level st" st1 r1]
    by auto
  then show ?thesis
    using assms(3) history_ok_mono [OF assms(2), of "insert (concat ?cs) P"] ingest_chunks [of 0 "[]" src]
    by (auto simp: store_put_from_def Let_def split: if_splits sum.splits prod.splits)
qed

lemma history_ok_reach:
  assumes "crypto_ok C" and "store_history C K P st"
  shows "history_ok C K P st"
  using assms(2)
proof induction
  case (opened kp level policy)
  then show ?case by (simp add: history_ok_def store_build_def)
next
  case (rotate P st kp level policy)
  then show ?case by (simp add: history_ok_def store_build_def)
next
  case (delete P st name)
  then show ?case using set_delete_subset [of name "files st"] by (auto simp: history_ok_def)
next
  case (tamper P st content name t)
  then show ?case by (auto intro: history_ok_add)
qed (auto intro: history_ok_put history_ok_put_from history_ok_shrinks store_remove_shrinks store_gc_shrinks assms(1))

lemma resolve_keys_Some:
  "resolve_keys C io fs hash ks = Ok (Some (path, key)) \<Longrightarrow> key \<in> set ks \<and> map_of fs path \<noteq> None"
  by (induction ks) (auto split: sum.splits if_splits)

text \<open>An authenticated blob of a history holds a stored payload.\<close>

lemma history_envelope:
  assumes C: "crypto_ok C" and ok: "history_ok C K P st" and f: "map_of (files st) path = Some (envelope C key h body, t)"
    and "key \<in> K" and h: "length h = 32"
  shows "\<exists>p \<in> P. h = blake3 C p \<and> zstd_stream C body = (p, None)"
proof -
  have "no_forgery C K P (envelope C key h body)"
    using ok map_of_SomeD [OF f] by (auto simp: history_ok_def)
  then have "signed C P (envelope_prefix h body)" using assms(4) h unfolding no_forgery_def by blast
  then obtain level chunks where p: "concat chunks \<in> P"
    "envelope_prefix h body = envelope_prefix (blake3 C (concat chunks)) (zstd_encode C level chunks)"
    unfolding signed_def by blast
  then have "h = blake3 C (concat chunks) \<and> body = zstd_encode C level chunks"
    using h crypto_okD(1) [OF C] by (simp add: envelope_prefix_def append_eq_append_conv)
  with p(1) crypto_okD(3) [OF C] show ?thesis by auto
qed

lemma history_keys:
  assumes "history_ok C K P st" and "resolve_read_key C io hash st = Ok (Some (path, key))"
  shows "key \<in> K"
  using assms resolve_keys_Some [of C io "files st" hash] by (auto simp: resolve_read_key_def history_ok_def)

lemma get_history:
  assumes C: "crypto_ok C" and ok: "history_ok C K P st" and got: "store_get C io hash st = Ok p"
  shows "p \<in> P \<and> blake3 C p = hash"
proof -
  obtain path key content t where r: "resolve_read_key C io hash st = Ok (Some (path, key))"
    "map_of (files st) path = Some (content, t)" "read_blob C key hash content = Ok p"
    using got by (auto simp: store_get_def split: sum.splits option.splits if_splits)
  then obtain body where b: "blake3 C p = hash" "content = envelope C key hash body" "zstd_stream C body = (p, None)"
    unfolding read_blob_Ok [OF C] by blast
  have "length hash = 32" using b(1) crypto_okD(1) [OF C, of p] by simp
  with history_envelope [OF C ok, of path key hash body t] r(2) b history_keys [OF ok r(1)] show ?thesis by auto
qed

text \<open>
  C13: the store returns only what was stored. However files are deleted, overwritten, truncated,
  copied under other names or exchanged, whatever operations fail, and through key rotations: a
  \<open>get\<close> that succeeds returns a payload that was given to \<open>put\<close> or \<open>put_from\<close>, and the one with
  the hash that was asked for; and every byte \<open>get_to\<close> hands to its writer, even when it then
  reports an error, is the beginning of such a payload. Signing keys that the adversary does not
  know are the assumption: files carry no valid tags the store did not make.
\<close>

theorem store_authentic:
  assumes "crypto_ok C" and "store_history C K P st"
  shows "(\<forall>p. store_get C io hash st = Ok p \<longrightarrow> p \<in> P \<and> blake3 C p = hash)
    \<and> (\<forall>out r. store_get_to C io hash st = (out, r) \<longrightarrow> (\<exists>p \<in> insert [] P. out = take (length out) p))"
proof -
  note ok = history_ok_reach [OF assms]
  have "\<exists>p \<in> insert [] P. out = take (length out) p" if got: "store_get_to C io hash st = (out, r)" for out r
  proof (cases "out = []")
    case False
    obtain path key content t where r: "resolve_read_key C io hash st = Ok (Some (path, key))"
      "map_of (files st) path = Some (content, t)" "stream_blob C io key hash content = (out, r)"
      using got False by (auto simp: store_get_to_def stream_blob_def split: sum.splits option.splits if_splits)
    then obtain h l where v: "verify_blob C key content = Ok (h, l)"
      using False by (auto simp: stream_blob_def split: sum.splits)
    then obtain body where b: "content = envelope C key h body" "length h = 32" "l = length body"
      using verify_blob_Ok [OF v] unfolding envelope_def by blast
    obtain p where p: "p \<in> P" "zstd_stream C body = (p, None)"
      using history_envelope [OF assms(1) ok, of path key h body t] r(2) b(1,2) history_keys [OF ok r(1)] by auto
    have "take (length body) (drop ARTIFACT_HEADER_LEN content) = body"
      unfolding b(1) envelope_def by (rule framed_body [OF b(2)])
    with r(3) v p(2) have "\<exists>k. out = take k p"
      using exI [of "\<lambda>k. out = take k out" "length out"] by (auto simp: stream_blob_def decode_to_writer_def Let_def b(3) split: if_splits option.splits)
    with p(1) show ?thesis by (intro bexI [of _ p]) (auto simp: min_def)
  qed auto
  then show ?thesis using get_history [OF assms(1) ok] by blast
qed

section \<open>Collection and duplicate copies\<close>

text \<open>
  C26: age-based collection can delete the wrong copy. When a payload was stored again after a
  rotation, its hash has a blob under the retired key and one under the active key. A sweep whose
  cutoff lies between their times selects the old blob by its age but removes by hash, and the
  active key is probed first: the fresh blob is deleted, the stale one stays.
\<close>

theorem prune_deletes_the_fresh_copy:
  assumes "crypto_ok C" and "length hash = 32" and "key_fingerprint_hex C old \<noteq> key_fingerprint_hex C new"
    and "length stale \<ge> ARTIFACT_HEADER_LEN + ARTIFACT_HMAC_LEN" and "length fresh \<ge> ARTIFACT_HEADER_LEN + ARTIFACT_HMAC_LEN"
    and "t_old < cutoff" and "cutoff \<le> t_new"
  defines "name k \<equiv> hex_of hash @ ''.'' @ key_fingerprint_hex C k @ ''.bin''"
  shows "prune_older_than C no_faults cutoff
      (with_key_provider [(name old, stale, Some t_old), (name new, fresh, Some t_new)] (rotating_key_provider new [old]))
    = (with_key_provider [(name old, stale, Some t_old)] (rotating_key_provider new [old]), Ok 1)"
proof -
  let ?kp = "rotating_key_provider new [old]" and ?fs = "[(name old, stale, Some t_old), (name new, fresh, Some t_new)]"
  have p: "parse_blob_filename (name k) = Some (hash, key_fingerprint_hex C k)" for k
    unfolding name_def key_fingerprint_hex_def by (rule parse_blob_filename_of [OF assms(2)])
  have ne: "name old \<noteq> name new" using assms(3) by (simp add: name_def)
  have s: "for_each_blob C no_faults (with_key_provider ?fs ?kp) =
      Ok [(hash, length stale, Some t_old), (hash, length fresh, Some t_new)]"
    using assms(4,5) by (simp add: for_each_blob_def with_key_provider_def store_build_def rotating_key_provider_def p not_less)
  have m: "name k \<noteq> hex_of hash @ ''.'' @ fp @ ''.meta.json''" for k fp
  proof
    assume "name k = hex_of hash @ ''.'' @ fp @ ''.meta.json''"
    then have "rev (name k) = rev (hex_of hash @ ''.'' @ fp @ ''.meta.json'')" by simp
    then show False by (simp add: name_def)
  qed
  have r: "resolve_read_key C no_faults hash (with_key_provider ?fs ?kp) = Ok (Some (name new, new))"
    using assms(2) ne by (simp add: resolve_read_key_def with_key_provider_def store_build_def rotating_key_provider_def name_def)
  have "store_remove C no_faults hash (with_key_provider ?fs ?kp) = (with_key_provider [(name old, stale, Some t_old)] ?kp, Ok True)"
    unfolding store_remove_def r using assms(2) ne m by (simp add: with_key_provider_def store_build_def Let_def)
  with s assms(6,7) show ?thesis by (simp add: prune_older_than_def)
qed

section \<open>Concrete runs\<close>

abbreviation demo_store :: disk_store where
  "demo_store \<equiv> with_key_provider [] (single_key_provider [9])"

theorem put_get_roundtrip_witness:
  "store_get demo_crypto no_faults (blake3 demo_crypto [1, 2])
     ((fst (store_put demo_crypto no_faults 5 [1, 2] demo_store))\<lparr>provider := rotating_key_provider [7] [[9]]\<rparr>) = Ok [1, 2]"
proof -
  let ?st = "fst (store_put demo_crypto no_faults 5 [1, 2] demo_store)"
  have len: "length [1, 2 :: u8] \<le> MAX_PAYLOAD_LEN" by (simp add: MAX_PAYLOAD_LEN_def)
  have k: "hmac_key demo_store = [9]" by (simp add: with_key_provider_def store_build_def single_key_provider_def)
  have "take 8 (blake3 demo_crypto [7]) \<noteq> take 8 (blake3 demo_crypto [9])" by (simp add: demo_crypto_def)
  then have "key_fingerprint_hex demo_crypto [7] \<noteq> key_fingerprint_hex demo_crypto [9]"
    by (simp add: key_fingerprint_hex_def hex_of_inject)
  then have older: "\<forall>x \<in> set [[7]]. map_of (files ?st)
      (hex_of (blake3 demo_crypto [1, 2]) @ ''.'' @ key_fingerprint_hex demo_crypto x @ ''.bin'') = None"
    unfolding store_put_Ok [OF demo_crypto_ok len] k by (simp add: with_key_provider_def store_build_def)
  have "store_put demo_crypto no_faults 5 [1, 2] demo_store = (?st, snd (store_put demo_crypto no_faults 5 [1, 2] demo_store))"
    by simp
  from put_get_roundtrip [OF demo_crypto_ok len this _ older, of "rotating_key_provider [7] [[9]]" "[]"] show ?thesis
    by (simp add: rotating_key_provider_def k)
qed

lemma demo_history:
  "store_history demo_crypto {[9]} {[1, 2]} (fst (store_put demo_crypto no_faults 5 [1, 2] demo_store))"
proof -
  have "store_history demo_crypto {[9]} {} demo_store"
    unfolding with_key_provider_def by (rule store_history.opened) (simp add: single_key_provider_def)
  then show ?thesis by (rule store_history.put [where io = no_faults and now = 5]) (simp add: prod_eq_iff)
qed

theorem store_authentic_witness:
  "store_history demo_crypto {[9]} {[1, 2]} (fst (store_put demo_crypto no_faults 5 [1, 2] demo_store))
   \<and> (\<forall>io hash. store_get demo_crypto io hash (fst (store_put demo_crypto no_faults 5 [1, 2] demo_store)) \<noteq> Ok [3])"
  using store_authentic [OF demo_crypto_ok demo_history] demo_history by fastforce

theorem prune_deletes_the_fresh_copy_witness:
  "files (fst (prune_older_than demo_crypto no_faults 10
     (with_key_provider
        [(hex_of (replicate 32 1) @ ''.'' @ key_fingerprint_hex demo_crypto [9] @ ''.bin'', replicate 84 0, Some 3),
         (hex_of (replicate 32 1) @ ''.'' @ key_fingerprint_hex demo_crypto [7] @ ''.bin'', replicate 84 0, Some 20)]
        (rotating_key_provider [7] [[9]]))))
   = [(hex_of (replicate 32 1) @ ''.'' @ key_fingerprint_hex demo_crypto [9] @ ''.bin'', replicate 84 0, Some 3)]"
proof -
  have "take 8 (blake3 demo_crypto [9]) \<noteq> take 8 (blake3 demo_crypto [7])" by (simp add: demo_crypto_def)
  then have ne: "key_fingerprint_hex demo_crypto [9] \<noteq> key_fingerprint_hex demo_crypto [7]"
    by (simp add: key_fingerprint_hex_def hex_of_inject)
  have len: "ARTIFACT_HEADER_LEN + ARTIFACT_HMAC_LEN \<le> length (replicate 84 (0 :: u8))"
    by (simp only: length_replicate ARTIFACT_HEADER_LEN_def ARTIFACT_HMAC_LEN_def)
  have t: "(3 :: nat) < 10" "(10 :: nat) \<le> 20" by simp_all
  show ?thesis
    unfolding prune_deletes_the_fresh_copy [OF demo_crypto_ok length_replicate ne len len t]
    by (simp add: with_key_provider_def store_build_def del: replicate.simps)
qed

end
