(* ===== verification/Jit_Disk.thy ===== *)
theory Jit_Disk
  imports Artifact_Store Utf8_Text
begin

text \<open>
  The on-disk tier of the kernel cache, \<open>DiskCache\<close> of \<^verbatim>\<open>crates/tensor-wasm-jit/src/cache.rs\<close>:
  cache keys, cached kernels with their integrity hash, the envelope of a kernel, and the sidecar
  files that map a cache key to the content hash of its blob in the artifact store. Sidecars and
  blobs share the store's directory.
\<close>

section \<open>Keys and kernels\<close>

record cache_key =
  key_tenant :: u64
  key_blueprint :: u64
  key_sm_version :: u32
  emit_config_hash :: u64

definition for_tenant :: "u64 \<Rightarrow> u64 \<Rightarrow> u32 \<Rightarrow> cache_key" where
  "for_tenant tenant blueprint sm =
     \<lparr>key_tenant = tenant, key_blueprint = blueprint, key_sm_version = sm, emit_config_hash = 0\<rparr>"

record emit_config =
  target :: bytes
  ptx_version :: bytes
  launch_bounds :: bool
  enable_experimental_matmul :: bool

definition for_tenant_with_emit_config :: "crypto \<Rightarrow> u64 \<Rightarrow> u64 \<Rightarrow> u32 \<Rightarrow> emit_config \<Rightarrow> cache_key" where
  "for_tenant_with_emit_config C tenant blueprint sm cfg =
     (let digest = blake3 C (map of_char ''tensor-wasm-jit::EmitConfig::v1'' @ [0] @ target cfg @ [0] @ ptx_version cfg
                             @ [0] @ [if launch_bounds cfg then 1 else 0])
      in \<lparr>key_tenant = tenant, key_blueprint = blueprint, key_sm_version = sm,
          emit_config_hash = from_le_bytes (take 8 digest)\<rparr>)"

record emitted_ptx =
  ptx_text :: bytes
  launch_geometry :: "u32 \<times> u32"

record cached_kernel =
  fingerprint :: u64
  kernel_ptx :: emitted_ptx
  integrity_hash :: bytes

definition cached_kernel_new :: "crypto \<Rightarrow> u64 \<Rightarrow> emitted_ptx \<Rightarrow> cached_kernel" where
  "cached_kernel_new C fp ptx = \<lparr>fingerprint = fp, kernel_ptx = ptx, integrity_hash = blake3 C (ptx_text ptx)\<rparr>"

definition verify_integrity :: "crypto \<Rightarrow> cached_kernel \<Rightarrow> bool" where
  "verify_integrity C k \<longleftrightarrow> blake3 C (ptx_text (kernel_ptx k)) = integrity_hash k"

section \<open>The envelope of a kernel\<close>

definition DISK_CACHE_MAGIC_V2 :: bytes where
  "DISK_CACHE_MAGIC_V2 = map of_char ''TWJIT-KRNL-v2'' @ [0, 0, 0]"

definition DISK_CACHE_HEADER_LEN_V2 :: nat where
  "DISK_CACHE_HEADER_LEN_V2 = 16 + 8 + 8 + 4 + 4 + 4 + 8"

definition SIDECAR_MAGIC_V1 :: bytes where
  "SIDECAR_MAGIC_V1 = map of_char ''TWJIT-IDX-v1'' @ [0, 0, 0, 0]"

definition SIDECAR_LEN_V1 :: nat where
  "SIDECAR_LEN_V1 = 16 + 32"

definition encode_v2_envelope :: "cache_key \<Rightarrow> cached_kernel \<Rightarrow> bytes" where
  "encode_v2_envelope key kern =
     (let ptx_bytes = ptx_text (kernel_ptx kern);
          (grid_x, block_x) = launch_geometry (kernel_ptx kern)
      in DISK_CACHE_MAGIC_V2 @ to_le_bytes (key_tenant key) @ to_le_bytes (key_blueprint key)
         @ to_le_bytes (key_sm_version key) @ to_le_bytes grid_x @ to_le_bytes block_x
         @ to_le_bytes (of_nat (length ptx_bytes) :: u64) @ ptx_bytes)"

text \<open>
  Reading an envelope for a key: whether the failure counts as an integrity rejection, and the
  kernel.
\<close>

definition parse_v2_envelope :: "crypto \<Rightarrow> cache_key \<Rightarrow> bytes \<Rightarrow> bool \<times> cached_kernel option" where
  "parse_v2_envelope C key env =
     (if length env < DISK_CACHE_HEADER_LEN_V2 then (False, None)
      else if take 16 env \<noteq> DISK_CACHE_MAGIC_V2 then (True, None)
      else
        let tenant_on_disk = from_le_bytes (take 8 (drop 16 env));
            fingerprint_on_disk = from_le_bytes (take 8 (drop 24 env));
            sm_version_on_disk = from_le_bytes (take 4 (drop 32 env));
            grid_x = from_le_bytes (take 4 (drop 36 env));
            block_x = from_le_bytes (take 4 (drop 40 env));
            ptx_len = from_le_bytes (take 8 (drop 44 env)) :: u64
        in if tenant_on_disk \<noteq> key_tenant key \<or> fingerprint_on_disk \<noteq> key_blueprint key
              \<or> sm_version_on_disk \<noteq> key_sm_version key
           then (True, None)
           else
             let ptx_end = saturating_add (of_nat DISK_CACHE_HEADER_LEN_V2) ptx_len
             in if unat ptx_end > length env then (True, None)
                else
                  let ptx_bytes = take (unat ptx_len) (drop DISK_CACHE_HEADER_LEN_V2 env)
                  in if \<not> utf8_valid ptx_bytes then (True, None)
                     else (False, Some (cached_kernel_new C fingerprint_on_disk
                             \<lparr>ptx_text = ptx_bytes, launch_geometry = (grid_x, block_x)\<rparr>)))"

section \<open>The disk cache\<close>

definition key_fingerprint_of :: "crypto \<Rightarrow> bytes \<Rightarrow> string" where
  "key_fingerprint_of C key = hex_of (take 8 (blake3 C key))"

text \<open>The store, and the fingerprint of the key that every sidecar name starts with.\<close>

record disk_cache =
  disk_hmac_key :: bytes
  artifact_store :: disk_store
  key_prefix_hex :: string

definition disk_cache_new :: "crypto \<Rightarrow> dir_files \<Rightarrow> bytes \<Rightarrow> disk_cache" where
  "disk_cache_new C fs key =
     \<lparr>disk_hmac_key = key, artifact_store = with_key_provider fs (single_key_provider key), key_prefix_hex = hex_of (take 8 (blake3 C key))\<rparr>"

definition disk_path_for :: "crypto \<Rightarrow> cache_key \<Rightarrow> disk_cache \<Rightarrow> string" where
  "disk_path_for C key dc =
     (let digest = blake3 C (map of_char ''tensor-wasm-jit::DiskCache::path::v1'' @ [0] @ to_le_bytes (key_tenant key)
                             @ to_le_bytes (key_blueprint key) @ to_le_bytes (key_sm_version key)
                             @ to_le_bytes (emit_config_hash key))
      in key_prefix_hex dc @ ''-'' @ hex_of (take 16 digest) @ ''.ptxbin'')"

text \<open>An error is only whether there was one: the caller logs it.\<close>

definition disk_put ::
    "crypto \<Rightarrow> (io_op \<Rightarrow> bool) \<Rightarrow> nat \<Rightarrow> cache_key \<Rightarrow> cached_kernel \<Rightarrow> disk_cache \<Rightarrow> disk_cache \<times> (unit, unit) result" where
  "disk_put C io now key kern dc =
     (if io CreateDir then (dc, Err ())
      else case store_put C io now (encode_v2_envelope key kern) (artifact_store dc) of
             (st, Inl _) \<Rightarrow> (dc\<lparr>artifact_store := st\<rparr>, Err ())
           | (st, Inr hash) \<Rightarrow>
               let sidecar = SIDECAR_MAGIC_V1 @ hash;
                   path = disk_path_for C key dc
               in if io WriteTemp \<or> io (Persist path) then (dc\<lparr>artifact_store := st\<rparr>, Err ())
                  else (dc\<lparr>artifact_store := st\<lparr>files := AList.update path (sidecar, Some now) (files st)\<rparr>\<rparr>, Ok ()))"

definition disk_get ::
    "crypto \<Rightarrow> (io_op \<Rightarrow> bool) \<Rightarrow> cache_key \<Rightarrow> disk_cache \<Rightarrow> bool \<times> (unit, cached_kernel option) result" where
  "disk_get C io key dc =
     (let path = disk_path_for C key dc
      in if io (OpenFile path) then (False, Err ())
         else case map_of (files (artifact_store dc)) path of
                None \<Rightarrow> (False, Ok None)
              | Some (sidecar, _) \<Rightarrow>
                  if length sidecar \<noteq> SIDECAR_LEN_V1 then (False, Ok None)
                  else if take 16 sidecar \<noteq> SIDECAR_MAGIC_V1 then (False, Ok None)
                  else
                    (case store_get C io (take 32 (drop 16 sidecar)) (artifact_store dc) of
                       Inl (NotFound _) \<Rightarrow> (False, Ok None)
                     | Inl _ \<Rightarrow> (True, Ok None)
                     | Inr env \<Rightarrow> (case parse_v2_envelope C key env of (reject, k) \<Rightarrow> (reject, Ok k))))"

definition active_key_fingerprint :: "crypto \<Rightarrow> disk_cache \<Rightarrow> string" where
  "active_key_fingerprint C dc = key_fingerprint_of C (disk_hmac_key dc)"

text \<open>File names and the collection of files under keys no longer used.\<close>

definition fingerprint_of_filename :: "string \<Rightarrow> string option" where
  "fingerprint_of_filename name =
     (case strip_suffix ''.ptxbin'' name of
        Some rest \<Rightarrow>
          let fp = takeWhile (\<lambda>c. c \<noteq> CHR ''-'') rest
          in if fp = [] \<or> length fp \<noteq> 16 then None else Some fp
      | None \<Rightarrow>
          (case strip_suffix ''.bin'' name of
             Some rest \<Rightarrow>
               let fp = rev (takeWhile (\<lambda>c. c \<noteq> CHR ''.'') (rev rest))
               in if length fp \<noteq> 16 then None else Some fp
           | None \<Rightarrow> None))"

fun gc_files ::
    "(io_op \<Rightarrow> bool) \<Rightarrow> string \<Rightarrow> string list \<Rightarrow> dir_files \<Rightarrow> dir_files \<Rightarrow> nat \<Rightarrow> dir_files \<times> (unit, nat) result" where
  "gc_files io current retain [] kept removed = (kept, Ok removed)"
| "gc_files io current retain ((name, f) # es) kept removed =
     (if io (ReadEntry name) then (kept @ (name, f) # es, Err ())
      else case fingerprint_of_filename name of
             None \<Rightarrow> gc_files io current retain es (kept @ [(name, f)]) removed
           | Some fp \<Rightarrow>
               if fp = current \<or> fp \<in> set retain then gc_files io current retain es (kept @ [(name, f)]) removed
               else if io (Unlink name) then (kept @ (name, f) # es, Err ())
               else gc_files io current retain es kept (removed + 1))"

definition gc_disk :: "crypto \<Rightarrow> (io_op \<Rightarrow> bool) \<Rightarrow> string list \<Rightarrow> disk_cache \<Rightarrow> disk_cache \<times> (unit, nat) result" where
  "gc_disk C io retain dc =
     (if io ReadDir then (dc, Err ())
      else case gc_files io (active_key_fingerprint C dc) retain (files (artifact_store dc)) [] 0 of
             (fs, r) \<Rightarrow> (dc\<lparr>artifact_store := (artifact_store dc)\<lparr>files := fs\<rparr>\<rparr>, r))"

section \<open>Round trip of the envelope\<close>

lemma length_v2_magic [simp]: "length DISK_CACHE_MAGIC_V2 = 16"
  by (simp add: DISK_CACHE_MAGIC_V2_def)

lemma v2_fields:
  fixes key :: cache_key and kern :: cached_kernel
  assumes "launch_geometry (kernel_ptx kern) = (gx, bx)"
  defines "env \<equiv> encode_v2_envelope key kern" and "text \<equiv> ptx_text (kernel_ptx kern)"
  shows "length env = DISK_CACHE_HEADER_LEN_V2 + length text" and "take 16 env = DISK_CACHE_MAGIC_V2"
    and "take 8 (drop 16 env) = to_le_bytes (key_tenant key)" and "take 8 (drop 24 env) = to_le_bytes (key_blueprint key)"
    and "take 4 (drop 32 env) = to_le_bytes (key_sm_version key)" and "take 4 (drop 36 env) = to_le_bytes gx"
    and "take 4 (drop 40 env) = to_le_bytes bx" and "take 8 (drop 44 env) = to_le_bytes (of_nat (length text) :: u64)"
    and "drop DISK_CACHE_HEADER_LEN_V2 env = text"
  by (simp_all add: assms encode_v2_envelope_def Let_def DISK_CACHE_HEADER_LEN_V2_def)

text \<open>
  Reading back for any key: the kernel comes out exactly where tenant, blueprint and compute
  capability agree.
\<close>

lemma parse_encode_v2:
  assumes "length (ptx_text (kernel_ptx kern)) < 2 ^ 63" and "utf8_valid (ptx_text (kernel_ptx kern))"
  shows "parse_v2_envelope C key (encode_v2_envelope key' kern) =
    (if key_tenant key' = key_tenant key \<and> key_blueprint key' = key_blueprint key \<and> key_sm_version key' = key_sm_version key
     then (False, Some (cached_kernel_new C (key_blueprint key) (kernel_ptx kern))) else (True, None))"
proof -
  obtain gx bx where g: "launch_geometry (kernel_ptx kern) = (gx, bx)" by fastforce
  let ?t = "ptx_text (kernel_ptx kern)"
  have n: "unat (of_nat (length ?t) :: u64) = length ?t" using assms(1) by (simp add: unat_of_nat take_bit_nat_eq_self_iff)
  have h: "unat (of_nat DISK_CACHE_HEADER_LEN_V2 :: u64) = DISK_CACHE_HEADER_LEN_V2" by (simp add: DISK_CACHE_HEADER_LEN_V2_def)
  have "DISK_CACHE_HEADER_LEN_V2 + length ?t < 2 ^ 64" using assms(1) by (simp add: DISK_CACHE_HEADER_LEN_V2_def)
  then have e: "unat (saturating_add (of_nat DISK_CACHE_HEADER_LEN_V2) (of_nat (length ?t)) :: u64) = DISK_CACHE_HEADER_LEN_V2 + length ?t"
    by (simp add: unat_saturating_add n h sat_id)
  have k: "\<lparr>ptx_text = ?t, launch_geometry = (gx, bx)\<rparr> = kernel_ptx kern" using g by (cases "kernel_ptx kern") simp
  show ?thesis
    unfolding parse_v2_envelope_def Let_def v2_fields [OF g] from_to_le_bytes n e
    using assms(2) by (simp add: k not_less)
qed

lemma encode_v2_inject:
  assumes "encode_v2_envelope k a = encode_v2_envelope k' b"
  shows "key_tenant k = key_tenant k'" and "key_blueprint k = key_blueprint k'" and "key_sm_version k = key_sm_version k'"
    and "kernel_ptx a = kernel_ptx b"
proof -
  obtain gx bx gx' bx' where g: "launch_geometry (kernel_ptx a) = (gx, bx)" "launch_geometry (kernel_ptx b) = (gx', bx')"
    by fastforce
  note A = v2_fields [OF g(1), of k] and B = v2_fields [OF g(2), of k']
  show "key_tenant k = key_tenant k'" using A(3) B(3) by (metis assms to_le_inj(3))
  show "key_blueprint k = key_blueprint k'" using A(4) B(4) by (metis assms to_le_inj(3))
  show "key_sm_version k = key_sm_version k'" using A(5) B(5) by (metis assms to_le_inj(2))
  have "gx = gx'" using A(6) B(6) by (metis assms to_le_inj(2))
  moreover have "bx = bx'" using A(7) B(7) by (metis assms to_le_inj(2))
  moreover have "ptx_text (kernel_ptx a) = ptx_text (kernel_ptx b)" using A(9) B(9) by (metis assms)
  ultimately show "kernel_ptx a = kernel_ptx b" using g by (cases "kernel_ptx a"; cases "kernel_ptx b") simp
qed

section \<open>Round trip through the disk\<close>

text \<open>What a Rust \<open>String\<close> guarantees of the text of a kernel.\<close>

definition kernel_valid :: "cached_kernel \<Rightarrow> bool" where
  "kernel_valid kern \<longleftrightarrow> utf8_valid (ptx_text (kernel_ptx kern)) \<and> length (ptx_text (kernel_ptx kern)) < 2 ^ 63"

lemma sidecar_not_blob: "disk_path_for C key dc \<noteq> hex_of h @ ''.'' @ fp @ ''.bin''"
proof
  assume "disk_path_for C key dc = hex_of h @ ''.'' @ fp @ ''.bin''"
  then have "take 4 (rev (disk_path_for C key dc)) = take 4 (rev (hex_of h @ ''.'' @ fp @ ''.bin''))" by (rule arg_cong)
  then show False by (simp add: disk_path_for_def Let_def)
qed

lemma sidecar_fields:
  assumes "length hash = 32"
  shows "length (SIDECAR_MAGIC_V1 @ hash) = SIDECAR_LEN_V1" and "take 16 (SIDECAR_MAGIC_V1 @ hash) = SIDECAR_MAGIC_V1"
    and "take 32 (drop 16 (SIDECAR_MAGIC_V1 @ hash)) = hash"
  using assms by (simp_all add: SIDECAR_MAGIC_V1_def SIDECAR_LEN_V1_def)

text \<open>The reads of \<open>get\<close> once the sidecar of the key is in place.\<close>

lemma disk_get_sidecar:
  assumes "map_of (files (artifact_store dc)) (disk_path_for C key dc) = Some (SIDECAR_MAGIC_V1 @ hash, t)"
    and "length hash = 32" and "store_get C no_faults hash (artifact_store dc) = Ok env"
  shows "disk_get C no_faults key dc = (fst (parse_v2_envelope C key env), Ok (snd (parse_v2_envelope C key env)))"
  unfolding disk_get_def Let_def assms(1)
  using sidecar_fields [OF assms(2)] assms(3) by (simp add: split_beta)

text \<open>
  A kernel stored on disk is found again. A cache that signs and reads with one key, when no
  call fails and the envelope is within the store's limit: \<open>put\<close> succeeds, and \<open>get\<close> of the same
  key afterwards returns a kernel with the same text and launch geometry, the fingerprint of the
  key, and an integrity hash that verifies; nothing is counted as a rejection.
\<close>

theorem disk_put_get:
  assumes "crypto_ok C" and "kernel_valid kern" and "length (encode_v2_envelope key kern) \<le> MAX_PAYLOAD_LEN"
    and "read_keys (provider (artifact_store dc)) = [hmac_key (artifact_store dc)]"
    and "disk_put C no_faults now key kern dc = (dc', r)"
  shows "r = Ok () \<and> (\<exists>got. disk_get C no_faults key dc' = (False, Ok (Some got))
    \<and> kernel_ptx got = kernel_ptx kern \<and> fingerprint got = key_blueprint key \<and> verify_integrity C got)"
proof -
  let ?st = "artifact_store dc" and ?p = "encode_v2_envelope key kern"
  let ?blob = "hex_of (blake3 C ?p) @ ''.'' @ key_fingerprint_hex C (hmac_key ?st) @ ''.bin''"
    and ?c = "envelope C (hmac_key ?st) (blake3 C ?p) (zstd_encode C (zstd_level ?st) [?p])"
    and ?side = "SIDECAR_MAGIC_V1 @ blake3 C ?p"
  define st' where "st' = ?st\<lparr>files := AList.update (disk_path_for C key dc) (?side, Some now)
    (AList.update ?blob (?c, Some now) (files ?st))\<rparr>"
  have dc': "dc' = dc\<lparr>artifact_store := st'\<rparr>" and r: "r = Ok ()"
    using assms(5) unfolding disk_put_def store_put_Ok [OF assms(1,3)] by (simp_all add: Let_def st'_def)
  have f: "map_of (files st') ?blob = Some (?c, Some now)" "map_of (files st') (disk_path_for C key dc) = Some (?side, Some now)"
    using sidecar_not_blob [of C key dc] sidecar_not_blob [of C key dc, symmetric] by (simp_all add: st'_def update_conv')
  have path: "disk_path_for C key (dc\<lparr>artifact_store := s\<rparr>) = disk_path_for C key dc" for s by (simp add: disk_path_for_def)
  have k: "read_keys (provider st') = [] @ [hmac_key ?st]" using assms(4) by (simp add: st'_def)
  have "store_get C no_faults (blake3 C ?p) st' = Ok ?p" using get_stored(1) [OF assms(1,3) k _ f(1)] by simp
  with f(2) have "disk_get C no_faults key dc' = (fst (parse_v2_envelope C key ?p), Ok (snd (parse_v2_envelope C key ?p)))"
    by (intro disk_get_sidecar) (simp_all add: path dc' crypto_okD(1) [OF assms(1)])
  then show ?thesis
    using r assms(2) by (simp add: parse_encode_v2 kernel_valid_def cached_kernel_new_def verify_integrity_def)
qed

section \<open>Isolation of tenants\<close>

text \<open>
  The caches a history can lead to, with the keys and kernels it stored: caches over the same
  directory under any of the keys \<open>K\<close>, puts and collections with any failures, and an adversary
  who deletes files and writes any sidecar and any other bytes that are no forgery of a blob.
\<close>

abbreviation envelopes :: "(cache_key \<times> cached_kernel) set \<Rightarrow> bytes set" where
  "envelopes P \<equiv> (\<lambda>(key, kern). encode_v2_envelope key kern) ` P"

inductive disk_history :: "crypto \<Rightarrow> bytes set \<Rightarrow> (cache_key \<times> cached_kernel) set \<Rightarrow> disk_cache \<Rightarrow> bool" for C K where
  opened: "key \<in> K \<Longrightarrow> disk_history C K {} (disk_cache_new C [] key)"
| put: "disk_history C K P dc \<Longrightarrow> kernel_valid kern \<Longrightarrow> disk_put C io now k kern dc = (dc', r)
    \<Longrightarrow> disk_history C K (insert (k, kern) P) dc'"
| gc: "disk_history C K P dc \<Longrightarrow> gc_disk C io retain dc = (dc', r') \<Longrightarrow> disk_history C K P dc'"
| reopen: "disk_history C K P dc \<Longrightarrow> key \<in> K \<Longrightarrow> disk_history C K P (disk_cache_new C (files (artifact_store dc)) key)"
| tamper: "disk_history C K P dc \<Longrightarrow> no_forgery C K (envelopes P) content
    \<Longrightarrow> disk_history C K P (dc\<lparr>artifact_store := (artifact_store dc)\<lparr>files :=
          AList.update name (content, t) (files (artifact_store dc))\<rparr>\<rparr>)"
| delete: "disk_history C K P dc
    \<Longrightarrow> disk_history C K P (dc\<lparr>artifact_store := (artifact_store dc)\<lparr>files :=
          AList.delete name (files (artifact_store dc))\<rparr>\<rparr>)"

text \<open>Anything as short as a sidecar is no blob.\<close>

lemma sidecar_no_forgery:
  assumes "crypto_ok C" and "length content = SIDECAR_LEN_V1"
  shows "no_forgery C K P content"
  unfolding no_forgery_def
proof (intro ballI allI impI)
  fix key h body
  assume "length h = 32 \<and> content = envelope C key h body"
  then have "length content = ARTIFACT_HEADER_LEN + length body + ARTIFACT_HMAC_LEN"
    using envelope_fields(1) [of h "hmac_sha256 C key (envelope_prefix h body)" body] crypto_okD(2) [OF assms(1)]
    by (simp add: envelope_def)
  then show "signed C P (envelope_prefix h body)"
    using assms(2) by (simp add: SIDECAR_LEN_V1_def ARTIFACT_HEADER_LEN_def ARTIFACT_HMAC_LEN_def)
qed

lemma gc_files_subset:
  "gc_files io cur retain es kept n = (fs, r) \<Longrightarrow> set fs \<subseteq> set kept \<union> set es"
proof (induction io cur retain es kept n arbitrary: fs rule: gc_files.induct)
  case (2 io cur retain name f es kept n)
  then show ?case by (fastforce split: if_splits option.splits)
qed simp

lemma history_ok_disk_put:
  assumes C: "crypto_ok C" and ok: "history_ok C K (envelopes P) (artifact_store dc)"
    and put: "disk_put C io now k kern dc = (dc', r)"
  shows "history_ok C K (envelopes (insert (k, kern) P)) (artifact_store dc')"
proof -
  let ?Q = "envelopes (insert (k, kern) P)"
  obtain st r1 where s: "store_put C io now (encode_v2_envelope k kern) (artifact_store dc) = (st, r1)" by fastforce
  have Q: "?Q = insert (encode_v2_envelope k kern) (envelopes P)" by simp
  have st: "history_ok C K ?Q st" unfolding Q by (rule history_ok_put [OF C ok s])
  have old: "history_ok C K ?Q (artifact_store dc)" using history_ok_mono [OF ok] by auto
  have side: "history_ok C K ?Q (st\<lparr>files := AList.update name (SIDECAR_MAGIC_V1 @ h, t) (files st)\<rparr>)"
    if len: "length h = 32" for name h t
    by (rule history_ok_add [OF st sidecar_no_forgery [OF C sidecar_fields(1) [OF len]] order_refl])
  have len: "length h = 32" if hd: "r1 = Ok h" for h
    using s crypto_okD(1) [OF C] unfolding hd by (auto simp: store_put_def Let_def split: if_splits sum.splits prod.splits)
  show ?thesis
  proof (cases r1)
    case (Inl e)
    then show ?thesis using put s st old by (auto simp: disk_put_def split: if_splits)
  next
    case (Inr h)
    then show ?thesis using put s st old side [OF len] by (auto simp: disk_put_def Let_def split: if_splits)
  qed
qed

lemma disk_history_ok:
  assumes "crypto_ok C" and "disk_history C K P dc"
  shows "history_ok C K (envelopes P) (artifact_store dc) \<and> (\<forall>p \<in> P. kernel_valid (snd p))"
  using assms(2)
proof induction
  case (opened key)
  then show ?case by (simp add: disk_cache_new_def with_key_provider_def store_build_def single_key_provider_def history_ok_def)
next
  case (put P dc kern io now k dc' r)
  then show ?case using history_ok_disk_put [OF assms(1) _ put.hyps(3)] by (simp del: image_insert)
next
  case (gc P dc io retain dc' r')
  then show ?case using gc_files_subset
    by (fastforce simp: gc_disk_def history_ok_def split: if_splits prod.splits)
next
  case (reopen P dc key)
  then show ?case by (simp add: disk_cache_new_def with_key_provider_def store_build_def single_key_provider_def history_ok_def)
next
  case (tamper P dc content name t)
  then show ?case by (auto intro: history_ok_add)
next
  case (delete P dc name)
  then show ?case using set_delete_subset [of name "files (artifact_store dc)"] by (auto simp: history_ok_def)
qed

lemma disk_get_stored:
  assumes "crypto_ok C" and "disk_history C K P dc" and "disk_get C io key dc = (rejected, Ok (Some got))"
  shows "\<exists>(key', kern) \<in> P. key_tenant key' = key_tenant key \<and> key_blueprint key' = key_blueprint key
    \<and> key_sm_version key' = key_sm_version key \<and> kernel_ptx got = kernel_ptx kern \<and> verify_integrity C got"
proof -
  note ok = disk_history_ok [OF assms(1,2)]
  obtain h env where e: "store_get C io h (artifact_store dc) = Ok env" "parse_v2_envelope C key env = (rejected, Some got)"
    using assms(3) by (auto simp: disk_get_def Let_def split: if_splits option.splits sum.splits prod.splits artifact_error.splits)
  obtain key' kern where p: "(key', kern) \<in> P" "env = encode_v2_envelope key' kern"
    using get_history [OF assms(1) conjunct1 [OF ok] e(1)] by auto
  have v: "kernel_valid kern" using ok p(1) by auto
  have "parse_v2_envelope C key (encode_v2_envelope key' kern) = (rejected, Some got)" using e(2) p(2) by simp
  then have "key_tenant key' = key_tenant key \<and> key_blueprint key' = key_blueprint key \<and> key_sm_version key' = key_sm_version key
      \<and> got = cached_kernel_new C (key_blueprint key) (kernel_ptx kern)"
    using v by (simp add: parse_encode_v2 kernel_valid_def split: if_splits)
  then show ?thesis by (intro bexI [OF _ p(1)]) (simp add: cached_kernel_new_def verify_integrity_def)
qed

text \<open>
  Tenants are isolated on the shared disk. However sidecars are rewritten, blobs copied or
  exchanged and whatever calls fail, also across key rotations: a kernel that \<open>get\<close> returns is one
  that was stored for the same tenant, the same blueprint and the same compute capability, with its
  text and launch geometry unchanged and an integrity hash that verifies.
\<close>

theorem disk_tenant_isolation:
  assumes "crypto_ok C" and "disk_history C K P dc" and "disk_get C io key dc = (rejected, Ok (Some got))"
  shows "\<exists>(key', kern) \<in> P. key_tenant key' = key_tenant key \<and> key_blueprint key' = key_blueprint key
    \<and> key_sm_version key' = key_sm_version key \<and> kernel_ptx got = kernel_ptx kern \<and> verify_integrity C got"
  by (rule disk_get_stored [OF assms])

text \<open>
  What the envelope does not bind: the emitter configuration of the key. Reading is the same for
  keys that differ in it alone, so a sidecar pointed at the blob of another configuration is
  served. Nor does the configuration hash cover the experimental switch.
\<close>

lemma emit_config_not_bound: "parse_v2_envelope C (key\<lparr>emit_config_hash := e\<rparr>) env = parse_v2_envelope C key env"
  by (simp add: parse_v2_envelope_def)

lemma experimental_not_in_key:
  "for_tenant_with_emit_config C t b sm (cfg\<lparr>enable_experimental_matmul := x\<rparr>) = for_tenant_with_emit_config C t b sm cfg"
  by (simp add: for_tenant_with_emit_config_def)

section \<open>Collection\<close>

lemma takeWhile_no_dash: "CHR ''-'' \<notin> set (hex_of bs)"
  using hex_of_chars [of bs] by (auto simp: HEX_LUT_def)

text \<open>Sidecars carry the fingerprint they were written under, and collection never removes a file of the active key.\<close>

lemma length_fingerprint: "crypto_ok C \<Longrightarrow> length (key_fingerprint_of C key) = 16"
  by (simp add: key_fingerprint_of_def crypto_okD(1))

lemma fingerprint_of_dashed:
  assumes "CHR ''-'' \<notin> set fp" and "length fp = 16"
  shows "fingerprint_of_filename (fp @ ''-'' @ y @ ''.ptxbin'') = Some fp"
proof -
  have "strip_suffix ''.ptxbin'' ((fp @ ''-'' @ y) @ ''.ptxbin'') = Some (fp @ ''-'' @ y)" by (simp add: strip_suffix_def)
  moreover have "takeWhile (\<lambda>c. c \<noteq> CHR ''-'') (fp @ ''-'' @ y) = fp" using assms(1) by (subst takeWhile_append2) auto
  ultimately show ?thesis using assms(2) by (auto simp: fingerprint_of_filename_def)
qed

lemma fingerprint_of_sidecar:
  assumes "crypto_ok C"
  shows "fingerprint_of_filename (disk_path_for C key (disk_cache_new C fs k)) = Some (key_fingerprint_of C k)"
  unfolding disk_path_for_def Let_def
  using fingerprint_of_dashed [OF takeWhile_no_dash [of "take 8 (blake3 C k)"]] length_fingerprint [OF assms, of k]
  by (simp add: disk_cache_new_def key_fingerprint_of_def del: list.map)

lemma strip_suffix_Some: "strip_suffix suf s = Some p \<Longrightarrow> s = p @ suf"
  unfolding strip_suffix_def by (metis append_take_drop_id option.distinct(1) option.inject)

lemma fingerprint_of_blob:
  assumes "CHR ''.'' \<notin> set fp" and "length fp = 16"
  shows "fingerprint_of_filename (h @ ''.'' @ fp @ ''.bin'') = Some fp"
proof -
  have "takeWhile (\<lambda>c. c \<noteq> CHR ''.'') (rev fp @ ''.'' @ rev h) = rev fp"
    using assms(1) by (subst takeWhile_append2) auto
  then have "rev (takeWhile (\<lambda>c. c \<noteq> CHR ''.'') (rev (h @ ''.'' @ fp))) = fp" by simp
  moreover have "strip_suffix ''.ptxbin'' (h @ ''.'' @ fp @ ''.bin'') = None"
  proof (rule ccontr)
    assume "strip_suffix ''.ptxbin'' (h @ ''.'' @ fp @ ''.bin'') \<noteq> None"
    then obtain x where "h @ ''.'' @ fp @ ''.bin'' = x @ ''.ptxbin''" using strip_suffix_Some by blast
    then have "take 4 (rev (h @ ''.'' @ fp @ ''.bin'')) = take 4 (rev (x @ ''.ptxbin''))" by (rule arg_cong)
    then show False by simp
  qed
  moreover have "strip_suffix ''.bin'' ((h @ ''.'' @ fp) @ ''.bin'') = Some (h @ ''.'' @ fp)" by (simp add: strip_suffix_def)
  ultimately show ?thesis using assms(2) by (simp add: fingerprint_of_filename_def)
qed

lemma gc_files_lookup:
  assumes "gc_files io cur retain es kept n = (fs, r)"
    and "fingerprint_of_filename name = Some fp" and "fp = cur \<or> fp \<in> set retain"
  shows "map_of fs name = map_of (kept @ es) name"
  using assms
proof (induction io cur retain es kept n arbitrary: fs rule: gc_files.induct)
  case (2 io cur retain nm g es kept n)
  then show ?case by (auto simp: map_add_def split: if_splits option.splits)
qed simp

text \<open>
  C25: collection of retired keys loses nothing that is still in use. Whatever fails during
  \<open>gc_disk\<close>, every lookup by a cache under the active key, or under any key whose fingerprint is
  retained, gives the same result before and after.
\<close>

theorem gc_keeps_live_keys:
  assumes "crypto_ok C" and "gc_disk C io retain (disk_cache_new C fs active) = (dc', r)"
    and "key = active \<or> key_fingerprint_of C key \<in> set retain"
  shows "disk_get C io' k (disk_cache_new C (files (artifact_store dc')) key) = disk_get C io' k (disk_cache_new C fs key)"
proof -
  let ?fp = "key_fingerprint_of C key" and ?fs = "files (artifact_store dc')"
  have same: "map_of ?fs name = map_of fs name" if nm: "fingerprint_of_filename name = Some ?fp" for name
  proof -
    have "?fp = active_key_fingerprint C (disk_cache_new C fs active) \<or> ?fp \<in> set retain"
      using assms(3) by (auto simp: active_key_fingerprint_def disk_cache_new_def)
    then show ?thesis using assms(2) gc_files_lookup [OF _ nm, of io _ retain fs "[]" 0]
      by (auto simp: gc_disk_def disk_cache_new_def with_key_provider_def store_build_def split: if_splits prod.splits)
  qed
  have fp: "key_fingerprint_hex C key = ?fp" by (simp add: key_fingerprint_hex_def key_fingerprint_of_def)
  have dot: "CHR ''.'' \<notin> set ?fp" unfolding key_fingerprint_of_def by (rule dot_not_hex)
  have blob: "map_of ?fs (h @ ''.'' @ ?fp @ ''.bin'') = map_of fs (h @ ''.'' @ ?fp @ ''.bin'')" for h
    by (rule same [OF fingerprint_of_blob [OF dot length_fingerprint [OF assms(1)]]])
  have side: "map_of ?fs (disk_path_for C k (disk_cache_new C x key)) = map_of fs (disk_path_for C k (disk_cache_new C x key))" for x
    by (rule same [OF fingerprint_of_sidecar [OF assms(1)]])
  have path: "disk_path_for C k (disk_cache_new C ?fs key) = disk_path_for C k (disk_cache_new C fs key)"
    by (simp add: disk_path_for_def disk_cache_new_def)
  have get: "store_get C io' h (artifact_store (disk_cache_new C ?fs key)) = store_get C io' h (artifact_store (disk_cache_new C fs key))"
    for h
    using blob by (cases "validated_hash_segment h") (simp_all add: store_get_def resolve_read_key_def path_for_key_def
        disk_cache_new_def with_key_provider_def store_build_def single_key_provider_def fp)
  have fls: "files (artifact_store (disk_cache_new C x key)) = x" for x
    by (simp add: disk_cache_new_def with_key_provider_def store_build_def)
  show ?thesis unfolding disk_get_def Let_def path fls side get by (rule refl)
qed

section \<open>Concrete runs\<close>

abbreviation demo_key :: cache_key where
  "demo_key \<equiv> for_tenant 7 11 80"

abbreviation demo_kernel :: cached_kernel where
  "demo_kernel \<equiv> cached_kernel_new demo_crypto 11 \<lparr>ptx_text = [46, 118], launch_geometry = (4, 256)\<rparr>"

abbreviation demo_disk :: disk_cache where
  "demo_disk \<equiv> disk_cache_new demo_crypto [] [9]"

abbreviation stored_disk :: disk_cache where
  "stored_disk \<equiv> fst (disk_put demo_crypto no_faults 5 demo_key demo_kernel demo_disk)"

lemma demo_kernel_valid: "kernel_valid demo_kernel"
  by (simp add: kernel_valid_def cached_kernel_new_def utf8_follow_def utf8_tail_ok_def)

lemma demo_kernel_small: "length (encode_v2_envelope demo_key demo_kernel) \<le> MAX_PAYLOAD_LEN"
  by (simp add: encode_v2_envelope_def cached_kernel_new_def MAX_PAYLOAD_LEN_def)

lemma demo_disk_keys: "read_keys (provider (artifact_store demo_disk)) = [hmac_key (artifact_store demo_disk)]"
  by (simp add: disk_cache_new_def with_key_provider_def store_build_def single_key_provider_def)

theorem disk_put_get_witness:
  "\<exists>got. disk_get demo_crypto no_faults demo_key stored_disk = (False, Ok (Some got))
    \<and> launch_geometry (kernel_ptx got) = (4, 256) \<and> fingerprint got = 11"
  using disk_put_get [OF demo_crypto_ok demo_kernel_valid demo_kernel_small demo_disk_keys, of 5 stored_disk
      "snd (disk_put demo_crypto no_faults 5 demo_key demo_kernel demo_disk)"]
  by (auto simp: cached_kernel_new_def for_tenant_def)

lemma demo_disk_history: "disk_history demo_crypto {[9]} {(demo_key, demo_kernel)} stored_disk"
proof -
  have "disk_history demo_crypto {[9]} {} demo_disk" by (rule disk_history.opened) simp
  then show ?thesis
    by (rule disk_history.put [OF _ demo_kernel_valid, where io = no_faults and now = 5]) (simp add: prod_eq_iff)
qed

theorem disk_tenant_isolation_witness:
  "disk_history demo_crypto {[9]} {(demo_key, demo_kernel)} stored_disk
   \<and> (\<forall>io rejected got. disk_get demo_crypto io (for_tenant 8 11 80) stored_disk \<noteq> (rejected, Ok (Some got)))"
  using disk_tenant_isolation [OF demo_crypto_ok demo_disk_history] demo_disk_history
  by (fastforce simp: for_tenant_def)

theorem gc_keeps_live_keys_witness:
  "disk_get demo_crypto no_faults demo_key
     (disk_cache_new demo_crypto (files (artifact_store (fst (gc_disk demo_crypto no_faults []
        (disk_cache_new demo_crypto (files (artifact_store stored_disk)) [9]))))) [9])
   = disk_get demo_crypto no_faults demo_key (disk_cache_new demo_crypto (files (artifact_store stored_disk)) [9])"
  by (rule gc_keeps_live_keys [OF demo_crypto_ok, where io = no_faults and retain = "[]" and active = "[9]"])
    (auto simp: prod_eq_iff)

end
