(* ===== verification/Jit_Cache.thy ===== *)
theory Jit_Cache
  imports Jit_Disk
begin

text \<open>
  \<open>KernelCache\<close> of \<^verbatim>\<open>crates/tensor-wasm-jit/src/cache.rs\<close>: the in-memory tier over the disk
  tier, with eviction by count and by bytes. The \<open>lru\<close> crate is a parameter; so is whether
  \<open>get\<close> finds the lock of the eviction queue free. The eviction loops need not end for an arbitrary
  queue, so they are partial: that they return is proved from the documented behaviour of the queue.
\<close>

section \<open>Model\<close>

record 'l lru_ops =
  lru_new :: "nat \<Rightarrow> 'l"
  lru_push :: "cache_key \<Rightarrow> 'l \<Rightarrow> 'l \<times> cache_key option"
  lru_touch :: "cache_key \<Rightarrow> 'l \<Rightarrow> 'l"
  lru_pop :: "'l \<Rightarrow> 'l \<times> cache_key option"

record kernel_cache_config =
  capacity :: nat
  max_total_bytes :: "u64 option"
  verify_on_get :: bool

definition DEFAULT_CAPACITY :: nat where
  "DEFAULT_CAPACITY = 256"

definition kernel_cache_config_default :: kernel_cache_config where
  "kernel_cache_config_default = \<lparr>capacity = DEFAULT_CAPACITY, max_total_bytes = None, verify_on_get = True\<rparr>"

record 'l kernel_cache =
  storage :: "(cache_key \<times> cached_kernel) list"
  lru :: 'l
  config :: kernel_cache_config
  disk :: "disk_cache option"
  total_bytes :: u64
  verify_skipped_total :: u64
  cache_hits_total :: u64
  cache_misses_total :: u64
  integrity_reject_total :: u64

definition with_config :: "'l lru_ops \<Rightarrow> kernel_cache_config \<Rightarrow> 'l kernel_cache" where
  "with_config L cfg =
     (let cfg' = cfg\<lparr>capacity := max (capacity cfg) 1\<rparr>
      in \<lparr>storage = [], lru = lru_new L (capacity cfg'), config = cfg', disk = None, total_bytes = 0,
          verify_skipped_total = 0, cache_hits_total = 0, cache_misses_total = 0, integrity_reject_total = 0\<rparr>)"

definition with_disk_persistence :: "crypto \<Rightarrow> dir_files \<Rightarrow> bytes \<Rightarrow> 'l kernel_cache \<Rightarrow> 'l kernel_cache" where
  "with_disk_persistence C fs key c = c\<lparr>disk := Some (disk_cache_new C fs key)\<rparr>"

definition entry_bytes :: "cached_kernel \<Rightarrow> u64" where
  "entry_bytes kern = of_nat (length (ptx_text (kernel_ptx kern)))"

definition evict_key :: "cache_key \<Rightarrow> 'l kernel_cache \<Rightarrow> 'l kernel_cache" where
  "evict_key key c =
     (case map_of (storage c) key of
        Some removed \<Rightarrow> c\<lparr>storage := AList.delete key (storage c), total_bytes := total_bytes c - entry_bytes removed\<rparr>
      | None \<Rightarrow> c)"

partial_function (option) evict_over_bytes :: "'l lru_ops \<Rightarrow> u64 \<Rightarrow> 'l kernel_cache \<Rightarrow> 'l kernel_cache option" where
  "evict_over_bytes L cap c =
     (if total_bytes c > cap \<and> length (storage c) > 1
      then let (l, popped) = lru_pop L (lru c)
           in (case popped of
                 Some k \<Rightarrow> evict_over_bytes L cap (evict_key k (c\<lparr>lru := l\<rparr>))
               | None \<Rightarrow> Some (c\<lparr>lru := l\<rparr>))
      else Some c)"

definition enforce_byte_cap :: "'l lru_ops \<Rightarrow> 'l kernel_cache \<Rightarrow> 'l kernel_cache option" where
  "enforce_byte_cap L c =
     (case max_total_bytes (config c) of
        Some cap \<Rightarrow> if total_bytes c > cap then evict_over_bytes L cap c else Some c
      | None \<Rightarrow> Some c)"

text \<open>The insertion \<open>put\<close> and the promotion in \<open>get\<close> share: storage, byte total, and the entry the queue gives up.\<close>

definition insert_entry :: "'l lru_ops \<Rightarrow> cache_key \<Rightarrow> cached_kernel \<Rightarrow> 'l kernel_cache \<Rightarrow> 'l kernel_cache" where
  "insert_entry L key kern c =
     (let replaced = map_of (storage c) key;
          total1 = total_bytes c + entry_bytes kern;
          total2 = (case replaced of Some old \<Rightarrow> total1 - entry_bytes old | None \<Rightarrow> total1);
          (l, evicted) = lru_push L key (lru c);
          c1 = c\<lparr>storage := AList.update key kern (storage c), total_bytes := total2, lru := l\<rparr>
      in case evicted of
           Some k \<Rightarrow> if k \<noteq> key then evict_key k c1 else c1
         | None \<Rightarrow> c1)"

partial_function (option) evict_over_count :: "'l lru_ops \<Rightarrow> 'l kernel_cache \<Rightarrow> 'l kernel_cache option" where
  "evict_over_count L c =
     (if length (storage c) > capacity (config c)
      then let (l, popped) = lru_pop L (lru c)
           in (case popped of
                 Some k \<Rightarrow> evict_over_count L (evict_key k (c\<lparr>lru := l\<rparr>))
               | None \<Rightarrow> Some (c\<lparr>lru := l\<rparr>))
      else Some c)"

definition cache_put ::
    "'l lru_ops \<Rightarrow> crypto \<Rightarrow> (io_op \<Rightarrow> bool) \<Rightarrow> nat \<Rightarrow> cache_key \<Rightarrow> cached_kernel \<Rightarrow> 'l kernel_cache \<Rightarrow> 'l kernel_cache option" where
  "cache_put L C io now key kern c =
     (if \<not> verify_integrity C kern then Some c
      else
        let c1 = (case disk c of
                    Some d \<Rightarrow> c\<lparr>disk := Some (fst (disk_put C io now key kern d))\<rparr>
                  | None \<Rightarrow> c)
        in Option.bind (evict_over_count L (insert_entry L key kern c1)) (enforce_byte_cap L))"

definition cache_get ::
    "'l lru_ops \<Rightarrow> crypto \<Rightarrow> (io_op \<Rightarrow> bool) \<Rightarrow> bool \<Rightarrow> cache_key \<Rightarrow> 'l kernel_cache
     \<Rightarrow> ('l kernel_cache \<times> cached_kernel option) option" where
  "cache_get L C io lock_free key c0 =
     (let c = (if lock_free then c0\<lparr>lru := lru_touch L key (lru c0)\<rparr> else c0);
          refuse = (\<lambda>c. let c' = evict_key key c
                        in c'\<lparr>integrity_reject_total := integrity_reject_total c' + 1,
                              cache_misses_total := cache_misses_total c' + 1\<rparr>);
          hit = (\<lambda>c. c\<lparr>cache_hits_total := cache_hits_total c + 1\<rparr>);
          miss = (\<lambda>c. c\<lparr>cache_misses_total := cache_misses_total c + 1\<rparr>)
      in case map_of (storage c) key of
           Some kern \<Rightarrow>
             if verify_on_get (config c)
             then if \<not> verify_integrity C kern then Some (refuse c, None) else Some (hit c, Some kern)
             else
               let c1 = c\<lparr>verify_skipped_total := verify_skipped_total c + 1\<rparr>
               in if integrity_hash kern = replicate 32 0 then Some (refuse c1, None) else Some (hit c1, Some kern)
         | None \<Rightarrow>
             (case disk c of
                None \<Rightarrow> Some (miss c, None)
              | Some d \<Rightarrow>
                  let (rejected, r) = disk_get C io key d;
                      c1 = (if rejected then c\<lparr>integrity_reject_total := integrity_reject_total c + 1\<rparr> else c)
                  in case r of
                       Inr (Some kern) \<Rightarrow>
                         Option.bind (enforce_byte_cap L (insert_entry L key kern c1)) (\<lambda>c2. Some (hit c2, Some kern))
                     | Inr None \<Rightarrow> Some (miss c1, None)
                     | Inl _ \<Rightarrow> Some (miss c1, None)))"

definition cache_gc_disk ::
    "crypto \<Rightarrow> (io_op \<Rightarrow> bool) \<Rightarrow> string list \<Rightarrow> 'l kernel_cache \<Rightarrow> 'l kernel_cache \<times> (unit, nat) result" where
  "cache_gc_disk C io retain c =
     (case disk c of
        Some d \<Rightarrow> (case gc_disk C io retain d of (d', r) \<Rightarrow> (c\<lparr>disk := Some d'\<rparr>, r))
      | None \<Rightarrow> (c, Ok 0))"

section \<open>The eviction queue\<close>

text \<open>
  The documented behaviour of the \<open>lru\<close> crate, over the keys of a queue from the most to the least
  recently used.
\<close>

definition lru_laws :: "'l lru_ops \<Rightarrow> ('l \<Rightarrow> cache_key list) \<Rightarrow> ('l \<Rightarrow> nat) \<Rightarrow> bool" where
  "lru_laws L ks cp \<longleftrightarrow>
     (\<forall>n. ks (lru_new L n) = [] \<and> cp (lru_new L n) = n)
     \<and> (\<forall>k l. cp (fst (lru_push L k l)) = cp l \<and> cp (lru_touch L k l) = cp l \<and> cp (fst (lru_pop L l)) = cp l)
     \<and> (\<forall>k l. (k \<in> set (ks l) \<longrightarrow> ks (fst (lru_push L k l)) = k # remove1 k (ks l) \<and> snd (lru_push L k l) = Some k)
          \<and> (k \<notin> set (ks l) \<and> length (ks l) < cp l \<longrightarrow> ks (fst (lru_push L k l)) = k # ks l \<and> snd (lru_push L k l) = None)
          \<and> (k \<notin> set (ks l) \<and> length (ks l) = cp l \<and> ks l \<noteq> [] \<longrightarrow>
               ks (fst (lru_push L k l)) = k # butlast (ks l) \<and> snd (lru_push L k l) = Some (last (ks l))))
     \<and> (\<forall>k l. ks (lru_touch L k l) = (if k \<in> set (ks l) then k # remove1 k (ks l) else ks l))
     \<and> (\<forall>l. ks (fst (lru_pop L l)) = butlast (ks l) \<and> snd (lru_pop L l) = (if ks l = [] then None else Some (last (ks l))))"

lemma lru_lawsD:
  assumes "lru_laws L ks cp"
  shows "ks (lru_new L n) = []" and "cp (lru_new L n) = n"
    and "cp (fst (lru_push L k l)) = cp l" and "cp (lru_touch L k l) = cp l" and "cp (fst (lru_pop L l)) = cp l"
    and "k \<in> set (ks l) \<Longrightarrow> ks (fst (lru_push L k l)) = k # remove1 k (ks l)"
    and "k \<in> set (ks l) \<Longrightarrow> snd (lru_push L k l) = Some k"
    and "k \<notin> set (ks l) \<Longrightarrow> length (ks l) < cp l \<Longrightarrow> ks (fst (lru_push L k l)) = k # ks l"
    and "k \<notin> set (ks l) \<Longrightarrow> length (ks l) < cp l \<Longrightarrow> snd (lru_push L k l) = None"
    and "k \<notin> set (ks l) \<Longrightarrow> length (ks l) = cp l \<Longrightarrow> ks l \<noteq> [] \<Longrightarrow> ks (fst (lru_push L k l)) = k # butlast (ks l)"
    and "k \<notin> set (ks l) \<Longrightarrow> length (ks l) = cp l \<Longrightarrow> ks l \<noteq> [] \<Longrightarrow> snd (lru_push L k l) = Some (last (ks l))"
    and "ks (lru_touch L k l) = (if k \<in> set (ks l) then k # remove1 k (ks l) else ks l)"
    and "ks (fst (lru_pop L l)) = butlast (ks l)"
    and "snd (lru_pop L l) = (if ks l = [] then None else Some (last (ks l)))"
  using assms unfolding lru_laws_def by blast+

section \<open>Byte accounting\<close>

definition stored_bytes :: "(cache_key \<times> cached_kernel) list \<Rightarrow> nat" where
  "stored_bytes es = sum_list (map (\<lambda>e. length (ptx_text (kernel_ptx (snd e)))) es)"

definition bytes_exact :: "'l kernel_cache \<Rightarrow> bool" where
  "bytes_exact c \<longleftrightarrow> distinct (map fst (storage c)) \<and> total_bytes c = of_nat (stored_bytes (storage c))"

lemma stored_bytes_delete:
  assumes "distinct (map fst es)" and "map_of es k = Some v"
  shows "stored_bytes es = length (ptx_text (kernel_ptx v)) + stored_bytes (AList.delete k es)"
  using assms
proof (induction es)
  case (Cons e es)
  obtain k' v' where e: "e = (k', v')" by fastforce
  show ?case
  proof (cases "k' = k")
    case True
    then have "AList.delete k es = es" using Cons.prems(1) e by (intro delete_id) auto
    then show ?thesis using True Cons.prems(2) e by (simp add: stored_bytes_def AList.delete_eq)
  next
    case False
    then show ?thesis using Cons e by (simp add: stored_bytes_def AList.delete_eq)
  qed
qed simp

lemma stored_bytes_update:
  assumes "distinct (map fst es)"
  shows "stored_bytes (AList.update k v es) + (case map_of es k of Some old \<Rightarrow> length (ptx_text (kernel_ptx old)) | None \<Rightarrow> 0)
    = stored_bytes es + length (ptx_text (kernel_ptx v))"
  using assms by (induction es) (auto simp: stored_bytes_def split: option.splits)

lemma distinct_delete: "distinct (map fst es) \<Longrightarrow> distinct (map fst (AList.delete k es))"
  by (induction es) (auto simp: AList.delete_eq)

lemma evict_key_simps [simp]:
  "storage (evict_key k c) = AList.delete k (storage c)" "lru (evict_key k c) = lru c" "config (evict_key k c) = config c"
  "disk (evict_key k c) = disk c"
  by (auto simp: evict_key_def map_of_eq_None_iff split: option.splits intro!: delete_id [symmetric])

lemma bytes_exact_evict:
  assumes "bytes_exact c"
  shows "bytes_exact (evict_key k c)"
proof (cases "map_of (storage c) k")
  case None
  then show ?thesis using assms by (simp add: evict_key_def)
next
  case (Some v)
  then show ?thesis using assms stored_bytes_delete [of "storage c" k v]
    by (simp add: bytes_exact_def evict_key_def distinct_delete entry_bytes_def)
qed

lemma insert_entry_cases:
  fixes key :: cache_key
  assumes laws: "lru_laws L ks cp" and "distinct (ks (lru c))" and "length (ks (lru c)) \<le> cp (lru c)" and "1 \<le> cp (lru c)"
  defines "l \<equiv> fst (lru_push L key (lru c))"
  obtains (kept) "snd (lru_push L key (lru c)) = None \<or> snd (lru_push L key (lru c)) = Some key"
      "ks l = key # removeAll key (ks (lru c))" "length (ks l) \<le> cp (lru c)"
  | (full) k where "snd (lru_push L key (lru c)) = Some k" "k \<noteq> key" "key \<notin> set (ks (lru c))"
      "set (ks (lru c)) = insert k (set (butlast (ks (lru c))))" "k \<notin> set (butlast (ks (lru c)))"
      "ks l = key # butlast (ks (lru c))" "length (ks l) \<le> cp (lru c)"
proof (cases "key \<in> set (ks (lru c))")
  case True
  then have "length (key # remove1 key (ks (lru c))) = length (ks (lru c))"
    using length_pos_if_in_set [OF True] by (simp add: length_remove1)
  with True show ?thesis using assms(2,3) lru_lawsD(6,7) [OF laws True]
    by (intro kept) (simp_all add: l_def distinct_remove1_removeAll)
next
  case new: False
  show ?thesis
  proof (cases "length (ks (lru c)) < cp (lru c)")
    case True
    then show ?thesis using new lru_lawsD(8,9) [OF laws new True] by (intro kept) (simp_all add: l_def)
  next
    case False
    then have len: "length (ks (lru c)) = cp (lru c)" and ne: "ks (lru c) \<noteq> []" using assms(3,4) by auto
    obtain xs k where x: "ks (lru c) = xs @ [k]" using ne by (metis append_butlast_last_id)
    show ?thesis
      by (rule full [of k]) (use new len x assms(2) lru_lawsD(10,11) [OF laws new len ne] in \<open>auto simp: l_def\<close>)
  qed
qed

section \<open>Invariants\<close>

text \<open>
  The queue lists every stored key, within the capacity, and the byte total is exact.
\<close>

definition queue_ok :: "('l \<Rightarrow> cache_key list) \<Rightarrow> ('l \<Rightarrow> nat) \<Rightarrow> 'l kernel_cache \<Rightarrow> bool" where
  "queue_ok ks cp c \<longleftrightarrow> distinct (ks (lru c)) \<and> length (ks (lru c)) \<le> cp (lru c) \<and> cp (lru c) = capacity (config c)
     \<and> 1 \<le> capacity (config c) \<and> fst ` set (storage c) \<subseteq> set (ks (lru c)) \<and> bytes_exact c"

lemma queue_ok_count: "queue_ok ks cp c \<Longrightarrow> length (storage c) \<le> length (ks (lru c))"
  unfolding queue_ok_def bytes_exact_def by (metis card_mono distinct_card length_map list.set_map List.finite_set)

text \<open>What an operation leaves alone.\<close>

definition same_frame :: "'l kernel_cache \<Rightarrow> 'l kernel_cache \<Rightarrow> bool" where
  "same_frame c c' \<longleftrightarrow> config c' = config c \<and> disk c' = disk c"

lemma insert_entry_ok:
  fixes key :: cache_key and kern :: cached_kernel
  assumes laws: "lru_laws L ks cp" and ok: "queue_ok ks cp c"
  defines "c' \<equiv> insert_entry L key kern c"
  shows "queue_ok ks cp c'" and "\<exists>rest. ks (lru c') = key # rest" and "map_of (storage c') key = Some kern"
    and "set (storage c') \<subseteq> insert (key, kern) (set (storage c))" and "same_frame c c'"
proof -
  define l where "l = fst (lru_push L key (lru c))"
  define c1 where "c1 = c\<lparr>storage := AList.update key kern (storage c),
    total_bytes := (case map_of (storage c) key of Some old \<Rightarrow> total_bytes c + entry_bytes kern - entry_bytes old
                    | None \<Rightarrow> total_bytes c + entry_bytes kern), lru := l\<rparr>"
  have c': "c' = (case snd (lru_push L key (lru c)) of Some k \<Rightarrow> if k \<noteq> key then evict_key k c1 else c1 | None \<Rightarrow> c1)"
    by (auto simp: c'_def insert_entry_def Let_def split_beta c1_def l_def split: option.splits)
  have q: "distinct (ks (lru c))" "length (ks (lru c)) \<le> cp (lru c)" "1 \<le> cp (lru c)" "fst ` set (storage c) \<subseteq> set (ks (lru c))"
    "bytes_exact c" "cp l = cp (lru c)" "cp (lru c) = capacity (config c)"
    using ok by (auto simp: queue_ok_def l_def lru_lawsD(3) [OF laws])
  have "(of_nat (stored_bytes (AList.update key kern (storage c))
        + (case map_of (storage c) key of Some old \<Rightarrow> length (ptx_text (kernel_ptx old)) | None \<Rightarrow> 0)) :: u64)
      = of_nat (stored_bytes (storage c) + length (ptx_text (kernel_ptx kern)))"
    using stored_bytes_update [of "storage c" key kern] q(5) by (simp add: bytes_exact_def)
  then have be: "bytes_exact c1"
    using q(5) by (cases "map_of (storage c) key")
      (simp_all add: bytes_exact_def c1_def entry_bytes_def distinct_update algebra_simps del: map_of_eq_Some_iff)
  have sto: "map_of (storage c1) key = Some kern" "set (storage c1) \<subseteq> insert (key, kern) (set (storage c))"
    "fst ` set (storage c1) = insert key (fst ` set (storage c))" "lru c1 = l" "config c1 = config c" "disk c1 = disk c"
    using set_update_subset [of key kern "storage c"] by (simp_all add: c1_def update_conv' dom_update [unfolded dom_map_of_conv_image_fst])
  have "queue_ok ks cp c' \<and> (\<exists>rest. ks (lru c') = key # rest) \<and> map_of (storage c') key = Some kern
      \<and> set (storage c') \<subseteq> insert (key, kern) (set (storage c)) \<and> same_frame c c'"
    using laws q(1-3)
  proof (cases rule: insert_entry_cases [where key = key])
    case kept
    then have "c' = c1" using c' by auto
    then show ?thesis using kept sto be q unfolding queue_ok_def same_frame_def l_def [symmetric]
      by (auto simp: distinct_removeAll)
  next
    case (full k)
    then have c1: "c' = evict_key k c1" using c' by simp
    have "fst ` set (storage c') \<subseteq> fst ` set (storage c1) - {k}" by (auto simp: c1 AList.delete_eq)
    then have "fst ` set (storage c') \<subseteq> insert key (set (butlast (ks (lru c))))"
      unfolding sto(3) using q(4) full(4) by blast
    moreover have "map_of (storage c') key = Some kern" using full(2) sto(1) by (simp add: c1 delete_conv')
    moreover have "set (storage c') \<subseteq> set (storage c1)" using set_delete_subset [of k "storage c1"] by (simp add: c1)
    ultimately show ?thesis
      using full sto be q bytes_exact_evict [OF be, of k] unfolding queue_ok_def same_frame_def l_def [symmetric]
      by (auto simp: c1 distinct_butlast)
  qed
  then show "queue_ok ks cp c'" "\<exists>rest. ks (lru c') = key # rest" "map_of (storage c') key = Some kern"
    "set (storage c') \<subseteq> insert (key, kern) (set (storage c))" "same_frame c c'"
    by blast+
qed

lemma evict_over_count_ok: "queue_ok ks cp c \<Longrightarrow> evict_over_count L c = Some c"
  using queue_ok_count [of ks cp c] by (subst evict_over_count.simps) (auto simp: queue_ok_def)

text \<open>
  The byte loop returns, under the cap or with at most one entry, and never evicts the most recent key.
\<close>

lemma evict_over_bytes_ok:
  assumes laws: "lru_laws L ks cp"
  shows "queue_ok ks cp c \<Longrightarrow> ks (lru c) = key # rest \<Longrightarrow>
    \<exists>c'. evict_over_bytes L cap c = Some c' \<and> queue_ok ks cp c' \<and> (total_bytes c' \<le> cap \<or> length (storage c') \<le> 1)
      \<and> set (storage c') \<subseteq> set (storage c) \<and> map_of (storage c') key = map_of (storage c) key \<and> same_frame c c'"
proof (induction "length rest" arbitrary: c rest rule: less_induct)
  case less
  show ?case
  proof (cases "total_bytes c > cap \<and> length (storage c) > 1")
    case False
    then show ?thesis using less.prems by (subst evict_over_bytes.simps) (auto simp: same_frame_def not_less)
  next
    case True
    with queue_ok_count [OF less.prems(1)] less.prems(2) have ne: "rest \<noteq> []" by auto
    then obtain xs k where x: "rest = xs @ [k]" by (metis append_butlast_last_id)
    define c1 where "c1 = evict_key k (c\<lparr>lru := fst (lru_pop L (lru c))\<rparr>)"
    have step: "evict_over_bytes L cap c = evict_over_bytes L cap c1"
      by (subst evict_over_bytes.simps) (use True less.prems(2) x in \<open>simp add: split_beta lru_lawsD(14) [OF laws] c1_def\<close>)
    have q: "ks (lru c1) = key # xs" using less.prems(2) x by (simp add: c1_def lru_lawsD(13) [OF laws])
    have k: "k \<noteq> key" "k \<notin> set xs" using less.prems x by (auto simp: queue_ok_def)
    have "queue_ok ks cp c1"
      using less.prems x q bytes_exact_evict [of "c\<lparr>lru := fst (lru_pop L (lru c))\<rparr>" k]
      by (auto simp: queue_ok_def c1_def lru_lawsD(5) [OF laws] bytes_exact_def AList.delete_eq)
    with less.hyps [of xs c1] x q obtain c' where c': "evict_over_bytes L cap c1 = Some c'" "queue_ok ks cp c'"
      "total_bytes c' \<le> cap \<or> length (storage c') \<le> 1" "set (storage c') \<subseteq> set (storage c1)"
      "map_of (storage c') key = map_of (storage c1) key" "same_frame c1 c'" by auto
    have "set (storage c1) \<subseteq> set (storage c)" using set_delete_subset [of k "storage c"] by (simp add: c1_def)
    then show ?thesis using c' step k(1) by (intro exI [of _ c']) (auto simp: c1_def delete_conv' same_frame_def)
  qed
qed

definition byte_capped :: "'l kernel_cache \<Rightarrow> bool" where
  "byte_capped c \<longleftrightarrow> (\<forall>cap. max_total_bytes (config c) = Some cap \<longrightarrow> total_bytes c \<le> cap \<or> length (storage c) \<le> 1)"

lemma enforce_byte_cap_ok:
  assumes laws: "lru_laws L ks cp" and "queue_ok ks cp c" and "ks (lru c) = key # rest"
  obtains c' where "enforce_byte_cap L c = Some c'" "queue_ok ks cp c'" "byte_capped c'" "set (storage c') \<subseteq> set (storage c)"
    "map_of (storage c') key = map_of (storage c) key" "same_frame c c'"
proof -
  have "\<exists>c'. enforce_byte_cap L c = Some c' \<and> queue_ok ks cp c' \<and> byte_capped c' \<and> set (storage c') \<subseteq> set (storage c)
    \<and> map_of (storage c') key = map_of (storage c) key \<and> same_frame c c'"
  proof (cases "max_total_bytes (config c)")
    case None
    then show ?thesis using assms(2) by (auto simp: enforce_byte_cap_def byte_capped_def same_frame_def)
  next
    case (Some cap)
    then show ?thesis
      using assms(2) evict_over_bytes_ok [OF laws assms(2,3), of cap]
      by (cases "total_bytes c > cap") (auto simp: enforce_byte_cap_def byte_capped_def same_frame_def)
  qed
  then show ?thesis using that by blast
qed

section \<open>Runs\<close>

text \<open>
  The caches that can be reached, with the keys and kernels admitted so far: a cache with or without
  a directory, which an earlier process may have filled and an adversary changed, then any puts,
  lookups and collections with any failures and lock contention, and more tampering. No stored
  text hashes to 32 zero bytes, the value the cache reserves for kernels without a hash.
\<close>

definition admitted ::
    "crypto \<Rightarrow> cache_key \<Rightarrow> cached_kernel \<Rightarrow> (cache_key \<times> cached_kernel) set \<Rightarrow> (cache_key \<times> cached_kernel) set" where
  "admitted C key kern P = (if verify_integrity C kern then insert (key, kern) P else P)"

definition hashable :: "crypto \<Rightarrow> cached_kernel \<Rightarrow> bool" where
  "hashable C kern \<longleftrightarrow> kernel_valid kern \<and> blake3 C (ptx_text (kernel_ptx kern)) \<noteq> replicate 32 0"

inductive cache_run :: "'l lru_ops \<Rightarrow> crypto \<Rightarrow> bytes set \<Rightarrow> (cache_key \<times> cached_kernel) set \<Rightarrow> 'l kernel_cache \<Rightarrow> bool"
  for L C K where
  start: "cache_run L C K {} (with_config L cfg)"
| start_disk: "disk_history C K P d \<Longrightarrow> key \<in> K \<Longrightarrow> \<forall>p \<in> P. hashable C (snd p)
    \<Longrightarrow> cache_run L C K P (with_disk_persistence C (files (artifact_store d)) key (with_config L cfg))"
| put: "cache_run L C K P c \<Longrightarrow> hashable C kern \<Longrightarrow> cache_put L C io now key kern c = Some c'
    \<Longrightarrow> cache_run L C K (admitted C key kern P) c'"
| get: "cache_run L C K P c \<Longrightarrow> cache_get L C io lock_free key c = Some (c', r) \<Longrightarrow> cache_run L C K P c'"
| gc: "cache_run L C K P c \<Longrightarrow> cache_gc_disk C io retain c = (c', n) \<Longrightarrow> cache_run L C K P c'"
| tamper: "cache_run L C K P c \<Longrightarrow> disk c = Some d \<Longrightarrow> no_forgery C K (envelopes P) content
    \<Longrightarrow> cache_run L C K P (c\<lparr>disk := Some (d\<lparr>artifact_store := (artifact_store d)\<lparr>files :=
          AList.update name (content, t) (files (artifact_store d))\<rparr>\<rparr>)\<rparr>)"
| delete: "cache_run L C K P c \<Longrightarrow> disk c = Some d
    \<Longrightarrow> cache_run L C K P (c\<lparr>disk := Some (d\<lparr>artifact_store := (artifact_store d)\<lparr>files :=
          AList.delete name (files (artifact_store d))\<rparr>\<rparr>)\<rparr>)"

text \<open>A kernel that was admitted for the tenant, blueprint and compute capability of a key.\<close>

definition stems :: "crypto \<Rightarrow> (cache_key \<times> cached_kernel) set \<Rightarrow> cache_key \<Rightarrow> cached_kernel \<Rightarrow> bool" where
  "stems C P key kern \<longleftrightarrow> verify_integrity C kern \<and> (\<exists>(key', kern') \<in> P. key_tenant key' = key_tenant key
     \<and> key_blueprint key' = key_blueprint key \<and> key_sm_version key' = key_sm_version key \<and> kernel_ptx kern = kernel_ptx kern')"

definition sources_ok :: "crypto \<Rightarrow> bytes set \<Rightarrow> (cache_key \<times> cached_kernel) set \<Rightarrow> 'l kernel_cache \<Rightarrow> bool" where
  "sources_ok C K P c \<longleftrightarrow> (\<forall>e \<in> set (storage c). stems C P (fst e) (snd e)) \<and> (\<forall>d. disk c = Some d \<longrightarrow> disk_history C K P d)
     \<and> (\<forall>p \<in> P. hashable C (snd p))"

definition cache_ok ::
    "crypto \<Rightarrow> bytes set \<Rightarrow> ('l \<Rightarrow> cache_key list) \<Rightarrow> ('l \<Rightarrow> nat) \<Rightarrow> (cache_key \<times> cached_kernel) set \<Rightarrow> 'l kernel_cache \<Rightarrow> bool" where
  "cache_ok C K ks cp P c \<longleftrightarrow> queue_ok ks cp c \<and> byte_capped c \<and> sources_ok C K P c"

lemma stems_mono: "stems C P key kern \<Longrightarrow> P \<subseteq> Q \<Longrightarrow> stems C Q key kern"
  unfolding stems_def by blast

lemma stems_hash:
  assumes "\<forall>p \<in> P. hashable C (snd p)" and "stems C P key kern"
  shows "integrity_hash kern \<noteq> replicate 32 0"
  using assms unfolding hashable_def stems_def verify_integrity_def by fastforce

lemma with_config_ok:
  assumes "lru_laws L ks cp"
  shows "queue_ok ks cp (with_config L cfg)" and "byte_capped (with_config L cfg)"
  using lru_lawsD(1,2) [OF assms]
  by (simp_all add: queue_ok_def byte_capped_def with_config_def Let_def bytes_exact_def stored_bytes_def)

lemma cache_ok_fields:
  assumes "cache_ok C K ks cp P c" and "storage c' = storage c" and "lru c' = lru c" and "config c' = config c"
    and "total_bytes c' = total_bytes c" and "\<And>d. disk c' = Some d \<Longrightarrow> disk_history C K P d"
  shows "cache_ok C K ks cp P c'"
  using assms(1,6) unfolding cache_ok_def queue_ok_def bytes_exact_def byte_capped_def sources_ok_def assms(2-5) by blast

text \<open>Inserting a kernel and enforcing the byte cap: both insertion paths.\<close>

lemma insert_capped:
  assumes laws: "lru_laws L ks cp" and q: "queue_ok ks cp c" and src: "sources_ok C K P c" and new: "stems C P key kern"
  obtains c' where "evict_over_count L (insert_entry L key kern c) = Some (insert_entry L key kern c)"
    "enforce_byte_cap L (insert_entry L key kern c) = Some c'" "cache_ok C K ks cp P c'" "map_of (storage c') key = Some kern"
    "config c' = config c"
proof -
  let ?c = "insert_entry L key kern c"
  note i = insert_entry_ok [OF laws q, of key kern]
  obtain rest where rest: "ks (lru ?c) = key # rest" using i(2) by blast
  from enforce_byte_cap_ok [OF laws i(1) rest] obtain c' where c': "enforce_byte_cap L ?c = Some c'" "queue_ok ks cp c'"
    "byte_capped c'" "set (storage c') \<subseteq> set (storage ?c)" "map_of (storage c') key = map_of (storage ?c) key" "same_frame ?c c'" .
  have "set (storage c') \<subseteq> insert (key, kern) (set (storage c))" and fr: "disk c' = disk c" "config c' = config c"
    using i(4,5) c'(4,6) by (auto simp: same_frame_def)
  then have "sources_ok C K P c'" using src new unfolding sources_ok_def by fastforce
  then show ?thesis using that [of c'] c' i(3) fr evict_over_count_ok [OF i(1), of L] by (simp add: cache_ok_def)
qed

lemma cache_ok_put:
  assumes laws: "lru_laws L ks cp" and ok: "cache_ok C K ks cp P c" and new: "hashable C kern"
  obtains c' where "cache_put L C io now key kern c = Some c'" "cache_ok C K ks cp (admitted C key kern P) c'" "config c' = config c"
    "verify_integrity C kern \<Longrightarrow> map_of (storage c') key = Some kern"
proof (cases "verify_integrity C kern")
  case False
  then show ?thesis using that [of c] ok by (simp add: cache_put_def admitted_def)
next
  case True
  let ?P = "insert (key, kern) P"
  define c1 where "c1 = (case disk c of Some d \<Rightarrow> c\<lparr>disk := Some (fst (disk_put C io now key kern d))\<rparr> | None \<Rightarrow> c)"
  have c1: "storage c1 = storage c" "lru c1 = lru c" "config c1 = config c" "total_bytes c1 = total_bytes c"
    by (simp_all add: c1_def split: option.splits)
  have "disk_history C K ?P (fst (disk_put C io now key kern d))" if "disk_history C K P d" for d
    using disk_history.put [OF that, of kern io now key] new by (simp add: prod_eq_iff hashable_def)
  then have "sources_ok C K ?P c1"
    using ok new stems_mono [of C P _ _ ?P] unfolding cache_ok_def sources_ok_def c1
    by (auto simp: c1_def split: option.splits)
  moreover have "queue_ok ks cp c1" using ok c1 by (simp add: cache_ok_def queue_ok_def bytes_exact_def)
  moreover have "stems C ?P key kern" using True by (auto simp: stems_def)
  ultimately obtain c' where "evict_over_count L (insert_entry L key kern c1) = Some (insert_entry L key kern c1)"
    "enforce_byte_cap L (insert_entry L key kern c1) = Some c'" "cache_ok C K ks cp ?P c'" "map_of (storage c') key = Some kern"
    "config c' = config c1"
    by (metis insert_capped [OF laws])
  then show ?thesis using that [of c'] True c1 by (simp add: cache_put_def admitted_def c1_def [symmetric])
qed

lemma queue_ok_touch:
  assumes "lru_laws L ks cp" and "queue_ok ks cp c"
  shows "queue_ok ks cp (c\<lparr>lru := lru_touch L key (lru c)\<rparr>)"
proof -
  have "length (key # remove1 key xs) = length xs" if "key \<in> set xs" for xs
    using length_pos_if_in_set [OF that] that by (simp add: length_remove1)
  then show ?thesis using assms(2) by (auto simp: queue_ok_def bytes_exact_def lru_lawsD(4,12) [OF assms(1)])
qed

text \<open>What a lookup gives, on each of its paths.\<close>

lemma cache_ok_get:
  assumes C: "crypto_ok C" and laws: "lru_laws L ks cp" and ok: "cache_ok C K ks cp P c"
  obtains c' r where "cache_get L C io lock_free key c = Some (c', r)" "cache_ok C K ks cp P c'" "config c' = config c"
    "\<And>kern. r = Some kern \<Longrightarrow> stems C P key kern" "\<And>kern. map_of (storage c) key = Some kern \<Longrightarrow> r = Some kern"
proof -
  define c0 where "c0 = (if lock_free then c\<lparr>lru := lru_touch L key (lru c)\<rparr> else c)"
  have f: "storage c0 = storage c" "config c0 = config c" "disk c0 = disk c" "total_bytes c0 = total_bytes c"
    by (simp_all add: c0_def)
  have q0: "queue_ok ks cp c0" using queue_ok_touch [OF laws] ok by (simp add: c0_def cache_ok_def)
  have ok0: "cache_ok C K ks cp P c0" using ok q0 f by (simp add: cache_ok_def sources_ok_def byte_capped_def)
  have src: "sources_ok C K P c0" using ok0 by (simp add: cache_ok_def)
  have dh0: "disk_history C K P d" if "disk c0 = Some d" for d using src that by (simp add: sources_ok_def)
  note unfolded = cache_get_def [of L C io lock_free key c, folded c0_def, unfolded Let_def]
  show ?thesis
  proof (cases "map_of (storage c) key")
    case hit: (Some kern)
    then have st: "stems C P key kern" using src map_of_SomeD [OF hit] f unfolding sources_ok_def by fastforce
    then have v: "verify_integrity C kern" and h: "integrity_hash kern \<noteq> replicate 32 0"
      using stems_hash [of P C key kern] src by (simp_all add: stems_def sources_ok_def)
    define c1 where "c1 = (if verify_on_get (config c) then c0 else c0\<lparr>verify_skipped_total := verify_skipped_total c0 + 1\<rparr>)"
    define c2 where "c2 = c1\<lparr>cache_hits_total := cache_hits_total c1 + 1\<rparr>"
    have get: "cache_get L C io lock_free key c = Some (c2, Some kern)" using hit v h f by (simp add: unfolded c1_def c2_def)
    have ok2: "cache_ok C K ks cp P c2"
      by (rule cache_ok_fields [OF ok0]) (cases "verify_on_get (config c)"; simp add: c1_def c2_def dh0)+
    have "config c2 = config c" by (simp add: c1_def c2_def f)
    then show ?thesis using st hit by (intro that [OF get ok2]) auto
  next
    case miss: None
    show ?thesis
    proof (cases "disk c")
      case None
      let ?c = "c0\<lparr>cache_misses_total := cache_misses_total c0 + 1\<rparr>"
      have "cache_ok C K ks cp P ?c" by (rule cache_ok_fields [OF ok0]) (simp_all add: dh0)
      moreover have "cache_get L C io lock_free key c = Some (?c, None)" using miss None f by (simp add: unfolded)
      ultimately show ?thesis using miss f by (intro that [of ?c None]) simp_all
    next
      case d: (Some d)
      obtain rej res where g: "disk_get C io key d = (rej, res)" by fastforce
      define c1 where "c1 = (if rej then c0\<lparr>integrity_reject_total := integrity_reject_total c0 + 1\<rparr> else c0)"
      have ok1: "cache_ok C K ks cp P c1"
        by (rule cache_ok_fields [OF ok0]) (cases rej; simp add: c1_def dh0)+
      have dh: "disk_history C K P d" using src f d by (simp add: sources_ok_def)
      show ?thesis
      proof (cases "\<exists>kern. res = Ok (Some kern)")
        case True
        then obtain kern where res: "res = Ok (Some kern)" by blast
        have st: "stems C P key kern" using disk_get_stored [OF C dh] g res unfolding stems_def by fastforce
        obtain c2 where c2: "enforce_byte_cap L (insert_entry L key kern c1) = Some c2" "cache_ok C K ks cp P c2" "config c2 = config c1"
          using insert_capped [OF laws _ _ st, of c1 K] ok1 by (metis cache_ok_def)
        let ?c = "c2\<lparr>cache_hits_total := cache_hits_total c2 + 1\<rparr>"
        have "cache_ok C K ks cp P ?c"
          by (rule cache_ok_fields [OF c2(2)]) (use c2(2) in \<open>simp_all add: cache_ok_def sources_ok_def\<close>)
        moreover have "cache_get L C io lock_free key c = Some (?c, Some kern)"
          using miss d f g res c2(1) by (simp add: unfolded c1_def [symmetric])
        moreover have "config ?c = config c" using c2(3) f by (simp add: c1_def)
        ultimately show ?thesis using st miss by (intro that [of ?c "Some kern"]) simp_all
      next
        case False
        let ?c = "c1\<lparr>cache_misses_total := cache_misses_total c1 + 1\<rparr>"
        have "cache_ok C K ks cp P ?c"
          by (rule cache_ok_fields [OF ok1]) (use ok1 in \<open>simp_all add: cache_ok_def sources_ok_def\<close>)
        moreover have "cache_get L C io lock_free key c = Some (?c, None)"
          using miss d f g False by (cases res; cases "projr res") (simp_all add: unfolded c1_def [symmetric])
        moreover have "config ?c = config c" using f by (simp add: c1_def)
        ultimately show ?thesis using miss by (intro that [of ?c None]) simp_all
      qed
    qed
  qed
qed

lemma cache_run_ok:
  assumes C: "crypto_ok C" and laws: "lru_laws L ks cp" and "cache_run L C K P c"
  shows "cache_ok C K ks cp P c"
  using assms(3)
proof induction
  case (start cfg)
  then show ?case using with_config_ok [OF laws] by (simp add: cache_ok_def sources_ok_def) (simp add: with_config_def Let_def)
next
  case (start_disk P d key cfg)
  then have "disk_history C K P (disk_cache_new C (files (artifact_store d)) key)" by (intro disk_history.reopen)
  then show ?case using with_config_ok [OF laws, of cfg] start_disk
    by (simp add: cache_ok_def sources_ok_def with_disk_persistence_def queue_ok_def byte_capped_def bytes_exact_def)
       (simp add: with_config_def Let_def)
next
  case (put P c kern io now key c')
  then show ?case using cache_ok_put [OF laws put.IH put.hyps(2), of io now key] by (metis option.inject)
next
  case (get P c io lock_free key c' r)
  then show ?case using cache_ok_get [OF C laws get.IH, of io lock_free key] by (metis option.inject prod.inject)
next
  case (gc P c io retain c' n)
  show ?case
  proof (rule cache_ok_fields [OF gc.IH])
    fix d
    assume d: "disk c' = Some d"
    show "disk_history C K P d"
    proof (cases "disk c")
      case None
      then show ?thesis using gc.hyps(2) d by (simp add: cache_gc_disk_def)
    next
      case (Some d0)
      moreover obtain d1 n' where "gc_disk C io retain d0 = (d1, n')" by fastforce
      ultimately show ?thesis using gc.hyps(2) d gc.IH disk_history.gc [of C K P d0 io retain d1 n']
        by (auto simp: cache_gc_disk_def cache_ok_def sources_ok_def)
    qed
  qed (use gc.hyps(2) in \<open>auto simp: cache_gc_disk_def split: option.splits prod.splits\<close>)
next
  case (tamper P c d content name t)
  then show ?case by (intro cache_ok_fields [OF tamper.IH]) (auto simp: cache_ok_def sources_ok_def intro: disk_history.tamper)
next
  case (delete P c d name)
  then show ?case by (intro cache_ok_fields [OF delete.IH]) (auto simp: cache_ok_def sources_ok_def intro: disk_history.delete)
qed

lemma put_returns:
  assumes laws: "lru_laws L ks cp" and q: "queue_ok ks cp c"
  shows "\<exists>c'. cache_put L C io now key kern c = Some c'"
proof (cases "verify_integrity C kern")
  case True
  define c1 where "c1 = (case disk c of Some d \<Rightarrow> c\<lparr>disk := Some (fst (disk_put C io now key kern d))\<rparr> | None \<Rightarrow> c)"
  have "queue_ok ks cp c1" using q by (simp add: c1_def queue_ok_def bytes_exact_def split: option.splits)
  note i = insert_entry_ok [OF laws this, of key kern]
  obtain rest where "ks (lru (insert_entry L key kern c1)) = key # rest" using i(2) by blast
  from enforce_byte_cap_ok [OF laws i(1) this] obtain c' where "enforce_byte_cap L (insert_entry L key kern c1) = Some c'" .
  then show ?thesis using True evict_over_count_ok [OF i(1), of L] by (simp add: cache_put_def c1_def [symmetric])
qed (simp add: cache_put_def)

text \<open>
  C16: every call returns and the cache stays within its limits. From every state a run can reach,
  \<open>put\<close> of any kernel and \<open>get\<close> of any key return, so neither eviction loop runs forever; the
  number of entries is within the capacity; the byte total is the size of the stored texts as a
  64-bit number; and with a byte cap the total is within it or a single entry is left.
\<close>

theorem cache_calls_return_bounded:
  assumes "crypto_ok C" and "lru_laws L ks cp" and "cache_run L C K P c"
  shows "(\<forall>io now key kern. \<exists>c'. cache_put L C io now key kern c = Some c')
    \<and> (\<forall>io lock_free key. \<exists>c' r. cache_get L C io lock_free key c = Some (c', r))
    \<and> length (storage c) \<le> capacity (config c) \<and> total_bytes c = of_nat (stored_bytes (storage c))
    \<and> (\<forall>cap. max_total_bytes (config c) = Some cap \<longrightarrow> total_bytes c \<le> cap \<or> length (storage c) \<le> 1)"
proof -
  note ok = cache_run_ok [OF assms]
  have q: "queue_ok ks cp c" "byte_capped c" using ok by (simp_all add: cache_ok_def)
  have g: "\<exists>c' r. cache_get L C io lock_free key c = Some (c', r)" for io lock_free key
    by (rule cache_ok_get [OF assms(1,2) ok, of io lock_free key]) (intro exI)
  have len: "length (storage c) \<le> capacity (config c)" using queue_ok_count [OF q(1)] q(1) by (simp add: queue_ok_def)
  have "total_bytes c = of_nat (stored_bytes (storage c))" using q(1) by (simp add: queue_ok_def bytes_exact_def)
  then show ?thesis using q(2) [unfolded byte_capped_def] put_returns [OF assms(2) q(1)] g len by blast
qed

text \<open>
  C15: tenants are isolated in the two tiers together. A kernel that \<open>get\<close> returns, from memory or
  from a directory that others write to, was put for the same tenant, blueprint and compute
  capability, with the text and the launch geometry unchanged, and its integrity hash verifies.
\<close>

theorem cache_tenant_isolation:
  assumes "crypto_ok C" and "lru_laws L ks cp" and "cache_run L C K P c"
    and "cache_get L C io lock_free key c = Some (c', Some got)"
  shows "\<exists>(key', kern) \<in> P. key_tenant key' = key_tenant key \<and> key_blueprint key' = key_blueprint key
    \<and> key_sm_version key' = key_sm_version key \<and> kernel_ptx got = kernel_ptx kern \<and> verify_integrity C got"
proof -
  from cache_ok_get [OF assms(1,2) cache_run_ok [OF assms(1-3)], of io lock_free key] assms(4)
  have "stems C P key got" by (metis option.inject prod.inject)
  then show ?thesis by (auto simp: stems_def)
qed

text \<open>
  C19: what was put is found. After \<open>put\<close> of a kernel with a true integrity hash the next lookup of
  its key returns that kernel, whatever was evicted to make room, whether or not the disk works,
  and whether or not the lock of the queue is free: the entry just inserted is never the one
  that is evicted, even when it alone exceeds the byte cap.
\<close>

theorem cache_put_get:
  assumes "crypto_ok C" and "lru_laws L ks cp" and "cache_run L C K P c" and "hashable C kern" and "verify_integrity C kern"
  shows "\<exists>c'. cache_put L C io now key kern c = Some c'
    \<and> (\<forall>io' lock_free. \<exists>c''. cache_get L C io' lock_free key c' = Some (c'', Some kern))"
proof -
  from cache_ok_put [OF assms(2) cache_run_ok [OF assms(1-3)] assms(4), of io now key] assms(5)
  obtain c' where c': "cache_put L C io now key kern c = Some c'" "cache_ok C K ks cp (admitted C key kern P) c'"
    "map_of (storage c') key = Some kern" by metis
  have "\<exists>c''. cache_get L C io' lock_free key c' = Some (c'', Some kern)" for io' lock_free
    using cache_ok_get [OF assms(1,2) c'(2), of io' lock_free key] c'(3) by metis
  with c'(1) show ?thesis by blast
qed

section \<open>Concrete runs\<close>

text \<open>A queue as the list of its keys, with its capacity.\<close>

definition list_lru :: "(nat \<times> cache_key list) lru_ops" where
  "list_lru = \<lparr>
     lru_new = (\<lambda>n. (n, [])),
     lru_push = (\<lambda>k (n, xs). if k \<in> set xs then ((n, k # remove1 k xs), Some k)
                 else if length xs < n \<or> xs = [] then ((n, k # xs), None) else ((n, k # butlast xs), Some (last xs))),
     lru_touch = (\<lambda>k (n, xs). (n, if k \<in> set xs then k # remove1 k xs else xs)),
     lru_pop = (\<lambda>(n, xs). ((n, butlast xs), if xs = [] then None else Some (last xs)))\<rparr>"

lemma list_lru_laws: "lru_laws list_lru snd fst"
  by (auto simp: lru_laws_def list_lru_def)

lemma demo_hashable: "hashable demo_crypto demo_kernel"
proof -
  have "hd (blake3 demo_crypto (ptx_text (kernel_ptx demo_kernel))) = 46" by (simp add: demo_crypto_def cached_kernel_new_def)
  then have "blake3 demo_crypto (ptx_text (kernel_ptx demo_kernel)) \<noteq> replicate 32 0" by force
  with demo_kernel_valid show ?thesis by (simp add: hashable_def)
qed

lemma demo_integrity: "verify_integrity demo_crypto demo_kernel"
  by (simp add: verify_integrity_def cached_kernel_new_def)

abbreviation demo_cache :: "(nat \<times> cache_key list) kernel_cache" where
  "demo_cache \<equiv> with_disk_persistence demo_crypto (files (artifact_store stored_disk)) [9] (with_config list_lru kernel_cache_config_default)"

lemma demo_cache_run: "cache_run list_lru demo_crypto {[9]} {(demo_key, demo_kernel)} demo_cache"
  by (rule cache_run.start_disk [OF demo_disk_history]) (simp_all add: demo_hashable)

theorem cache_calls_return_bounded_witness:
  "cache_run list_lru demo_crypto {[9]} {(demo_key, demo_kernel)} demo_cache
   \<and> (\<exists>c'. cache_put list_lru demo_crypto no_faults 7 demo_key demo_kernel demo_cache = Some c')"
  using cache_calls_return_bounded [OF demo_crypto_ok list_lru_laws demo_cache_run] demo_cache_run by blast

theorem cache_put_get_witness:
  "\<exists>c' c''. cache_put list_lru demo_crypto no_faults 7 (for_tenant 8 11 80) demo_kernel demo_cache = Some c'
     \<and> cache_get list_lru demo_crypto (\<lambda>_. True) False (for_tenant 8 11 80) c' = Some (c'', Some demo_kernel)"
  using cache_put_get [OF demo_crypto_ok list_lru_laws demo_cache_run demo_hashable demo_integrity] by blast

theorem cache_tenant_isolation_witness:
  "cache_run list_lru demo_crypto {[9]} {(demo_key, demo_kernel)} demo_cache
   \<and> (\<forall>io lock_free c' got. cache_get list_lru demo_crypto io lock_free (for_tenant 8 11 80) demo_cache \<noteq> Some (c', Some got))"
  using cache_tenant_isolation [OF demo_crypto_ok list_lru_laws demo_cache_run] demo_cache_run
  by (fastforce simp: for_tenant_def)

end
