(* ===== verification/Snapshot_Writer.thy ===== *)
theory Snapshot_Writer
  imports Artifact_Store
begin

text \<open>
  Capturing snapshots, \<^verbatim>\<open>crates/tensor-wasm-snapshot/src/{format,aead,writer}.rs\<close>, with every feature
  of the crate compiled in. The crates for serialisation, compression, checksums, signatures and
  encryption are parameters. An error is a constructor for each message of the source.
\<close>

section \<open>Data\<close>

record snapshot_metadata =
  md_tenant_id :: u64
  md_instance_id :: u128
  created_unix_ms :: u64
  total_uncompressed_bytes :: u64
  sequence_no :: u64
  md_nonce :: "bytes option"

record snapshot =
  magic :: u32
  snapshot_version :: u32
  wasm_memory :: bytes
  gpu_memory :: bytes
  registers :: bytes
  metadata :: snapshot_metadata
  crc32 :: u32

record instance_state =
  state_tenant_id :: u64
  state_instance_id :: u128
  state_wasm_memory :: bytes
  state_gpu_memory :: bytes
  state_registers :: bytes

datatype snapshot_error =
    BlobTooLarge string nat nat
  | ClockBeforeEpoch
  | ClockOverflow
  | ArtifactPut artifact_error
  | ArtifactEnvelope artifact_error
  | AeadEncryptFailed
  | AeadBadMagic
  | AeadTruncated
  | AeadDecryptFailed
  | InputTooLarge nat nat
  | UnsignedRefused
  | ZstdInit string
  | ZstdDecode string
  | DecompressedTooLarge nat
  | BincodeDecode string
  | MagicMismatch u32 u32
  | V3TailJunk nat
  | V2TailJunk nat
  | V3TrailerMissing
  | V3InnerVersion u32
  | VersionMismatch u32
  | ArtifactInnerVersion u32
  | CrcMismatch u32 u32
  | TotalOverflow
  | TotalMismatch nat u64
  | SnapshotTooOld u64 u64 u64
  | SequenceBelowFloor u64 u64
  | NonceMismatch
  | NonceMissing
  | TrailerLength nat nat
  | TrailerMagic
  | UnknownSignatureKind u8
  | TrailerKindInconsistent
  | NoEd25519Key
  | Ed25519Mismatch
  | NoHmacKey
  | HmacMismatch
  | ArtifactGet artifact_error
  | NoEnvelopeKey
  | SinkFailed

section \<open>Parameters\<close>

text \<open>
  Of the crates: the CRC of the concatenated updates; the writes of the serialiser and its reader
  under a size limit; the first frame of a zstd stream, as what it decodes to, the error it stops
  with and the bytes it takes; signing, the public key and strict verification; the cipher.
\<close>

record snapshot_env =
  env_crypto :: crypto
  crc32fast :: "bytes \<Rightarrow> u32"
  bincode_writes :: "snapshot \<Rightarrow> bytes list"
  bincode_decode :: "nat \<Rightarrow> bytes \<Rightarrow> (string, snapshot) result"
  zstd_frame :: "bytes \<Rightarrow> (string, bytes \<times> string option \<times> nat) result"
  ed25519_sign :: "bytes \<Rightarrow> bytes \<Rightarrow> bytes"
  ed25519_public :: "bytes \<Rightarrow> bytes"
  ed25519_verify_strict :: "bytes \<Rightarrow> bytes \<Rightarrow> bytes \<Rightarrow> bool"
  chacha_encrypt :: "bytes \<Rightarrow> bytes \<Rightarrow> bytes \<Rightarrow> bytes \<Rightarrow> bytes option"
  chacha_decrypt :: "bytes \<Rightarrow> bytes \<Rightarrow> bytes \<Rightarrow> bytes \<Rightarrow> bytes option"

definition bincode_encode :: "snapshot_env \<Rightarrow> snapshot \<Rightarrow> bytes" where
  "bincode_encode E s = concat (bincode_writes E s)"

definition ZSTD_MAGIC :: bytes where
  "ZSTD_MAGIC = [0x28, 0xB5, 0x2F, 0xFD]"

text \<open>What their documentation promises.\<close>

definition snapshot_env_ok :: "snapshot_env \<Rightarrow> bool" where
  "snapshot_env_ok E \<longleftrightarrow> crypto_ok (env_crypto E)
     \<and> (\<forall>s limit. length (bincode_encode E s) \<le> limit \<longrightarrow> bincode_decode E limit (bincode_encode E s) = Ok s)
     \<and> (\<forall>s limit s'. bincode_decode E limit (bincode_encode E s) = Ok s' \<longrightarrow> s' = s)
     \<and> (\<forall>l cs. zstd_frame E (zstd_encode (env_crypto E) l cs) = Ok (concat cs, None, length (zstd_encode (env_crypto E) l cs)))
     \<and> (\<forall>l cs. take 4 (zstd_encode (env_crypto E) l cs) = ZSTD_MAGIC)
     \<and> (\<forall>sk m. length (ed25519_sign E sk m) = 64 \<and> ed25519_verify_strict E (ed25519_public E sk) m (ed25519_sign E sk m))
     \<and> (\<forall>k n a m. \<exists>c. chacha_encrypt E k n a m = Some c \<and> length c = length m + 16 \<and> chacha_decrypt E k n a c = Some m)"

section \<open>Format\<close>

definition SNAPSHOT_VERSION_V2 :: u32 where
  "SNAPSHOT_VERSION_V2 = 2"

definition SNAPSHOT_VERSION_V3 :: u32 where
  "SNAPSHOT_VERSION_V3 = 3"

datatype signature_kind = HmacSha256 | Ed25519

definition V3_TRAILER_MAGIC :: bytes where
  "V3_TRAILER_MAGIC = map of_char ''S3T1''"

fun kind_byte :: "signature_kind \<Rightarrow> u8" where
  "kind_byte HmacSha256 = 1"
| "kind_byte Ed25519 = 2"

definition from_kind_byte :: "u8 \<Rightarrow> signature_kind option" where
  "from_kind_byte b = (if b = 1 then Some HmacSha256 else if b = 2 then Some Ed25519 else None)"

fun signature_len :: "signature_kind \<Rightarrow> nat" where
  "signature_len HmacSha256 = 32"
| "signature_len Ed25519 = 64"

definition trailer_len :: "signature_kind \<Rightarrow> nat" where
  "trailer_len k = length V3_TRAILER_MAGIC + 1 + signature_len k"

definition SNAPSHOT_MAGIC :: u32 where
  "SNAPSHOT_MAGIC = 0xBA115407"

definition MIN_ZSTD_LEVEL :: int where
  "MIN_ZSTD_LEVEL = 1"

definition MAX_ZSTD_LEVEL :: int where
  "MAX_ZSTD_LEVEL = 22"

definition MAX_WASM_MEMORY_BYTES :: nat where
  "MAX_WASM_MEMORY_BYTES = 1024 * 1024 * 1024"

definition MAX_GPU_MEMORY_BYTES :: nat where
  "MAX_GPU_MEMORY_BYTES = 4 * 1024 * 1024 * 1024"

definition MAX_REGISTERS_BYTES :: nat where
  "MAX_REGISTERS_BYTES = 1024 * 1024"

definition MAX_TOTAL_PAYLOAD_BYTES :: nat where
  "MAX_TOTAL_PAYLOAD_BYTES = MAX_WASM_MEMORY_BYTES + MAX_GPU_MEMORY_BYTES + MAX_REGISTERS_BYTES + 65536"

definition MAX_INPUT_BYTES :: nat where
  "MAX_INPUT_BYTES = 1024 * 1024 * 1024"

definition MAX_DECOMPRESSED_BYTES :: nat where
  "MAX_DECOMPRESSED_BYTES = 256 * 1024 * 1024"

section \<open>The writer\<close>

record snapshot_writer =
  writer_zstd_level :: int
  writer_hmac_key :: "bytes option"
  writer_ed25519_key :: "bytes option"
  writer_sequence_no :: u64
  writer_nonce :: "bytes option"
  use_legacy_envelope :: bool
  fixed_created_unix_ms :: "u64 option"

definition snapshot_writer_new :: snapshot_writer where
  "snapshot_writer_new = \<lparr>writer_zstd_level = DEFAULT_ZSTD_LEVEL, writer_hmac_key = None, writer_ed25519_key = None,
     writer_sequence_no = 0, writer_nonce = None, use_legacy_envelope = False, fixed_created_unix_ms = None\<rparr>"

definition writer_with_level :: "int \<Rightarrow> snapshot_writer" where
  "writer_with_level level = snapshot_writer_new\<lparr>writer_zstd_level := max MIN_ZSTD_LEVEL (min MAX_ZSTD_LEVEL level)\<rparr>"

definition check_blob_size :: "string \<Rightarrow> nat \<Rightarrow> nat \<Rightarrow> (snapshot_error, unit) result" where
  "check_blob_size kind len limit = (if len > limit then Err (BlobTooLarge kind len limit) else Ok ())"

definition payload_crc32 :: "snapshot_env \<Rightarrow> bytes \<Rightarrow> bytes \<Rightarrow> bytes \<Rightarrow> u32" where
  "payload_crc32 E wasm gpu regs = crc32fast E (wasm @ gpu @ regs)"

text \<open>The clock is the milliseconds since the epoch, or none before it.\<close>

definition build_metadata ::
    "snapshot_env \<Rightarrow> snapshot_writer \<Rightarrow> nat option \<Rightarrow> instance_state \<Rightarrow> (snapshot_error, snapshot_metadata \<times> u32) result" where
  "build_metadata E w clock st =
     rbind (check_blob_size ''wasm_memory'' (length (state_wasm_memory st)) MAX_WASM_MEMORY_BYTES) (\<lambda>_.
     rbind (check_blob_size ''gpu_memory'' (length (state_gpu_memory st)) MAX_GPU_MEMORY_BYTES) (\<lambda>_.
     rbind (check_blob_size ''registers'' (length (state_registers st)) MAX_REGISTERS_BYTES) (\<lambda>_.
     let total = of_nat (length (state_wasm_memory st) + length (state_gpu_memory st) + length (state_registers st)) :: u64
     in rbind (case fixed_created_unix_ms w of
                 Some ms \<Rightarrow> Ok ms
               | None \<Rightarrow>
                   (case clock of
                      None \<Rightarrow> Err ClockBeforeEpoch
                    | Some ms \<Rightarrow> if ms < 2 ^ 64 then Ok (of_nat ms) else Err ClockOverflow)) (\<lambda>created.
        Ok (\<lparr>md_tenant_id = state_tenant_id st, md_instance_id = state_instance_id st, created_unix_ms = created,
             total_uncompressed_bytes = total, sequence_no = writer_sequence_no w, md_nonce = writer_nonce w\<rparr>,
            payload_crc32 E (state_wasm_memory st) (state_gpu_memory st) (state_registers st))))))"

definition snapshot_of :: "u32 \<Rightarrow> instance_state \<Rightarrow> snapshot_metadata \<times> u32 \<Rightarrow> snapshot" where
  "snapshot_of version st = (\<lambda>(md, crc).
     \<lparr>magic = SNAPSHOT_MAGIC, snapshot_version = version, wasm_memory = state_wasm_memory st, gpu_memory = state_gpu_memory st,
      registers = state_registers st, metadata = md, crc32 = crc\<rparr>)"

definition build_snapshot_ref ::
    "snapshot_env \<Rightarrow> snapshot_writer \<Rightarrow> nat option \<Rightarrow> instance_state \<Rightarrow> (snapshot_error, snapshot) result" where
  "build_snapshot_ref E w clock st = rbind (build_metadata E w clock st) (\<lambda>m. Ok (snapshot_of SNAPSHOT_VERSION_V2 st m))"

text \<open>The message that is signed, and the frame with its trailer.\<close>

definition signed_message :: "bytes \<Rightarrow> signature_kind \<Rightarrow> bytes" where
  "signed_message compressed kind = compressed @ V3_TRAILER_MAGIC @ [kind_byte kind]"

definition append_trailer :: "snapshot_env \<Rightarrow> snapshot_writer \<Rightarrow> bytes \<Rightarrow> bytes" where
  "append_trailer E w compressed =
     (case writer_ed25519_key w of
        Some sk \<Rightarrow> signed_message compressed Ed25519 @ ed25519_sign E sk (signed_message compressed Ed25519)
      | None \<Rightarrow>
          (case writer_hmac_key w of
             Some key \<Rightarrow> signed_message compressed HmacSha256
                         @ hmac_sha256 (env_crypto E) key (signed_message compressed HmacSha256)
           | None \<Rightarrow> compressed))"

definition on_wire_version :: "snapshot_writer \<Rightarrow> u32" where
  "on_wire_version w =
     (if writer_ed25519_key w \<noteq> None \<or> writer_hmac_key w \<noteq> None then SNAPSHOT_VERSION_V3 else SNAPSHOT_VERSION_V2)"

definition capture_legacy ::
    "snapshot_env \<Rightarrow> snapshot_writer \<Rightarrow> nat option \<Rightarrow> instance_state \<Rightarrow> (snapshot_error, bytes) result" where
  "capture_legacy E w clock st =
     rbind (build_metadata E w clock st) (\<lambda>m.
       let s = snapshot_of (on_wire_version w) st m;
           compressed = zstd_encode (env_crypto E) (writer_zstd_level w) (bincode_writes E s)
       in Ok (append_trailer E w compressed))"

definition capture_via_artifact_envelope ::
    "snapshot_env \<Rightarrow> snapshot_writer \<Rightarrow> nat option \<Rightarrow> instance_state \<Rightarrow> bytes \<Rightarrow> (snapshot_error, bytes) result" where
  "capture_via_artifact_envelope E w clock st key =
     rbind (build_snapshot_ref E w clock st) (\<lambda>s.
       case encode_envelope_to_vec (env_crypto E) (bincode_encode E s) key of
         Inl e \<Rightarrow> Err (ArtifactEnvelope e)
       | Inr env \<Rightarrow> Ok env)"

definition capture ::
    "snapshot_env \<Rightarrow> snapshot_writer \<Rightarrow> nat option \<Rightarrow> instance_state \<Rightarrow> (snapshot_error, bytes) result" where
  "capture E w clock st =
     (case writer_hmac_key w of
        Some key \<Rightarrow>
          if \<not> use_legacy_envelope w \<and> writer_ed25519_key w = None then capture_via_artifact_envelope E w clock st key
          else capture_legacy E w clock st
      | None \<Rightarrow> capture_legacy E w clock st)"

definition capture_to_artifact_store ::
    "snapshot_env \<Rightarrow> snapshot_writer \<Rightarrow> nat option \<Rightarrow> (io_op \<Rightarrow> bool) \<Rightarrow> nat \<Rightarrow> instance_state \<Rightarrow> disk_store
     \<Rightarrow> disk_store \<times> (snapshot_error, bytes) result" where
  "capture_to_artifact_store E w clock io now st store =
     (case build_snapshot_ref E w clock st of
        Inl e \<Rightarrow> (store, Err e)
      | Inr s \<Rightarrow>
          (case store_put (env_crypto E) io now (bincode_encode E s) store of
             (store', Inl e) \<Rightarrow> (store', Err (ArtifactPut e))
           | (store', Inr hash) \<Rightarrow> (store', Ok hash)))"

section \<open>Encryption at rest\<close>

definition AEAD_MAGIC :: bytes where
  "AEAD_MAGIC = map of_char ''twsAEAD1''"

definition AEAD_NONCE_LEN :: nat where
  "AEAD_NONCE_LEN = 12"

definition AEAD_TAG_LEN :: nat where
  "AEAD_TAG_LEN = 16"

definition AEAD_HEADER_LEN :: nat where
  "AEAD_HEADER_LEN = length AEAD_MAGIC + AEAD_NONCE_LEN"

definition encrypt_blob :: "snapshot_env \<Rightarrow> bytes \<Rightarrow> bytes \<Rightarrow> bytes \<Rightarrow> (snapshot_error, bytes) result" where
  "encrypt_blob E blob key nonce =
     (case chacha_encrypt E key nonce AEAD_MAGIC blob of
        None \<Rightarrow> Err AeadEncryptFailed
      | Some ciphertext \<Rightarrow> Ok (AEAD_MAGIC @ nonce @ ciphertext))"

definition has_aead_magic :: "bytes \<Rightarrow> bool" where
  "has_aead_magic bs \<longleftrightarrow> length bs \<ge> length AEAD_MAGIC \<and> take (length AEAD_MAGIC) bs = AEAD_MAGIC"

definition decrypt_blob :: "snapshot_env \<Rightarrow> bytes \<Rightarrow> bytes \<Rightarrow> (snapshot_error, bytes) result" where
  "decrypt_blob E bs key =
     (if \<not> has_aead_magic bs then Err AeadBadMagic
      else if length bs < AEAD_HEADER_LEN + AEAD_TAG_LEN then Err AeadTruncated
      else case chacha_decrypt E key (take AEAD_NONCE_LEN (drop (length AEAD_MAGIC) bs)) AEAD_MAGIC (drop AEAD_HEADER_LEN bs) of
             None \<Rightarrow> Err AeadDecryptFailed
           | Some blob \<Rightarrow> Ok blob)"

definition capture_encrypted ::
    "snapshot_env \<Rightarrow> snapshot_writer \<Rightarrow> nat option \<Rightarrow> instance_state \<Rightarrow> bytes \<Rightarrow> bytes \<Rightarrow> (snapshot_error, bytes) result" where
  "capture_encrypted E w clock st key nonce = rbind (capture E w clock st) (\<lambda>blob. encrypt_blob E blob key nonce)"

section \<open>Facts\<close>

lemma snapshot_env_okD:
  assumes "snapshot_env_ok E"
  shows "crypto_ok (env_crypto E)"
    and "length (bincode_encode E s) \<le> limit \<Longrightarrow> bincode_decode E limit (bincode_encode E s) = Ok s"
    and "bincode_decode E limit (bincode_encode E s) = Ok s' \<Longrightarrow> s' = s"
    and "zstd_frame E (zstd_encode (env_crypto E) l cs) = Ok (concat cs, None, length (zstd_encode (env_crypto E) l cs))"
    and "take 4 (zstd_encode (env_crypto E) l cs) = ZSTD_MAGIC"
    and "length (ed25519_sign E sk m) = 64"
    and "ed25519_verify_strict E (ed25519_public E sk) m (ed25519_sign E sk m)"
    and "\<exists>c. chacha_encrypt E k n a m = Some c \<and> length c = length m + 16 \<and> chacha_decrypt E k n a c = Some m"
  using assms unfolding snapshot_env_ok_def by blast+

lemma decrypt_encrypt:
  assumes "snapshot_env_ok E" and "length nonce = AEAD_NONCE_LEN"
  shows "\<exists>env. encrypt_blob E blob key nonce = Ok env \<and> decrypt_blob E env key = Ok blob"
proof -
  obtain c where c: "chacha_encrypt E key nonce AEAD_MAGIC blob = Some c" "length c = length blob + 16"
    "chacha_decrypt E key nonce AEAD_MAGIC c = Some blob" using snapshot_env_okD(8) [OF assms(1)] by blast
  moreover have "length AEAD_MAGIC = 8" by (simp add: AEAD_MAGIC_def)
  ultimately show ?thesis
    using assms(2) by (simp add: encrypt_blob_def decrypt_blob_def has_aead_magic_def AEAD_HEADER_LEN_def AEAD_NONCE_LEN_def AEAD_TAG_LEN_def)
qed

text \<open>What a capture records, when it succeeds.\<close>

lemma build_metadata_Ok:
  assumes "build_metadata E w clock st = Ok (md, crc)"
  shows "length (state_wasm_memory st) \<le> MAX_WASM_MEMORY_BYTES" and "length (state_gpu_memory st) \<le> MAX_GPU_MEMORY_BYTES"
    and "length (state_registers st) \<le> MAX_REGISTERS_BYTES"
    and "total_uncompressed_bytes md =
      of_nat (length (state_wasm_memory st) + length (state_gpu_memory st) + length (state_registers st))"
    and "crc = payload_crc32 E (state_wasm_memory st) (state_gpu_memory st) (state_registers st)"
    and "md_tenant_id md = state_tenant_id st" and "md_instance_id md = state_instance_id st"
    and "sequence_no md = writer_sequence_no w" and "md_nonce md = writer_nonce w"
    and "case fixed_created_unix_ms w of Some ms \<Rightarrow> created_unix_ms md = ms | None \<Rightarrow> clock = Some (unat (created_unix_ms md))"
  using assms by (auto simp: build_metadata_def check_blob_size_def Let_def rbind_Ok_iff unsigned_of_nat take_bit_nat_eq_self
    split: if_splits option.splits)

end
