(* ===== verification/Snapshot_Reader.thy ===== *)
theory Snapshot_Reader
  imports Snapshot_Writer
begin

text \<open>
  Restoring snapshots, \<^verbatim>\<open>crates/tensor-wasm-snapshot/src/reader.rs\<close>: the classification of a blob by
  its leading and trailing magic, authentication before decoding, and the checks on what was
  decoded. Each entry point is a function of the bytes and of the clock.
\<close>

section \<open>Model\<close>

record snapshot_reader =
  max_decompressed :: nat
  reader_hmac_key :: "bytes option"
  reader_hmac_keys :: "bytes list"
  ed25519_verifying_key :: "bytes option"
  require_signature :: bool
  min_sequence_no :: "u64 option"
  expected_nonce :: "bytes option"
  max_age :: "nat option"

definition snapshot_reader_new :: snapshot_reader where
  "snapshot_reader_new = \<lparr>max_decompressed = MAX_DECOMPRESSED_BYTES, reader_hmac_key = None, reader_hmac_keys = [],
     ed25519_verifying_key = None, require_signature = False, min_sequence_no = None, expected_nonce = None, max_age = None\<rparr>"

text \<open>The keys in the order they are tried.\<close>

definition all_hmac_keys :: "snapshot_reader \<Rightarrow> bytes list" where
  "all_hmac_keys R = reader_hmac_keys R @ (case reader_hmac_key R of Some k \<Rightarrow> [k] | None \<Rightarrow> [])"

definition check_freshness :: "snapshot_reader \<Rightarrow> nat option \<Rightarrow> u64 \<Rightarrow> (snapshot_error, unit) result" where
  "check_freshness R clock created =
     (case max_age R of
        None \<Rightarrow> Ok ()
      | Some age \<Rightarrow>
          (case clock of
             None \<Rightarrow> Ok ()
           | Some ms \<Rightarrow>
               if ms \<ge> 2 ^ 64 then Ok ()
               else
                 let now = of_nat ms :: u64;
                     age_ms = saturating_sub now created;
                     max_age_ms = (if age < 2 ^ 64 then of_nat age else word_max) :: u64
                 in if age_ms > max_age_ms then Err (SnapshotTooOld created now max_age_ms) else Ok ()))"

definition check_replay :: "snapshot_reader \<Rightarrow> snapshot_metadata \<Rightarrow> (snapshot_error, unit) result" where
  "check_replay R md =
     rbind (case min_sequence_no R of
              Some floor \<Rightarrow> if sequence_no md < floor then Err (SequenceBelowFloor (sequence_no md) floor) else Ok ()
            | None \<Rightarrow> Ok ()) (\<lambda>_.
     case expected_nonce R of
       None \<Rightarrow> Ok ()
     | Some expected \<Rightarrow>
         (case md_nonce md of
            Some actual \<Rightarrow> if actual = expected then Ok () else Err NonceMismatch
          | None \<Rightarrow> Err NonceMissing))"

definition hmac_over_prefix :: "snapshot_env \<Rightarrow> bytes \<Rightarrow> nat \<Rightarrow> u8 \<Rightarrow> bytes \<Rightarrow> bytes" where
  "hmac_over_prefix E bs prefix_len kb key = hmac_sha256 (env_crypto E) key (take prefix_len bs @ V3_TRAILER_MAGIC @ [kb])"

definition verify_v3_trailer ::
    "snapshot_env \<Rightarrow> snapshot_reader \<Rightarrow> bytes \<Rightarrow> nat \<Rightarrow> signature_kind \<Rightarrow> (snapshot_error, unit) result" where
  "verify_v3_trailer E R bs prefix_len kind =
     (if prefix_len > length bs then Err V3TrailerMissing
      else
        let trailer = drop prefix_len bs
        in if length trailer \<noteq> trailer_len kind then Err (TrailerLength (trailer_len kind) (length trailer))
           else if take 4 trailer \<noteq> V3_TRAILER_MAGIC then Err TrailerMagic
           else
             let kb = trailer ! 4;
                 sig = drop 5 trailer
             in case from_kind_byte kb of
                  None \<Rightarrow> Err (UnknownSignatureKind kb)
                | Some parsed \<Rightarrow>
                    if parsed \<noteq> kind then Err TrailerKindInconsistent
                    else
                      (case kind of
                         Ed25519 \<Rightarrow>
                           (case ed25519_verifying_key R of
                              None \<Rightarrow> Err NoEd25519Key
                            | Some vk \<Rightarrow>
                                if ed25519_verify_strict E vk (take prefix_len bs @ V3_TRAILER_MAGIC @ [kb]) sig then Ok ()
                                else Err Ed25519Mismatch)
                       | HmacSha256 \<Rightarrow>
                           if all_hmac_keys R = [] then Err NoHmacKey
                           else if list_ex (\<lambda>key. hmac_over_prefix E bs prefix_len kb key = sig) (all_hmac_keys R) then Ok ()
                           else Err HmacMismatch))"

definition trailer_at :: "bytes \<Rightarrow> signature_kind \<Rightarrow> bool" where
  "trailer_at bs kind \<longleftrightarrow> length bs \<ge> trailer_len kind
     \<and> take 4 (drop (length bs - trailer_len kind) bs) = V3_TRAILER_MAGIC
     \<and> bs ! (length bs - trailer_len kind + 4) = kind_byte kind"

definition detect_v3_trailer :: "bytes \<Rightarrow> (signature_kind \<times> nat) option" where
  "detect_v3_trailer bs =
     (if trailer_at bs Ed25519 then Some (Ed25519, length bs - trailer_len Ed25519)
      else if trailer_at bs HmacSha256 then Some (HmacSha256, length bs - trailer_len HmacSha256)
      else if length bs \<ge> trailer_len HmacSha256
              \<and> take 4 (drop (length bs - trailer_len HmacSha256) bs) = V3_TRAILER_MAGIC
      then Some (HmacSha256, length bs - trailer_len HmacSha256)
      else None)"

text \<open>The checks on a decoded snapshot that every entry point makes.\<close>

definition check_contents :: "snapshot_env \<Rightarrow> snapshot_reader \<Rightarrow> nat option \<Rightarrow> snapshot \<Rightarrow> (snapshot_error, snapshot) result" where
  "check_contents E R clock s =
     rbind (check_blob_size ''wasm_memory'' (length (wasm_memory s)) MAX_WASM_MEMORY_BYTES) (\<lambda>_.
     rbind (check_blob_size ''gpu_memory'' (length (gpu_memory s)) MAX_GPU_MEMORY_BYTES) (\<lambda>_.
     rbind (check_blob_size ''registers'' (length (registers s)) MAX_REGISTERS_BYTES) (\<lambda>_.
     let expected = payload_crc32 E (wasm_memory s) (gpu_memory s) (registers s)
     in if crc32 s \<noteq> expected then Err (CrcMismatch expected (crc32 s))
        else
          let actual_total = length (wasm_memory s) + length (gpu_memory s) + length (registers s)
          in if actual_total \<ge> 2 ^ 64 then Err TotalOverflow
             else if of_nat actual_total \<noteq> total_uncompressed_bytes (metadata s)
             then Err (TotalMismatch actual_total (total_uncompressed_bytes (metadata s)))
             else rbind (check_freshness R clock (created_unix_ms (metadata s))) (\<lambda>_.
                  rbind (check_replay R (metadata s)) (\<lambda>_. Ok s)))))"

text \<open>Inner payload of the artifact envelope: decoded, version 2 only.\<close>

definition decode_artifact_payload ::
    "snapshot_env \<Rightarrow> snapshot_reader \<Rightarrow> nat option \<Rightarrow> bytes \<Rightarrow> (snapshot_error, snapshot) result" where
  "decode_artifact_payload E R clock payload =
     (case bincode_decode E MAX_TOTAL_PAYLOAD_BYTES payload of
        Inl e \<Rightarrow> Err (BincodeDecode e)
      | Inr s \<Rightarrow>
          if magic s \<noteq> SNAPSHOT_MAGIC then Err (MagicMismatch SNAPSHOT_MAGIC (magic s))
          else if snapshot_version s \<noteq> SNAPSHOT_VERSION_V2 then Err (ArtifactInnerVersion (snapshot_version s))
          else check_contents E R clock s)"

fun try_envelope_keys :: "crypto \<Rightarrow> nat \<Rightarrow> bytes \<Rightarrow> bytes list \<Rightarrow> (snapshot_error, bytes) result" where
  "try_envelope_keys C cap bs [] = Err (ArtifactEnvelope BadHmac)"
| "try_envelope_keys C cap bs (key # keys) =
     (case decode_envelope_from_bytes_with_cap C bs key cap of
        Inr payload \<Rightarrow> Ok payload
      | Inl e \<Rightarrow> if e = BadHmac then try_envelope_keys C cap bs keys else Err (ArtifactEnvelope e))"

definition try_restore_artifact_envelope ::
    "snapshot_env \<Rightarrow> snapshot_reader \<Rightarrow> nat option \<Rightarrow> bytes \<Rightarrow> (snapshot_error, snapshot option) result" where
  "try_restore_artifact_envelope E R clock bs =
     (if length bs < length ARTIFACT_MAGIC \<or> take (length ARTIFACT_MAGIC) bs \<noteq> ARTIFACT_MAGIC then Ok None
      else if all_hmac_keys R = [] then Err NoEnvelopeKey
      else rbind (try_envelope_keys (env_crypto E) (max_decompressed R) bs (all_hmac_keys R)) (\<lambda>payload.
           rbind (decode_artifact_payload E R clock payload) (\<lambda>s. Ok (Some s))))"

text \<open>Decoding of the authenticated bytes, and the checks on what they hold.\<close>

definition decode_frame ::
    "snapshot_env \<Rightarrow> snapshot_reader \<Rightarrow> nat option \<Rightarrow> bool \<Rightarrow> bytes \<Rightarrow> (snapshot_error, snapshot) result" where
  "decode_frame E R clock is_v3 auth_prefix =
     (case zstd_frame E auth_prefix of
        Inl e \<Rightarrow> Err (ZstdInit e)
      | Inr (out, stop, consumed) \<Rightarrow>
          (case read_capped (max_decompressed R) (out, stop) of
             Inl e \<Rightarrow> Err (ZstdDecode e)
           | Inr decompressed \<Rightarrow>
               if length decompressed > max_decompressed R then Err (DecompressedTooLarge (max_decompressed R))
               else case bincode_decode E MAX_TOTAL_PAYLOAD_BYTES decompressed of
                      Inl e \<Rightarrow> Err (BincodeDecode e)
                    | Inr s \<Rightarrow>
                        if magic s \<noteq> SNAPSHOT_MAGIC then Err (MagicMismatch SNAPSHOT_MAGIC (magic s))
                        else if is_v3 \<and> snapshot_version s = SNAPSHOT_VERSION_V3 \<and> consumed \<noteq> length auth_prefix
                        then Err (V3TailJunk (length auth_prefix - consumed))
                        else if \<not> is_v3 \<and> snapshot_version s = SNAPSHOT_VERSION_V2 \<and> consumed \<noteq> length auth_prefix
                        then Err (V2TailJunk (length auth_prefix - consumed))
                        else if \<not> is_v3 \<and> snapshot_version s = SNAPSHOT_VERSION_V3 then Err V3TrailerMissing
                        else if is_v3 \<and> snapshot_version s \<noteq> SNAPSHOT_VERSION_V3
                        then Err (V3InnerVersion (snapshot_version s))
                        else if \<not> is_v3 \<and> snapshot_version s \<noteq> SNAPSHOT_VERSION_V2
                        then Err (VersionMismatch (snapshot_version s))
                        else check_contents E R clock s))"

text \<open>A blob without the artifact magic: its trailer is verified before anything is decoded.\<close>

definition restore_framed :: "snapshot_env \<Rightarrow> snapshot_reader \<Rightarrow> nat option \<Rightarrow> bytes \<Rightarrow> (snapshot_error, snapshot) result" where
  "restore_framed E R clock bs =
     (let detected = detect_v3_trailer bs;
          is_v3 = (detected \<noteq> None)
      in rbind (case detected of
                  Some (kind, p) \<Rightarrow> rbind (verify_v3_trailer E R bs p kind) (\<lambda>_. Ok p)
                | None \<Rightarrow> Ok (length bs)) (\<lambda>prefix_len.
         if \<not> is_v3 \<and> require_signature R then Err UnsignedRefused
         else decode_frame E R clock is_v3 (take prefix_len bs)))"

definition restore :: "snapshot_env \<Rightarrow> snapshot_reader \<Rightarrow> nat option \<Rightarrow> bytes \<Rightarrow> (snapshot_error, snapshot) result" where
  "restore E R clock bs =
     (if length bs > MAX_INPUT_BYTES then Err (InputTooLarge (length bs) MAX_INPUT_BYTES)
      else rbind (try_restore_artifact_envelope E R clock bs) (\<lambda>artifact.
        case artifact of
          Some s \<Rightarrow> Ok s
        | None \<Rightarrow> restore_framed E R clock bs))"

definition verify_only ::
    "snapshot_env \<Rightarrow> snapshot_reader \<Rightarrow> nat option \<Rightarrow> bytes \<Rightarrow> (snapshot_error, snapshot_metadata) result" where
  "verify_only E R clock bs = rbind (restore E R clock bs) (\<lambda>s. Ok (metadata s))"

definition restore_decrypted ::
    "snapshot_env \<Rightarrow> snapshot_reader \<Rightarrow> nat option \<Rightarrow> bytes \<Rightarrow> bytes \<Rightarrow> (snapshot_error, snapshot) result" where
  "restore_decrypted E R clock bs aead_key = rbind (decrypt_blob E bs aead_key) (restore E R clock)"

text \<open>A sink with a state of its own, and the sink that writes to an output.\<close>

record 's snapshot_sink =
  sink_wasm_memory :: "bytes \<Rightarrow> 's \<Rightarrow> 's \<times> (snapshot_error, unit) result"
  sink_gpu_memory :: "bytes \<Rightarrow> 's \<Rightarrow> 's \<times> (snapshot_error, unit) result"
  sink_registers :: "bytes \<Rightarrow> 's \<Rightarrow> 's \<times> (snapshot_error, unit) result"

definition restore_streaming ::
    "snapshot_env \<Rightarrow> snapshot_reader \<Rightarrow> nat option \<Rightarrow> 's snapshot_sink \<Rightarrow> bytes \<Rightarrow> 's
     \<Rightarrow> 's \<times> (snapshot_error, snapshot_metadata) result" where
  "restore_streaming E R clock S bs sink =
     (case restore E R clock bs of
        Inl e \<Rightarrow> (sink, Err e)
      | Inr s \<Rightarrow>
          (case sink_wasm_memory S (wasm_memory s) sink of
             (s1, Inl e) \<Rightarrow> (s1, Err e)
           | (s1, Inr _) \<Rightarrow>
               (case sink_gpu_memory S (gpu_memory s) s1 of
                  (s2, Inl e) \<Rightarrow> (s2, Err e)
                | (s2, Inr _) \<Rightarrow>
                    (case sink_registers S (registers s) s2 of
                       (s3, Inl e) \<Rightarrow> (s3, Err e)
                     | (s3, Inr _) \<Rightarrow> (s3, Ok (metadata s))))))"

text \<open>\<open>write_all\<close> gives the output after the call and whether it failed.\<close>

definition write_blob :: "(bytes \<Rightarrow> 'w \<Rightarrow> 'w \<times> bool) \<Rightarrow> bytes \<Rightarrow> 'w \<Rightarrow> 'w \<times> (snapshot_error, unit) result" where
  "write_blob write_all bs out = (case write_all bs out of (out', failed) \<Rightarrow> (out', if failed then Err SinkFailed else Ok ()))"

definition restore_to_writer ::
    "snapshot_env \<Rightarrow> snapshot_reader \<Rightarrow> nat option \<Rightarrow> (bytes \<Rightarrow> 'w \<Rightarrow> 'w \<times> bool) \<Rightarrow> bytes \<Rightarrow> 'w
     \<Rightarrow> 'w \<times> (snapshot_error, snapshot_metadata) result" where
  "restore_to_writer E R clock write_all =
     restore_streaming E R clock
       \<lparr>sink_wasm_memory = write_blob write_all, sink_gpu_memory = write_blob write_all, sink_registers = write_blob write_all\<rparr>"

definition restore_from_artifact_store ::
    "snapshot_env \<Rightarrow> snapshot_reader \<Rightarrow> nat option \<Rightarrow> (io_op \<Rightarrow> bool) \<Rightarrow> disk_store \<Rightarrow> bytes \<Rightarrow> (snapshot_error, snapshot) result" where
  "restore_from_artifact_store E R clock io store hash =
     (case store_get (env_crypto E) io hash store of
        Inl e \<Rightarrow> Err (ArtifactGet e)
      | Inr payload \<Rightarrow> decode_artifact_payload E R clock payload)"

section \<open>What an accepted snapshot satisfies\<close>

definition fresh :: "snapshot_reader \<Rightarrow> nat option \<Rightarrow> snapshot_metadata \<Rightarrow> bool" where
  "fresh R clock md \<longleftrightarrow> (\<forall>age ms. max_age R = Some age \<and> clock = Some ms \<and> ms < 2 ^ 64 \<longrightarrow> ms - unat (created_unix_ms md) \<le> age)"

definition not_replayed :: "snapshot_reader \<Rightarrow> snapshot_metadata \<Rightarrow> bool" where
  "not_replayed R md \<longleftrightarrow> (\<forall>floor. min_sequence_no R = Some floor \<longrightarrow> floor \<le> sequence_no md)
     \<and> (\<forall>n. expected_nonce R = Some n \<longrightarrow> md_nonce md = Some n)"

definition well_formed :: "snapshot_env \<Rightarrow> snapshot \<Rightarrow> bool" where
  "well_formed E s \<longleftrightarrow> length (wasm_memory s) \<le> MAX_WASM_MEMORY_BYTES \<and> length (gpu_memory s) \<le> MAX_GPU_MEMORY_BYTES
     \<and> length (registers s) \<le> MAX_REGISTERS_BYTES \<and> crc32 s = payload_crc32 E (wasm_memory s) (gpu_memory s) (registers s)
     \<and> unat (total_uncompressed_bytes (metadata s)) = length (wasm_memory s) + length (gpu_memory s) + length (registers s)"

lemma check_freshness_Ok: "check_freshness R clock (created_unix_ms md) = Ok () \<longleftrightarrow> fresh R clock md"
proof (cases "max_age R"; cases clock)
  fix age ms
  assume *: "max_age R = Some age" "clock = Some ms"
  have "saturating_sub (of_nat ms) (created_unix_ms md) \<le> (if age < 2 ^ 64 then of_nat age else word_max :: u64)
      \<longleftrightarrow> ms - unat (created_unix_ms md) \<le> age" if ms: "ms < 2 ^ 64"
  proof -
    have m: "unat (of_nat ms :: u64) = ms" using ms by (simp add: unat_of_nat take_bit_nat_eq_self_iff)
    have a: "unat (of_nat age :: u64) = age" if "age < 2 ^ 64" using that by (simp add: unat_of_nat take_bit_nat_eq_self_iff)
    show ?thesis using ms by (cases "age < 2 ^ 64") (simp add: word_le_nat_alt unat_saturating_sub m a unat_word_max; linarith)+
  qed
  then show ?thesis using * by (auto simp: check_freshness_def fresh_def Let_def not_less [symmetric])
qed (simp_all add: check_freshness_def fresh_def)

lemma check_replay_Ok: "check_replay R md = Ok () \<longleftrightarrow> not_replayed R md"
  by (auto simp: check_replay_def not_replayed_def rbind_Ok_iff split: option.splits if_splits)

lemma of_nat_u64_iff: "n < 2 ^ 64 \<and> of_nat n = t \<longleftrightarrow> unat (t :: u64) = n"
proof
  assume *: "unat t = n"
  then have lt: "n < 2 ^ 64" using unsigned_less [of t, where 'a = nat] by simp
  then have "unat (of_nat n :: u64) = n" by (simp add: unat_of_nat take_bit_nat_eq_self_iff)
  with * lt show "n < 2 ^ 64 \<and> of_nat n = t" by (simp add: word_unat_eq_iff)
qed (auto simp: unat_of_nat take_bit_nat_eq_self_iff)

lemma check_contents_Ok:
  "check_contents E R clock s = Ok s' \<longleftrightarrow>
     s' = s \<and> well_formed E s \<and> fresh R clock (metadata s) \<and> not_replayed R (metadata s)"
proof -
  let ?n = "length (wasm_memory s) + length (gpu_memory s) + length (registers s)"
  note total = of_nat_u64_iff [of ?n "total_uncompressed_bytes (metadata s)"]
  have unit: "(x :: (snapshot_error, unit) result) = Ok u \<longleftrightarrow> x = Ok ()" for x u by simp
  show ?thesis
    unfolding check_contents_def Let_def check_blob_size_def well_formed_def total [symmetric]
    by (auto simp: rbind_Ok_iff check_freshness_Ok [symmetric] check_replay_Ok [symmetric] not_less)
qed

lemma trailer_lens [simp]: "trailer_len HmacSha256 = 37" "trailer_len Ed25519 = 69" "length V3_TRAILER_MAGIC = 4"
  by (simp_all add: trailer_len_def V3_TRAILER_MAGIC_def)

lemma kind_byte_inverse: "from_kind_byte b = Some k \<longleftrightarrow> b = kind_byte k"
  by (cases k) (auto simp: from_kind_byte_def split: if_splits)

lemma length_signed_message [simp]: "length (signed_message c k) = length c + 5"
  by (simp add: signed_message_def)

lemma signed_message_inject: "signed_message c k @ s = signed_message c' k @ s' \<Longrightarrow> length s = length s' \<Longrightarrow> c = c' \<and> s = s'"
  by (simp add: signed_message_def)

text \<open>A trailer verifies exactly when the bytes end in a signature of what precedes it.\<close>

definition signature_ok :: "snapshot_env \<Rightarrow> snapshot_reader \<Rightarrow> signature_kind \<Rightarrow> bytes \<Rightarrow> bytes \<Rightarrow> bool" where
  "signature_ok E R kind m sig \<longleftrightarrow>
     (case kind of
        Ed25519 \<Rightarrow> \<exists>vk. ed25519_verifying_key R = Some vk \<and> ed25519_verify_strict E vk m sig
      | HmacSha256 \<Rightarrow> \<exists>key \<in> set (all_hmac_keys R). hmac_sha256 (env_crypto E) key m = sig)"

lemma verify_v3_trailer_Ok:
  "verify_v3_trailer E R bs p kind = Ok () \<longleftrightarrow>
     (\<exists>c sig. p = length c \<and> bs = signed_message c kind @ sig \<and> length sig = signature_len kind
        \<and> signature_ok E R kind (signed_message c kind) sig)"
    (is "?l \<longleftrightarrow> ?r")
proof
  assume ?r
  then obtain c sig where r: "p = length c" "bs = signed_message c kind @ sig" "length sig = signature_len kind"
    "signature_ok E R kind (signed_message c kind) sig" by blast
  have t: "drop p bs = V3_TRAILER_MAGIC @ kind_byte kind # sig" "take p bs = c" using r(1,2) by (simp_all add: signed_message_def)
  have n: "(V3_TRAILER_MAGIC @ kind_byte kind # sig) ! 4 = kind_byte kind" by (simp add: nth_append)
  have "from_kind_byte (kind_byte kind) = Some kind" by (simp add: kind_byte_inverse)
  moreover have "p \<le> length bs" using r(1,2) by simp
  ultimately show ?l
    unfolding verify_v3_trailer_def t Let_def n
    using r(3,4) by (cases kind)
      (auto simp: signature_ok_def signed_message_def hmac_over_prefix_def t list_ex_iff trailer_len_def split: if_splits)
next
  assume l: ?l
  let ?t = "drop p bs"
  have p: "p \<le> length bs" and len: "length ?t = trailer_len kind" and mg: "take 4 ?t = V3_TRAILER_MAGIC"
    and kb: "from_kind_byte (?t ! 4) = Some kind"
    using l by (auto simp: verify_v3_trailer_def Let_def split: if_splits option.splits)
  have five: "5 \<le> length ?t" using len by (cases kind) simp_all
  have "?t = take 4 ?t @ ?t ! 4 # drop 5 ?t"
    using id_take_nth_drop [of 4 ?t] five by simp
  then have t: "?t = V3_TRAILER_MAGIC @ kind_byte kind # drop 5 ?t" using mg kb by (simp add: kind_byte_inverse)
  have bs: "bs = signed_message (take p bs) kind @ drop 5 ?t"
    unfolding signed_message_def using t append_take_drop_id [of p bs] by simp
  have n: "?t ! 4 = kind_byte kind" using kb by (simp add: kind_byte_inverse)
  have "signature_ok E R kind (signed_message (take p bs) kind) (drop 5 ?t)"
    using l p len mg kb unfolding verify_v3_trailer_def Let_def n
    by (cases kind) (auto simp: signature_ok_def signed_message_def hmac_over_prefix_def list_ex_iff kind_byte_inverse
        split: if_splits option.splits)
  moreover have "length (drop 5 ?t) = signature_len kind" using len by (simp add: trailer_len_def)
  ultimately show ?r using bs p by (intro exI [of _ "take p bs"] exI [of _ "drop 5 ?t"]) simp
qed

text \<open>The ways a blob can be accepted.\<close>

definition decodes :: "snapshot_env \<Rightarrow> snapshot_reader \<Rightarrow> bytes \<Rightarrow> snapshot \<Rightarrow> bool" where
  "decodes E R prefix s \<longleftrightarrow> (\<exists>out. zstd_frame E prefix = Ok (out, None, length prefix) \<and> length out \<le> max_decompressed R
     \<and> bincode_decode E MAX_TOTAL_PAYLOAD_BYTES out = Ok s)"

lemma try_envelope_keys_Ok:
  "try_envelope_keys C cap bs keys = Ok payload \<Longrightarrow> \<exists>key \<in> set keys. decode_envelope_from_bytes_with_cap C bs key cap = Ok payload"
  by (induction keys) (auto split: sum.splits if_splits)

lemma detect_v3_cases:
  assumes "detect_v3_trailer bs = Some (kind, p)"
  shows "p = length bs - trailer_len kind" and "trailer_len kind \<le> length bs"
  using assms by (auto simp: detect_v3_trailer_def trailer_at_def split: if_splits)

lemma decode_frame_Ok:
  assumes "decode_frame E R clock is_v3 prefix = Ok s"
  shows "decodes E R prefix s \<and> snapshot_version s = (if is_v3 then SNAPSHOT_VERSION_V3 else SNAPSHOT_VERSION_V2)
    \<and> well_formed E s \<and> fresh R clock (metadata s) \<and> not_replayed R (metadata s)"
proof -
  obtain out stop consumed where z: "zstd_frame E prefix = Ok (out, stop, consumed)"
    using assms by (auto simp: decode_frame_def split: sum.splits)
  obtain d where d: "read_capped (max_decompressed R) (out, stop) = Ok d" "length d \<le> max_decompressed R"
    using assms by (auto simp: decode_frame_def z not_less split: sum.splits if_splits)
  then have eq: "out = d" "stop = None" using read_capped_Ok [of "max_decompressed R" "(out, stop)" d] by simp_all
  obtain s' where s': "bincode_decode E MAX_TOTAL_PAYLOAD_BYTES d = Ok s'"
    using assms d by (auto simp: decode_frame_def z split: sum.splits if_splits)
  have "check_contents E R clock s' = Ok s \<and> consumed = length prefix
      \<and> snapshot_version s' = (if is_v3 then SNAPSHOT_VERSION_V3 else SNAPSHOT_VERSION_V2)"
    using assms d s' by (cases is_v3) (simp_all add: decode_frame_def z split: if_splits)
  then show ?thesis using z d s' eq unfolding check_contents_Ok by (auto simp: decodes_def)
qed

lemma try_restore_Ok:
  assumes "try_restore_artifact_envelope E R clock bs = Ok art"
  shows "(art = None \<longleftrightarrow> take 16 bs \<noteq> ARTIFACT_MAGIC) \<and> (\<forall>s. art = Some s \<longrightarrow>
    (\<exists>key \<in> set (all_hmac_keys R). \<exists>payload. decode_envelope_from_bytes_with_cap (env_crypto E) bs key (max_decompressed R) = Ok payload
       \<and> decode_artifact_payload E R clock payload = Ok s))"
proof (cases "take 16 bs = ARTIFACT_MAGIC")
  case True
  then have "length (take 16 bs) = 16" by (simp add: ARTIFACT_MAGIC_def)
  then have "16 \<le> length bs" by simp
  then have "try_restore_artifact_envelope E R clock bs = (if all_hmac_keys R = [] then Err NoEnvelopeKey
      else rbind (try_envelope_keys (env_crypto E) (max_decompressed R) bs (all_hmac_keys R)) (\<lambda>payload.
           rbind (decode_artifact_payload E R clock payload) (\<lambda>s. Ok (Some s))))"
    using True by (simp add: try_restore_artifact_envelope_def)
  with assms obtain payload s where p: "try_envelope_keys (env_crypto E) (max_decompressed R) bs (all_hmac_keys R) = Ok payload"
    "decode_artifact_payload E R clock payload = Ok s" "art = Some s"
    by (auto simp: rbind_Ok_iff split: if_splits)
  then show ?thesis using True try_envelope_keys_Ok [OF p(1)] by blast
next
  case False
  then show ?thesis using assms by (simp add: try_restore_artifact_envelope_def)
qed

lemma restore_Ok:
  assumes "restore E R clock bs = Ok s"
  obtains (envelope) key payload where "key \<in> set (all_hmac_keys R)"
      "decode_envelope_from_bytes_with_cap (env_crypto E) bs key (max_decompressed R) = Ok payload"
      "bincode_decode E MAX_TOTAL_PAYLOAD_BYTES payload = Ok s" "snapshot_version s = SNAPSHOT_VERSION_V2"
      "well_formed E s" "fresh R clock (metadata s)" "not_replayed R (metadata s)"
  | (signed) kind prefix sig where "bs = signed_message prefix kind @ sig" "length sig = signature_len kind"
      "signature_ok E R kind (signed_message prefix kind) sig" "take 16 bs \<noteq> ARTIFACT_MAGIC" "decodes E R prefix s"
      "snapshot_version s = SNAPSHOT_VERSION_V3"
      "well_formed E s" "fresh R clock (metadata s)" "not_replayed R (metadata s)"
  | (unsigned) "\<not> require_signature R" "detect_v3_trailer bs = None" "take 16 bs \<noteq> ARTIFACT_MAGIC" "decodes E R bs s"
      "snapshot_version s = SNAPSHOT_VERSION_V2"
      "well_formed E s" "fresh R clock (metadata s)" "not_replayed R (metadata s)"
proof -
  obtain art where art: "try_restore_artifact_envelope E R clock bs = Ok art"
    and r: "(case art of Some s \<Rightarrow> Ok s | None \<Rightarrow> restore_framed E R clock bs) = Ok s"
    using assms by (auto simp: restore_def rbind_Ok_iff split: if_splits)
  note a = try_restore_Ok [OF art]
  show ?thesis
  proof (cases art)
    case (Some s')
    then have "s' = s" using r by simp
    with Some a obtain key payload where p: "key \<in> set (all_hmac_keys R)"
      "decode_envelope_from_bytes_with_cap (env_crypto E) bs key (max_decompressed R) = Ok payload"
      "decode_artifact_payload E R clock payload = Ok s" by blast
    from p(3) have "bincode_decode E MAX_TOTAL_PAYLOAD_BYTES payload = Ok s \<and> snapshot_version s = SNAPSHOT_VERSION_V2
        \<and> well_formed E s \<and> fresh R clock (metadata s) \<and> not_replayed R (metadata s)"
      by (auto simp: decode_artifact_payload_def check_contents_Ok split: sum.splits if_splits)
    then show ?thesis using envelope [OF p(1,2)] by blast
  next
    case None
    then have m: "take 16 bs \<noteq> ARTIFACT_MAGIC" and f: "restore_framed E R clock bs = Ok s" using a r by simp_all
    show ?thesis
    proof (cases "detect_v3_trailer bs")
      case d: None
      then have nr: "\<not> require_signature R" and z: "decode_frame E R clock False bs = Ok s"
        using f by (simp_all add: restore_framed_def split: if_splits)
      from decode_frame_Ok [OF z] show ?thesis using unsigned [OF nr d m] by simp
    next
      case (Some kp)
      then obtain kind p where d: "detect_v3_trailer bs = Some (kind, p)" by (cases kp) auto
      have v: "verify_v3_trailer E R bs p kind = Ok ()" and z: "decode_frame E R clock True (take p bs) = Ok s"
        using f d by (auto simp: restore_framed_def rbind_Ok_iff)
      obtain prefix sig where t: "p = length prefix" "bs = signed_message prefix kind @ sig" "length sig = signature_len kind"
        "signature_ok E R kind (signed_message prefix kind) sig" using v unfolding verify_v3_trailer_Ok by blast
      have "take p bs = prefix" using t(1,2) by (simp add: signed_message_def)
      then show ?thesis using signed [OF t(2-4) m] decode_frame_Ok [OF z] by simp
    qed
  qed
qed

end
