(* ===== verification/Snapshot_Safety.thy ===== *)
theory Snapshot_Safety
  imports Snapshot_Reader
begin

text \<open>
  Captures and restores together: a reader that requires signatures returns only what a holder of
  the key captured, and every capture a reader is set up for comes back as it was.
\<close>

section \<open>The forms of a capture\<close>

definition via_envelope :: "snapshot_writer \<Rightarrow> bool" where
  "via_envelope w \<longleftrightarrow> writer_hmac_key w \<noteq> None \<and> \<not> use_legacy_envelope w \<and> writer_ed25519_key w = None"

definition captured_snapshot ::
    "snapshot_env \<Rightarrow> snapshot_writer \<Rightarrow> nat option \<Rightarrow> instance_state \<Rightarrow> (snapshot_error, snapshot) result" where
  "captured_snapshot E w clock st = rbind (build_metadata E w clock st) (\<lambda>m.
     Ok (snapshot_of (if via_envelope w then SNAPSHOT_VERSION_V2 else on_wire_version w) st m))"

definition records_state :: "snapshot_writer \<Rightarrow> nat option \<Rightarrow> instance_state \<Rightarrow> snapshot \<Rightarrow> bool" where
  "records_state w clock st s \<longleftrightarrow> wasm_memory s = state_wasm_memory st \<and> gpu_memory s = state_gpu_memory st
     \<and> registers s = state_registers st \<and> md_tenant_id (metadata s) = state_tenant_id st
     \<and> md_instance_id (metadata s) = state_instance_id st \<and> sequence_no (metadata s) = writer_sequence_no w
     \<and> md_nonce (metadata s) = writer_nonce w
     \<and> (case fixed_created_unix_ms w of Some ms \<Rightarrow> created_unix_ms (metadata s) = ms
        | None \<Rightarrow> clock = Some (unat (created_unix_ms (metadata s))))"

lemma snapshot_of_records:
  assumes "build_metadata E w clock st = Ok m"
  shows "records_state w clock st (snapshot_of version st m)" and "well_formed E (snapshot_of version st m)"
    and "magic (snapshot_of version st m) = SNAPSHOT_MAGIC" and "snapshot_version (snapshot_of version st m) = version"
proof -
  obtain md crc where m: "m = (md, crc)" by fastforce
  note b = build_metadata_Ok [OF assms [unfolded m]]
  let ?n = "length (state_wasm_memory st) + length (state_gpu_memory st) + length (state_registers st)"
  have "?n < 2 ^ 64"
    using b(1-3) by (simp add: MAX_WASM_MEMORY_BYTES_def MAX_GPU_MEMORY_BYTES_def MAX_REGISTERS_BYTES_def)
  then have "unat (total_uncompressed_bytes md) = ?n" using of_nat_u64_iff [of ?n] b(4) by metis
  then show "well_formed E (snapshot_of version st m)" using b(1-3,5) by (simp add: m snapshot_of_def well_formed_def)
  show "records_state w clock st (snapshot_of version st m)" using b(6-10) by (simp add: m snapshot_of_def records_state_def split: option.splits)
qed (cases m, simp add: snapshot_of_def)+

lemma captured_snapshot_records:
  assumes "captured_snapshot E w clock st = Ok s"
  shows "records_state w clock st s" and "well_formed E s" and "magic s = SNAPSHOT_MAGIC"
    and "snapshot_version s = (if via_envelope w then SNAPSHOT_VERSION_V2 else on_wire_version w)"
proof -
  obtain m where "build_metadata E w clock st = Ok m"
    "s = snapshot_of (if via_envelope w then SNAPSHOT_VERSION_V2 else on_wire_version w) st m"
    using assms by (auto simp: captured_snapshot_def rbind_Ok_iff)
  then show "records_state w clock st s" and "well_formed E s" and "magic s = SNAPSHOT_MAGIC"
    and "snapshot_version s = (if via_envelope w then SNAPSHOT_VERSION_V2 else on_wire_version w)"
    using snapshot_of_records by simp_all
qed

abbreviation frame_of :: "snapshot_env \<Rightarrow> snapshot_writer \<Rightarrow> snapshot \<Rightarrow> bytes" where
  "frame_of E w s \<equiv> zstd_encode (env_crypto E) (writer_zstd_level w) (bincode_writes E s)"

lemma capture_Ok:
  assumes "capture E w clock st = Ok bs"
  obtains (envelope) s key where "captured_snapshot E w clock st = Ok s" "via_envelope w" "writer_hmac_key w = Some key"
      "encode_envelope_to_vec (env_crypto E) (bincode_encode E s) key = Ok bs"
  | (framed) s where "captured_snapshot E w clock st = Ok s" "\<not> via_envelope w" "bs = append_trailer E w (frame_of E w s)"
proof (cases "via_envelope w")
  case True
  then obtain key where key: "writer_hmac_key w = Some key" by (auto simp: via_envelope_def)
  with True have "capture_via_artifact_envelope E w clock st key = Ok bs"
    using assms by (simp add: capture_def via_envelope_def)
  then obtain s where "build_snapshot_ref E w clock st = Ok s"
    "(case encode_envelope_to_vec (env_crypto E) (bincode_encode E s) key of
        Inl e \<Rightarrow> Err (ArtifactEnvelope e) | Inr env \<Rightarrow> Ok env) = Ok bs"
    by (auto simp: capture_via_artifact_envelope_def rbind_Ok_iff)
  moreover from this(2) have "encode_envelope_to_vec (env_crypto E) (bincode_encode E s) key = Ok bs"
    by (cases "encode_envelope_to_vec (env_crypto E) (bincode_encode E s) key") simp_all
  moreover have "captured_snapshot E w clock st = build_snapshot_ref E w clock st"
    using True by (simp add: captured_snapshot_def build_snapshot_ref_def)
  ultimately show ?thesis using envelope [of s key] True key by simp
next
  case False
  then have "capture_legacy E w clock st = Ok bs"
    using assms by (auto simp: capture_def via_envelope_def split: option.splits if_splits)
  then obtain m where "build_metadata E w clock st = Ok m"
    "bs = append_trailer E w (frame_of E w (snapshot_of (on_wire_version w) st m))"
    by (auto simp: capture_legacy_def rbind_Ok_iff Let_def)
  then show ?thesis using framed False by (simp add: captured_snapshot_def)
qed

section \<open>No confusion between the forms\<close>

lemma envelope_starts:
  assumes "crypto_ok C" and "encode_envelope_to_vec C payload key = Ok bs"
  shows "take 16 bs = ARTIFACT_MAGIC"
  using assms(2) by (auto simp: encode_envelope_to_vec_def envelope_def envelope_prefix_def split: if_splits)

lemma framed_starts:
  assumes "snapshot_env_ok E"
  shows "take 16 (append_trailer E w (frame_of E w s)) \<noteq> ARTIFACT_MAGIC"
proof
  let ?f = "frame_of E w s"
  have z: "take 4 ?f = ZSTD_MAGIC" by (rule snapshot_env_okD(5) [OF assms])
  have "length (take 4 ?f) = 4" unfolding z by (simp add: ZSTD_MAGIC_def)
  then have "4 \<le> length ?f" by simp
  then have "take 4 (take 16 (append_trailer E w ?f)) = ZSTD_MAGIC"
    using z by (auto simp: append_trailer_def signed_message_def split: option.splits)
  moreover assume "take 16 (append_trailer E w ?f) = ARTIFACT_MAGIC"
  ultimately show False by (simp add: ARTIFACT_MAGIC_def ZSTD_MAGIC_def of_char_def)
qed

lemma envelope_body_inject:
  assumes "crypto_ok C" and "envelope C key (blake3 C p) body = envelope C key' (blake3 C p') body'"
  shows "body = body'"
proof -
  have "envelope_prefix (blake3 C p) body = envelope_prefix (blake3 C p') body'"
    using assms(2) by (simp add: envelope_def crypto_okD [OF assms(1)])
  then show ?thesis by (simp add: envelope_prefix_def crypto_okD [OF assms(1)])
qed

lemma frame_decodes:
  assumes "snapshot_env_ok E" and "decodes E R (frame_of E w s) s'"
  shows "s' = s"
  using assms(2) snapshot_env_okD(3,4) [OF assms(1)] by (auto simp: decodes_def bincode_encode_def)

section \<open>Authenticity\<close>

text \<open>
  The captures that were made, each with its writer and clock. \<open>not_forged\<close> says of the bytes a reader
  is given that a tag of one of its keys on them was made by a capture with that key.
\<close>

definition not_forged ::
    "snapshot_env \<Rightarrow> snapshot_reader \<Rightarrow> (snapshot_writer \<times> nat option \<times> instance_state) set \<Rightarrow> bytes \<Rightarrow> bool" where
  "not_forged E R captures bs \<longleftrightarrow>
     (\<forall>key \<in> set (all_hmac_keys R). \<forall>m. bs = m @ hmac_sha256 (env_crypto E) key m \<longrightarrow>
        (\<exists>(w, clock, st) \<in> captures. writer_hmac_key w = Some key \<and> writer_ed25519_key w = None \<and> capture E w clock st = Ok bs))
   \<and> (\<forall>vk m sig. ed25519_verifying_key R = Some vk \<and> bs = m @ sig \<and> length sig = 64 \<and> ed25519_verify_strict E vk m sig \<longrightarrow>
        (\<exists>(w, clock, st) \<in> captures. \<exists>sk sig'. writer_ed25519_key w = Some sk \<and> ed25519_public E sk = vk
           \<and> length sig' = 64 \<and> capture E w clock st = Ok (m @ sig')))"

lemma envelope_restores_capture:
  assumes "snapshot_env_ok E" and "capture E w clock st = Ok bs"
    and "decode_envelope_from_bytes_with_cap (env_crypto E) bs key cap = Ok payload"
    and "bincode_decode E limit payload = Ok s"
  shows "records_state w clock st s"
proof -
  note C = snapshot_env_okD(1) [OF assms(1)]
  obtain body where b: "bs = envelope (env_crypto E) key (blake3 (env_crypto E) payload) body"
    "zstd_stream (env_crypto E) body = (payload, None)" using assms(3) unfolding envelope_accepted [OF C] by blast
  have start: "take 16 bs = ARTIFACT_MAGIC" unfolding b(1) by (simp add: envelope_def envelope_prefix_def)
  from assms(2) show ?thesis
  proof (cases rule: capture_Ok)
    case (envelope s0 key0)
    let ?p = "bincode_encode E s0"
    have "bs = envelope (env_crypto E) key0 (blake3 (env_crypto E) ?p) (zstd_encode (env_crypto E) DEFAULT_ZSTD_LEVEL [?p])"
      using envelope(4) by (auto simp: encode_envelope_to_vec_def split: if_splits)
    then have "body = zstd_encode (env_crypto E) DEFAULT_ZSTD_LEVEL [?p]" using b(1) envelope_body_inject [OF C] by metis
    then have "payload = ?p" using b(2) crypto_okD(3) [OF C] by simp
    then have "s = s0" using assms(4) snapshot_env_okD(3) [OF assms(1)] by blast
    then show ?thesis using captured_snapshot_records(1) [OF envelope(1)] by simp
  next
    case (framed s0)
    then show ?thesis using framed_starts [OF assms(1)] start by blast
  qed
qed

lemma signed_restores_capture:
  assumes ok: "snapshot_env_ok E" and cap: "capture E w clock st = Ok (signed_message prefix kind @ sig)"
    and len: "length sig = signature_len kind" and start: "kind = HmacSha256 \<Longrightarrow> take 16 (signed_message prefix kind @ sig) \<noteq> ARTIFACT_MAGIC"
    and key: "kind = Ed25519 \<longleftrightarrow> writer_ed25519_key w \<noteq> None" "kind = HmacSha256 \<Longrightarrow> writer_hmac_key w \<noteq> None"
    and dec: "decodes E R prefix s"
  shows "records_state w clock st s"
  using cap
proof (cases rule: capture_Ok)
  case (envelope s0 key0)
  then have "kind = HmacSha256" using key(1) by (cases kind) (simp_all add: via_envelope_def)
  then show ?thesis using envelope_starts [OF snapshot_env_okD(1) [OF ok] envelope(4)] start by blast
next
  case (framed s0)
  let ?f = "frame_of E w s0"
  obtain sig0 where "append_trailer E w ?f = signed_message ?f kind @ sig0" "length sig0 = signature_len kind"
  proof (cases kind)
    case Ed25519
    then obtain sk where "writer_ed25519_key w = Some sk" using key(1) by blast
    then show ?thesis using that Ed25519 snapshot_env_okD(6) [OF ok] by (simp add: append_trailer_def)
  next
    case HmacSha256
    then obtain k where "writer_hmac_key w = Some k" "writer_ed25519_key w = None" using key by blast
    then show ?thesis using that HmacSha256 crypto_okD(2) [OF snapshot_env_okD(1) [OF ok]] by (simp add: append_trailer_def)
  qed
  then have "prefix = ?f" using framed(3) signed_message_inject [of prefix kind sig ?f sig0] len by simp
  then show ?thesis using frame_decodes [OF ok] dec captured_snapshot_records(1) [OF framed(1)] by blast
qed

text \<open>
  C14: a reader that requires signatures returns only captured state. Whatever bytes it is given, if no
  tag on them was forged, what it restores is the memory, registers, tenant, instance, sequence
  number and nonce of a capture made with one of its keys; and the snapshot is within the age,
  at or above the sequence floor and carries the nonce the reader was set to expect.
\<close>

theorem restore_authentic:
  assumes "snapshot_env_ok E" and "require_signature R" and "not_forged E R captures bs" and "restore E R clock bs = Ok s"
  shows "(\<exists>(w, clock', st) \<in> captures. records_state w clock' st s) \<and> well_formed E s \<and> fresh R clock (metadata s)
    \<and> not_replayed R (metadata s)"
  using assms(4)
proof (cases rule: restore_Ok)
  case (envelope key payload)
  have "\<exists>m. bs = m @ hmac_sha256 (env_crypto E) key m"
    using envelope(2) unfolding envelope_accepted [OF snapshot_env_okD(1) [OF assms(1)]] envelope_def by blast
  then obtain w c st where "(w, c, st) \<in> captures" "capture E w c st = Ok bs"
    using assms(3) envelope(1) unfolding not_forged_def by blast
  then show ?thesis using envelope_restores_capture [OF assms(1) _ envelope(2,3)] envelope(5-7) by blast
next
  case (signed kind prefix sig)
  have "\<exists>(w, c, st) \<in> captures. records_state w c st s"
  proof (cases kind)
    case HmacSha256
    then obtain key where "key \<in> set (all_hmac_keys R)" "bs = signed_message prefix kind @ hmac_sha256 (env_crypto E) key (signed_message prefix kind)"
      using signed(1,3) by (auto simp: signature_ok_def)
    then obtain w c st where "(w, c, st) \<in> captures" "writer_hmac_key w = Some key" "writer_ed25519_key w = None"
      "capture E w c st = Ok bs" using assms(3) unfolding not_forged_def by blast
    then show ?thesis using signed_restores_capture [OF assms(1) _ signed(2), of w c st prefix R s] signed(1,4,5) HmacSha256 by auto
  next
    case Ed25519
    then obtain vk where "ed25519_verifying_key R = Some vk" "ed25519_verify_strict E vk (signed_message prefix kind) sig"
      using signed(3) by (auto simp: signature_ok_def)
    moreover have "length sig = 64" using signed(2) Ed25519 by simp
    ultimately obtain w c st sk sig' where w: "(w, c, st) \<in> captures" "writer_ed25519_key w = Some sk" "length sig' = 64"
      "capture E w c st = Ok (signed_message prefix kind @ sig')" using assms(3) signed(1) unfolding not_forged_def by blast
    have "records_state w c st s"
      by (rule signed_restores_capture [OF assms(1) w(4) _ _ _ _ signed(5)]) (simp_all add: w(2,3) Ed25519)
    then show ?thesis using w(1) by blast
  qed
  then show ?thesis using signed(7-9) by blast
next
  case unsigned
  then show ?thesis using assms(2) by blast
qed

section \<open>Round trip\<close>

text \<open>A reader set up for a writer, and bytes whose ending is not mistaken for another trailer.\<close>

definition trusts :: "snapshot_env \<Rightarrow> snapshot_reader \<Rightarrow> snapshot_writer \<Rightarrow> bool" where
  "trusts E R w \<longleftrightarrow>
     (case (writer_ed25519_key w, writer_hmac_key w) of
        (Some sk, _) \<Rightarrow> ed25519_verifying_key R = Some (ed25519_public E sk)
      | (None, Some key) \<Rightarrow> key \<in> set (all_hmac_keys R)
      | (None, None) \<Rightarrow> \<not> require_signature R)"

definition unambiguous :: "snapshot_writer \<Rightarrow> bytes \<Rightarrow> bool" where
  "unambiguous w bs \<longleftrightarrow> via_envelope w \<or>
     (case (writer_ed25519_key w, writer_hmac_key w) of
        (Some sk, _) \<Rightarrow> True
      | (None, Some key) \<Rightarrow> \<not> trailer_at bs Ed25519
      | (None, None) \<Rightarrow> detect_v3_trailer bs = None)"

lemma trailer_at_signed:
  assumes "length sig = signature_len kind"
  shows "trailer_at (signed_message f kind @ sig) kind"
  using assms by (cases kind) (simp_all add: trailer_at_def signed_message_def nth_append)

lemma detect_signed:
  assumes "length sig = signature_len kind" and "kind = HmacSha256 \<Longrightarrow> \<not> trailer_at (signed_message f kind @ sig) Ed25519"
  shows "detect_v3_trailer (signed_message f kind @ sig) = Some (kind, length f)"
  using assms trailer_at_signed [OF assms(1), of f] by (cases kind) (simp_all add: detect_v3_trailer_def)

lemma decode_envelope_any_key:
  assumes "decode_envelope_from_bytes_with_cap C bs key cap = Ok payload"
  shows "decode_envelope_from_bytes_with_cap C bs key' cap \<in> {Ok payload, Err BadHmac}"
  using assms unfolding decode_envelope_from_bytes_with_cap_def Let_def by (simp split: if_split_asm)

lemma try_envelope_keys_finds:
  assumes "key \<in> set keys" and "decode_envelope_from_bytes_with_cap C bs key cap = Ok payload"
  shows "try_envelope_keys C cap bs keys = Ok payload"
  using assms(1)
proof (induction keys)
  case (Cons k keys)
  then show ?case using decode_envelope_any_key [OF assms(2), of k] assms(2) by (cases "k = key") auto
qed simp

lemma decode_frame_finds:
  assumes ok: "snapshot_env_ok E" and "magic s = SNAPSHOT_MAGIC"
    and "snapshot_version s = (if is_v3 then SNAPSHOT_VERSION_V3 else SNAPSHOT_VERSION_V2)"
    and "length (bincode_encode E s) \<le> max_decompressed R" and "length (bincode_encode E s) \<le> MAX_TOTAL_PAYLOAD_BYTES"
    and "well_formed E s" and "fresh R clock (metadata s)" and "not_replayed R (metadata s)"
  shows "decode_frame E R clock is_v3 (frame_of E w s) = Ok s"
proof -
  have "check_contents E R clock s = Ok s" using assms(6-8) by (simp add: check_contents_Ok)
  moreover have "read_capped (max_decompressed R) (bincode_encode E s, None) = Ok (bincode_encode E s)"
    using assms(4) by (simp add: read_capped_def)
  ultimately show ?thesis
    using assms(2-5) snapshot_env_okD(2) [OF ok assms(5)] snapshot_env_okD(4) [OF ok, of "writer_zstd_level w" "bincode_writes E s"]
    by (cases is_v3) (simp_all add: decode_frame_def bincode_encode_def [symmetric] SNAPSHOT_VERSION_V2_def SNAPSHOT_VERSION_V3_def)
qed

lemma decode_payload_finds:
  assumes "snapshot_env_ok E" and "magic s = SNAPSHOT_MAGIC" and "snapshot_version s = SNAPSHOT_VERSION_V2"
    and "length (bincode_encode E s) \<le> MAX_TOTAL_PAYLOAD_BYTES"
    and "well_formed E s" and "fresh R clock (metadata s)" and "not_replayed R (metadata s)"
  shows "decode_artifact_payload E R clock (bincode_encode E s) = Ok s"
  using assms snapshot_env_okD(2) [OF assms(1,4)] by (simp add: decode_artifact_payload_def check_contents_Ok)

lemma restore_framed_finds:
  assumes ok: "snapshot_env_ok E" and w: "\<not> via_envelope w" "trusts E R w" "unambiguous w (append_trailer E w f)"
    and dec: "decode_frame E R clock (on_wire_version w = SNAPSHOT_VERSION_V3) f = Ok s"
  shows "restore_framed E R clock (append_trailer E w f) = Ok s"
proof -
  have signed: "restore_framed E R clock (signed_message f kind @ sig) = Ok s"
    if "length sig = signature_len kind" "signature_ok E R kind (signed_message f kind) sig"
      "kind = HmacSha256 \<Longrightarrow> \<not> trailer_at (signed_message f kind @ sig) Ed25519" "on_wire_version w = SNAPSHOT_VERSION_V3"
    for kind sig
  proof -
    have "verify_v3_trailer E R (signed_message f kind @ sig) (length f) kind = Ok ()"
      unfolding verify_v3_trailer_Ok using that(1,2) by blast
    moreover have "take (length f) (signed_message f kind @ sig) = f" by (simp add: signed_message_def)
    ultimately show ?thesis using detect_signed [OF that(1,3)] dec that(4) by (simp add: restore_framed_def)
  qed
  show ?thesis
  proof (cases "writer_ed25519_key w")
    case (Some sk)
    then show ?thesis using signed [of "ed25519_sign E sk (signed_message f Ed25519)" Ed25519] w(2) snapshot_env_okD(6,7) [OF ok]
      by (simp add: append_trailer_def trusts_def signature_ok_def on_wire_version_def)
  next
    case None
    show ?thesis
    proof (cases "writer_hmac_key w")
      case (Some key)
      then show ?thesis
        using signed [of "hmac_sha256 (env_crypto E) key (signed_message f HmacSha256)" HmacSha256] None w
          crypto_okD(2) [OF snapshot_env_okD(1) [OF ok]]
        by (auto simp: append_trailer_def trusts_def signature_ok_def on_wire_version_def unambiguous_def)
    next
      case n: None
      then have "detect_v3_trailer f = None" "\<not> require_signature R" "append_trailer E w f = f"
        using None w by (simp_all add: append_trailer_def trusts_def unambiguous_def)
      moreover have "on_wire_version w \<noteq> SNAPSHOT_VERSION_V3"
        using None n by (simp add: on_wire_version_def SNAPSHOT_VERSION_V2_def SNAPSHOT_VERSION_V3_def)
      ultimately show ?thesis using dec by (simp add: restore_framed_def)
    qed
  qed
qed

lemma restore_captured:
  assumes "snapshot_env_ok E" and "capture E w clock st = Ok bs" and "captured_snapshot E w clock st = Ok s"
    and "trusts E R w" and "unambiguous w bs" and "length bs \<le> MAX_INPUT_BYTES"
    and "length (bincode_encode E s) \<le> max_decompressed R" and "length (bincode_encode E s) \<le> MAX_TOTAL_PAYLOAD_BYTES"
    and "fresh R clock' (metadata s)" and "not_replayed R (metadata s)"
  shows "restore E R clock' bs = Ok s"
proof -
  note C = snapshot_env_okD(1) [OF assms(1)] and r = captured_snapshot_records [OF assms(3)]
  from assms(2) show ?thesis
  proof (cases rule: capture_Ok)
    case (envelope s0 key)
    then have s: "encode_envelope_to_vec (env_crypto E) (bincode_encode E s) key = Ok bs" using assms(3) by simp
    have key: "key \<in> set (all_hmac_keys R)" using assms(4) envelope(2,3) by (simp add: trusts_def via_envelope_def)
    have "try_envelope_keys (env_crypto E) (max_decompressed R) bs (all_hmac_keys R) = Ok (bincode_encode E s)"
      by (rule try_envelope_keys_finds [OF key decode_encode [OF C s assms(7)]])
    moreover have "decode_artifact_payload E R clock' (bincode_encode E s) = Ok s"
      using decode_payload_finds [OF assms(1) r(3) _ assms(8) r(2) assms(9,10)] r(4) envelope(2) by simp
    moreover have "take 16 bs = ARTIFACT_MAGIC" by (rule envelope_starts [OF C s])
    moreover have "16 \<le> length bs" using arg_cong [OF \<open>take 16 bs = ARTIFACT_MAGIC\<close>, of length] by simp
    moreover have "all_hmac_keys R \<noteq> []" using key by auto
    ultimately show ?thesis using assms(6) by (simp add: restore_def try_restore_artifact_envelope_def)
  next
    case (framed s0)
    then have bs: "bs = append_trailer E w (frame_of E w s)" using assms(3) by simp
    have v: "snapshot_version s = (if on_wire_version w = SNAPSHOT_VERSION_V3 then SNAPSHOT_VERSION_V3 else SNAPSHOT_VERSION_V2)"
      using r(4) framed(2) by (simp add: on_wire_version_def)
    have "restore_framed E R clock' bs = Ok s"
      unfolding bs by (rule restore_framed_finds [OF assms(1) framed(2) assms(4) assms(5) [unfolded bs]
            decode_frame_finds [OF assms(1) r(3) v assms(7,8) r(2) assms(9,10)]])
    moreover have "take 16 bs \<noteq> ARTIFACT_MAGIC" unfolding bs by (rule framed_starts [OF assms(1)])
    ultimately show ?thesis using assms(6) by (simp add: restore_def try_restore_artifact_envelope_def)
  qed
qed

text \<open>
  C17: every capture comes back, kept as bytes or encrypted. In each of the forms a writer produces,
  bytes that a capture returned are restored by a reader set up for that writer to exactly the
  snapshot that was captured, within the reader's limits on size, age, sequence number and nonce,
  when a legacy frame does not happen to end in another trailer's magic; encrypting them under a key
  and restoring with that key gives the same.
\<close>

theorem capture_restore:
  assumes "snapshot_env_ok E" and "capture E w clock st = Ok bs" and "captured_snapshot E w clock st = Ok s"
    and "trusts E R w" and "unambiguous w bs" and "length bs \<le> MAX_INPUT_BYTES"
    and "length (bincode_encode E s) \<le> max_decompressed R" and "length (bincode_encode E s) \<le> MAX_TOTAL_PAYLOAD_BYTES"
    and "fresh R clock' (metadata s)" and "not_replayed R (metadata s)" and "length nonce = AEAD_NONCE_LEN"
  shows "restore E R clock' bs = Ok s \<and> records_state w clock st s \<and> verify_only E R clock' bs = Ok (metadata s)
    \<and> (\<exists>env. capture_encrypted E w clock st aead_key nonce = Ok env \<and> restore_decrypted E R clock' env aead_key = Ok s)"
proof -
  have r: "restore E R clock' bs = Ok s" by (rule restore_captured [OF assms(1-10)])
  obtain env where "encrypt_blob E bs aead_key nonce = Ok env" "decrypt_blob E env aead_key = Ok bs"
    using decrypt_encrypt [OF assms(1,11)] by blast
  then have "capture_encrypted E w clock st aead_key nonce = Ok env" "restore_decrypted E R clock' env aead_key = Ok s"
    using assms(2) r by (simp_all add: capture_encrypted_def restore_decrypted_def)
  then show ?thesis using r captured_snapshot_records(1) [OF assms(3)] by (simp add: verify_only_def)
qed

text \<open>
  A frame signed with a MAC whose 69th byte from the end happens to start the other trailer's
  magic and kind is taken for an Ed25519 frame, and no key for the MAC restores it.
\<close>

lemma hmac_frame_misread:
  assumes "trailer_at bs Ed25519" and "take 16 bs \<noteq> ARTIFACT_MAGIC" and "length bs \<le> MAX_INPUT_BYTES"
    and "ed25519_verifying_key R = None"
  shows "restore E R clock bs = Err NoEd25519Key"
proof -
  let ?p = "length bs - 69"
  have n: "drop ?p bs ! 4 = bs ! (?p + 4)" by (rule nth_drop) simp
  have t: "take 4 (drop ?p bs) = V3_TRAILER_MAGIC" "drop ?p bs ! 4 = kind_byte Ed25519" "69 \<le> length bs"
    using assms(1) unfolding trailer_at_def trailer_lens n by blast+
  then have "verify_v3_trailer E R bs ?p Ed25519 = Err NoEd25519Key"
    using assms(4) by (simp add: verify_v3_trailer_def Let_def from_kind_byte_def)
  then show ?thesis
    using assms by (simp add: restore_def try_restore_artifact_envelope_def restore_framed_def detect_v3_trailer_def)
qed

text \<open>Nothing reaches a sink before the whole snapshot is accepted, and then all of it in order.\<close>

lemma restore_to_writer_output:
  "restore_to_writer E R clock (\<lambda>bs out. (out @ bs, False)) bs out =
     (case restore E R clock bs of
        Inl e \<Rightarrow> (out, Err e)
      | Inr s \<Rightarrow> (out @ wasm_memory s @ gpu_memory s @ registers s, Ok (metadata s)))"
  by (simp add: restore_to_writer_def restore_streaming_def write_blob_def split: sum.split)

section \<open>A concrete instance\<close>

definition demo_put :: "bytes \<Rightarrow> bytes" where
  "demo_put bs = concat (map (\<lambda>b. [1, b]) bs) @ [0]"

fun demo_fields :: "bytes \<Rightarrow> bytes \<Rightarrow> bytes list" where
  "demo_fields acc [] = []"
| "demo_fields acc [x] = (if x = 0 then [rev acc] else [])"
| "demo_fields acc (x # b # r) = (if x = 0 then rev acc # demo_fields [] (b # r) else demo_fields (b # acc) r)"

definition demo_writes :: "snapshot \<Rightarrow> bytes list" where
  "demo_writes s = map demo_put
     [to_le_bytes (magic s), to_le_bytes (snapshot_version s), wasm_memory s, gpu_memory s, registers s,
      to_le_bytes (md_tenant_id (metadata s)), to_le_bytes (md_instance_id (metadata s)),
      to_le_bytes (created_unix_ms (metadata s)), to_le_bytes (total_uncompressed_bytes (metadata s)),
      to_le_bytes (sequence_no (metadata s)), (case md_nonce (metadata s) of None \<Rightarrow> [] | Some n \<Rightarrow> 1 # n),
      to_le_bytes (crc32 s)]"

definition demo_decode :: "nat \<Rightarrow> bytes \<Rightarrow> (string, snapshot) result" where
  "demo_decode limit bs =
     (if length bs > limit then Err ''limit''
      else let f = demo_fields [] bs in
        Ok \<lparr>magic = from_le_bytes (f ! 0), snapshot_version = from_le_bytes (f ! 1), wasm_memory = f ! 2, gpu_memory = f ! 3,
            registers = f ! 4,
            metadata = \<lparr>md_tenant_id = from_le_bytes (f ! 5), md_instance_id = from_le_bytes (f ! 6),
              created_unix_ms = from_le_bytes (f ! 7), total_uncompressed_bytes = from_le_bytes (f ! 8),
              sequence_no = from_le_bytes (f ! 9), md_nonce = (case f ! 10 of [] \<Rightarrow> None | _ # n \<Rightarrow> Some n)\<rparr>,
            crc32 = from_le_bytes (f ! 11)\<rparr>)"

definition demo_snapshot_env :: snapshot_env where
  "demo_snapshot_env = \<lparr>env_crypto = demo_crypto\<lparr>zstd_encode := \<lambda>l cs. ZSTD_MAGIC @ concat cs, zstd_stream := \<lambda>bs. (drop 4 bs, None)\<rparr>,
     crc32fast = (\<lambda>bs. of_nat (length bs)), bincode_writes = demo_writes, bincode_decode = demo_decode,
     zstd_frame = (\<lambda>bs. Ok (drop 4 bs, None, length bs)),
     ed25519_sign = (\<lambda>k m. take 64 (rev m @ k @ replicate 64 0)), ed25519_public = (\<lambda>k. k),
     ed25519_verify_strict = (\<lambda>k m s. s = take 64 (rev m @ k @ replicate 64 0)),
     chacha_encrypt = (\<lambda>k n a m. Some (m @ replicate 16 0)), chacha_decrypt = (\<lambda>k n a c. Some (take (length c - 16) c))\<rparr>"

lemma demo_fields_put: "demo_fields acc (demo_put bs @ r) = (rev acc @ bs) # demo_fields [] r"
proof (induction bs arbitrary: acc)
  case Nil
  then show ?case by (cases r) (simp_all add: demo_put_def)
next
  case (Cons b bs)
  then show ?case by (simp add: demo_put_def)
qed

lemma demo_fields_concat: "demo_fields [] (concat (map demo_put fs)) = fs"
  by (induction fs) (simp_all add: demo_fields_put)

lemma demo_decode_encode:
  assumes "length (bincode_encode demo_snapshot_env s) \<le> limit"
  shows "demo_decode limit (bincode_encode demo_snapshot_env s) = Ok s"
proof -
  have e: "bincode_encode demo_snapshot_env s = concat (demo_writes s)" by (simp add: bincode_encode_def demo_snapshot_env_def)
  have f: "demo_fields [] (concat (demo_writes s)) = [to_le_bytes (magic s), to_le_bytes (snapshot_version s), wasm_memory s, gpu_memory s, registers s,
      to_le_bytes (md_tenant_id (metadata s)), to_le_bytes (md_instance_id (metadata s)),
      to_le_bytes (created_unix_ms (metadata s)), to_le_bytes (total_uncompressed_bytes (metadata s)),
      to_le_bytes (sequence_no (metadata s)), (case md_nonce (metadata s) of None \<Rightarrow> [] | Some n \<Rightarrow> 1 # n),
      to_le_bytes (crc32 s)]"
    unfolding demo_writes_def by (rule demo_fields_concat)
  show ?thesis
    using assms unfolding demo_decode_def e Let_def f
    by (cases "md_nonce (metadata s)") (simp_all add: from_to_le [of 16])
qed

lemma demo_snapshot_env_ok: "snapshot_env_ok demo_snapshot_env"
proof -
  have d: "bincode_decode demo_snapshot_env limit (bincode_encode demo_snapshot_env s) = Ok s' \<Longrightarrow> s' = s" for limit s s'
  proof -
    assume *: "bincode_decode demo_snapshot_env limit (bincode_encode demo_snapshot_env s) = Ok s'"
    then have "demo_decode limit (bincode_encode demo_snapshot_env s) = Ok s'" by (simp add: demo_snapshot_env_def)
    moreover from this have "length (bincode_encode demo_snapshot_env s) \<le> limit" by (simp add: demo_decode_def not_less split: if_splits)
    ultimately show ?thesis using demo_decode_encode by simp
  qed
  have "bincode_decode demo_snapshot_env = demo_decode" by (simp add: demo_snapshot_env_def)
  moreover have "crypto_ok (env_crypto demo_snapshot_env)" by (auto simp: crypto_ok_def demo_snapshot_env_def demo_crypto_def ZSTD_MAGIC_def)
  ultimately show ?thesis
    unfolding snapshot_env_ok_def using d demo_decode_encode by (auto simp: demo_snapshot_env_def demo_crypto_def ZSTD_MAGIC_def)
qed

definition demo_writer :: snapshot_writer where
  "demo_writer = snapshot_writer_new\<lparr>writer_hmac_key := Some [9], writer_sequence_no := 4, fixed_created_unix_ms := Some 1000\<rparr>"

definition demo_reader :: snapshot_reader where
  "demo_reader = snapshot_reader_new\<lparr>reader_hmac_keys := [[9]], require_signature := True, min_sequence_no := Some 4,
     max_age := Some 60000\<rparr>"

definition demo_state :: instance_state where
  "demo_state = \<lparr>state_tenant_id = 7, state_instance_id = 1, state_wasm_memory = [1, 2, 3], state_gpu_memory = [4], state_registers = []\<rparr>"

definition demo_snapshot :: snapshot where
  "demo_snapshot = \<lparr>magic = SNAPSHOT_MAGIC, snapshot_version = SNAPSHOT_VERSION_V2, wasm_memory = [1, 2, 3], gpu_memory = [4],
     registers = [], metadata = \<lparr>md_tenant_id = 7, md_instance_id = 1, created_unix_ms = 1000, total_uncompressed_bytes = 4,
     sequence_no = 4, md_nonce = None\<rparr>, crc32 = 4\<rparr>"

definition demo_blob :: bytes where
  "demo_blob = envelope (env_crypto demo_snapshot_env) [9] (blake3 (env_crypto demo_snapshot_env) (bincode_encode demo_snapshot_env demo_snapshot))
     (zstd_encode (env_crypto demo_snapshot_env) DEFAULT_ZSTD_LEVEL [bincode_encode demo_snapshot_env demo_snapshot])"

lemma demo_captured: "captured_snapshot demo_snapshot_env demo_writer None demo_state = Ok demo_snapshot"
  by (simp add: captured_snapshot_def build_metadata_def check_blob_size_def demo_writer_def snapshot_writer_new_def demo_state_def
      MAX_WASM_MEMORY_BYTES_def MAX_GPU_MEMORY_BYTES_def MAX_REGISTERS_BYTES_def demo_snapshot_def snapshot_of_def via_envelope_def
      payload_crc32_def demo_snapshot_env_def)

lemma length_demo_put: "length (demo_put bs) = 2 * length bs + 1"
  by (induction bs) (simp_all add: demo_put_def)

lemma length_demo_snapshot: "length (bincode_encode demo_snapshot_env demo_snapshot) = 140"
  by (simp add: bincode_encode_def demo_snapshot_env_def demo_writes_def length_demo_put demo_snapshot_def)

lemma demo_built: "build_snapshot_ref demo_snapshot_env demo_writer None demo_state = Ok demo_snapshot"
  using demo_captured by (simp add: captured_snapshot_def build_snapshot_ref_def via_envelope_def demo_writer_def snapshot_writer_new_def)

lemma demo_capture: "capture demo_snapshot_env demo_writer None demo_state = Ok demo_blob"
proof -
  from demo_built have "capture_via_artifact_envelope demo_snapshot_env demo_writer None demo_state [9] = Ok demo_blob"
    by (simp add: capture_via_artifact_envelope_def encode_envelope_to_vec_def length_demo_snapshot MAX_PAYLOAD_LEN_def demo_blob_def)
  then show ?thesis by (simp add: capture_def demo_writer_def snapshot_writer_new_def)
qed

lemma demo_accepts:
  "trusts demo_snapshot_env demo_reader demo_writer" "unambiguous demo_writer demo_blob" "length demo_blob \<le> MAX_INPUT_BYTES"
  "length (bincode_encode demo_snapshot_env demo_snapshot) \<le> max_decompressed demo_reader"
  "length (bincode_encode demo_snapshot_env demo_snapshot) \<le> MAX_TOTAL_PAYLOAD_BYTES"
  "fresh demo_reader (Some 5000) (metadata demo_snapshot)" "not_replayed demo_reader (metadata demo_snapshot)"
proof -
  note C = crypto_okD(1,2) [OF snapshot_env_okD(1) [OF demo_snapshot_env_ok]]
  have "length (zstd_encode (env_crypto demo_snapshot_env) DEFAULT_ZSTD_LEVEL [bincode_encode demo_snapshot_env demo_snapshot]) = 144"
    using length_demo_snapshot unfolding demo_snapshot_env_def by (simp add: ZSTD_MAGIC_def)
  then show "length demo_blob \<le> MAX_INPUT_BYTES"
    by (simp add: demo_blob_def envelope_def envelope_prefix_def C MAX_INPUT_BYTES_def)
  show "trusts demo_snapshot_env demo_reader demo_writer" "unambiguous demo_writer demo_blob"
    by (simp_all add: trusts_def unambiguous_def via_envelope_def demo_writer_def snapshot_writer_new_def demo_reader_def
        snapshot_reader_new_def all_hmac_keys_def)
  show "length (bincode_encode demo_snapshot_env demo_snapshot) \<le> max_decompressed demo_reader"
    "length (bincode_encode demo_snapshot_env demo_snapshot) \<le> MAX_TOTAL_PAYLOAD_BYTES"
    by (simp_all add: length_demo_snapshot demo_reader_def snapshot_reader_new_def MAX_DECOMPRESSED_BYTES_def
        MAX_TOTAL_PAYLOAD_BYTES_def MAX_WASM_MEMORY_BYTES_def)
  show "fresh demo_reader (Some 5000) (metadata demo_snapshot)" "not_replayed demo_reader (metadata demo_snapshot)"
    by (simp_all add: fresh_def not_replayed_def demo_reader_def snapshot_reader_new_def demo_snapshot_def)
qed

theorem capture_restore_witness:
  "restore demo_snapshot_env demo_reader (Some 5000) demo_blob = Ok demo_snapshot \<and> length (replicate 12 (0 :: u8)) = AEAD_NONCE_LEN"
  using capture_restore [OF demo_snapshot_env_ok demo_capture demo_captured demo_accepts, of "replicate 12 0"]
  by (simp add: AEAD_NONCE_LEN_def)

theorem restore_authentic_witness:
  "restore demo_snapshot_env demo_reader (Some 5000) demo_blob = Ok demo_snapshot \<and> records_state demo_writer None demo_state demo_snapshot"
proof -
  have r: "restore demo_snapshot_env demo_reader (Some 5000) demo_blob = Ok demo_snapshot"
    by (rule restore_captured [OF demo_snapshot_env_ok demo_capture demo_captured demo_accepts])
  have "require_signature demo_reader" by (simp add: demo_reader_def)
  moreover have "not_forged demo_snapshot_env demo_reader {(demo_writer, None, demo_state)} demo_blob"
    unfolding not_forged_def by (simp add: demo_capture) (simp add: demo_reader_def snapshot_reader_new_def all_hmac_keys_def
        demo_writer_def snapshot_writer_new_def)
  ultimately show ?thesis using restore_authentic [OF demo_snapshot_env_ok _ _ r, of "{(demo_writer, None, demo_state)}"] r by simp
qed

end
