(* ===== verification/Artifact_Contract.thy ===== *)
theory Artifact_Contract
  imports Artifact_Store
begin

text \<open>
  The trait \<open>ArtifactStore\<close> of \<^verbatim>\<open>crates/tensor-wasm-artifacts/src/lib.rs\<close> as an interface: what
  its clients may rely on, proved for the disk store and for the in-memory store. A client's
  payload is there until it is removed, whatever else is stored, removed or fails in between.
\<close>

section \<open>Histories of calls\<close>

text \<open>The circumstances of a call: for the disk store the I/O calls that fail and the clock.\<close>

datatype 'e store_op = PutOp 'e bytes | RemoveOp 'e bytes

fun run_store :: "('e \<Rightarrow> bytes \<Rightarrow> 's \<Rightarrow> 's \<times> 'r) \<Rightarrow> ('e \<Rightarrow> bytes \<Rightarrow> 's \<Rightarrow> 's \<times> 't) \<Rightarrow> 'e store_op list \<Rightarrow> 's \<Rightarrow> 's" where
  "run_store put remove [] s = s"
| "run_store put remove (PutOp e payload # ops) s = run_store put remove ops (fst (put e payload s))"
| "run_store put remove (RemoveOp e hash # ops) s = run_store put remove ops (fst (remove e hash s))"

text \<open>Calls that neither remove a payload nor put another one of the same hash.\<close>

fun leaves :: "crypto \<Rightarrow> bytes \<Rightarrow> 'e store_op \<Rightarrow> bool" where
  "leaves C payload (PutOp e p) \<longleftrightarrow> p = payload \<or> blake3 C p \<noteq> blake3 C payload"
| "leaves C payload (RemoveOp e hash) \<longleftrightarrow> hash \<noteq> blake3 C payload"

section \<open>The contract\<close>

locale content_addressed =
  fixes put :: "crypto \<Rightarrow> 'e \<Rightarrow> bytes \<Rightarrow> 's \<Rightarrow> 's \<times> (artifact_error, bytes) result"
    and get :: "crypto \<Rightarrow> bytes \<Rightarrow> 's \<Rightarrow> (artifact_error, bytes) result"
    and remove :: "crypto \<Rightarrow> 'e \<Rightarrow> bytes \<Rightarrow> 's \<Rightarrow> 's \<times> (artifact_error, bool) result"
    and ready :: "'s \<Rightarrow> bool"
    and calm :: "'e \<Rightarrow> bool"
  assumes put_ready: "ready s \<Longrightarrow> ready (fst (put C e p s))"
    and put_stores: "crypto_ok C \<Longrightarrow> ready s \<Longrightarrow> calm e \<Longrightarrow> length p \<le> MAX_PAYLOAD_LEN
      \<Longrightarrow> snd (put C e p s) = Ok (blake3 C p) \<and> get C (blake3 C p) (fst (put C e p s)) = Ok p"
    and put_again: "crypto_ok C \<Longrightarrow> ready s \<Longrightarrow> get C (blake3 C p) s = Ok p \<Longrightarrow> get C (blake3 C p) (fst (put C e p s)) = Ok p"
    and put_other: "crypto_ok C \<Longrightarrow> length h = 32 \<Longrightarrow> h \<noteq> blake3 C p \<Longrightarrow> get C h (fst (put C e p s)) = get C h s"
    and remove_ready: "ready s \<Longrightarrow> ready (fst (remove C e h s))"
    and remove_other: "length h = 32 \<Longrightarrow> h \<noteq> h' \<Longrightarrow> get C h (fst (remove C e h' s)) = get C h s"
begin

lemma step_leaves:
  assumes "crypto_ok C" and "ready s" and "get C (blake3 C p) s = Ok p" and "leaves C p op"
  shows "ready (run_store (put C) (remove C) [op] s) \<and> get C (blake3 C p) (run_store (put C) (remove C) [op] s) = Ok p"
proof (cases op)
  case (PutOp e q)
  then show ?thesis
    using assms put_ready put_again [OF assms(1-3)] put_other [OF assms(1) crypto_okD(1) [OF assms(1)]] by (cases "q = p") auto
next
  case (RemoveOp e h)
  then show ?thesis using assms remove_ready remove_other [OF crypto_okD(1) [OF assms(1)], of p h] by auto
qed

lemma kept:
  assumes "crypto_ok C" and "ready s" and "get C (blake3 C p) s = Ok p" and "list_all (leaves C p) ops"
  shows "get C (blake3 C p) (run_store (put C) (remove C) ops s) = Ok p"
  using assms(2-4)
proof (induction ops arbitrary: s)
  case (Cons op ops)
  then have "ready (run_store (put C) (remove C) [op] s)" "get C (blake3 C p) (run_store (put C) (remove C) [op] s) = Ok p"
    using step_leaves [OF assms(1) Cons.prems(1,2)] by simp_all
  moreover have "run_store (put C) (remove C) (op # ops) s = run_store (put C) (remove C) ops (run_store (put C) (remove C) [op] s)"
    by (cases op) simp_all
  ultimately show ?case using Cons by simp
qed simp

lemma stored_is_kept:
  assumes "crypto_ok C" and "ready s" and "calm e" and "length p \<le> MAX_PAYLOAD_LEN" and "list_all (leaves C p) ops"
  shows "get C (blake3 C p) (run_store (put C) (remove C) ops (fst (put C e p s))) = Ok p"
  using kept [OF assms(1) put_ready [OF assms(2)] _ assms(5)] put_stores [OF assms(1-4)] by blast

end

section \<open>The disk store\<close>

text \<open>A store as its constructors build it reads with the signing key first.\<close>

definition store_ready :: "disk_store \<Rightarrow> bool" where
  "store_ready st \<longleftrightarrow> (\<exists>rest. read_keys (provider st) = hmac_key st # rest)"

lemma constructors_ready:
  "store_ready (with_key_provider fs (single_key_provider key))"
  "store_ready (with_key_provider fs (rotating_key_provider key older))"
  by (simp_all add: store_ready_def with_key_provider_def store_build_def single_key_provider_def rotating_key_provider_def)

abbreviation blob_name :: "crypto \<Rightarrow> bytes \<Rightarrow> bytes \<Rightarrow> string" where
  "blob_name C hash key \<equiv> hex_of hash @ ''.'' @ key_fingerprint_hex C key @ ''.bin''"

lemma hash_prefix_inject:
  assumes "hex_of h @ x = hex_of h' @ y" and "length h = length h'"
  shows "h = h'"
proof -
  have "hex_of h = hex_of h'" using assms by simp
  then show ?thesis by (simp only: hex_of_inject)
qed

lemma store_get_cong:
  assumes "length h = 32" and "provider st' = provider st"
    and "\<And>k. map_of (files st') (blob_name C h k) = map_of (files st) (blob_name C h k)"
  shows "store_get C io h st' = store_get C io h st"
proof -
  have "resolve_keys C io (files st') h ks = resolve_keys C io (files st) h ks" for ks
    using assms(1,3) by (induction ks) simp_all
  then have r: "resolve_read_key C io h st' = resolve_read_key C io h st" using assms(2) by (simp add: resolve_read_key_def)
  have path: "resolve_keys C io fs h ks = Ok (Some (path, key)) \<Longrightarrow> path = blob_name C h key" for fs ks path key
    using assms(1) by (induction ks) (auto split: if_splits)
  show ?thesis
    unfolding store_get_def r using assms(3) path [of "files st" "read_keys (provider st)"]
    by (auto simp: resolve_read_key_def split: sum.split option.split)
qed

lemma store_put_cases:
  assumes "crypto_ok C" and "store_put C io now p st = (st', r)"
  obtains (same) "st' = st" | (new) t where "length p \<le> MAX_PAYLOAD_LEN" "st' = st\<lparr>files := AList.update (blob_name C (blake3 C p) (hmac_key st))
      (envelope C (hmac_key st) (blake3 C p) (zstd_encode C (zstd_level st) [p]), t) (files st)\<rparr>"
  using assms(2) by (auto simp: store_put_def publish_def Let_def crypto_okD [OF assms(1)] not_less split: if_splits)

lemma store_put_get_other:
  assumes "crypto_ok C" and "length h = 32" and "h \<noteq> blake3 C p"
  shows "store_get C no_faults h (fst (store_put C io now p st)) = store_get C no_faults h st"
proof -
  obtain st' r where s: "store_put C io now p st = (st', r)" by fastforce
  have "blob_name C h k \<noteq> blob_name C (blake3 C p) (hmac_key st)" for k
    using hash_prefix_inject [of h _ "blake3 C p"] assms crypto_okD(1) [OF assms(1)] by metis
  note ne = this
  from assms(1) s have "store_get C no_faults h st' = store_get C no_faults h st"
  proof (cases rule: store_put_cases)
    case (new t)
    then show ?thesis using ne by (intro store_get_cong [OF assms(2)]) (simp_all add: update_conv' del: append.simps)
  qed simp
  then show ?thesis using s by simp
qed

lemma store_put_get_same:
  assumes C: "crypto_ok C" and "store_ready st" and s: "store_put C io now p st = (st', r)"
    and "st' = st \<Longrightarrow> store_get C no_faults (blake3 C p) st = Ok p"
  shows "store_get C no_faults (blake3 C p) st' = Ok p"
  using C s
proof (cases rule: store_put_cases)
  case same
  then show ?thesis using assms(4) by simp
next
  case (new t)
  obtain rest where "read_keys (provider st') = [] @ hmac_key st # rest" using assms(2) new(2) by (auto simp: store_ready_def)
  then show ?thesis using get_stored(1) [OF C new(1), of st' "[]"] new(2) by (simp add: update_conv')
qed

lemma store_put_stores:
  assumes "crypto_ok C" and "store_ready st" and "length p \<le> MAX_PAYLOAD_LEN"
  shows "snd (store_put C no_faults now p st) = Ok (blake3 C p)"
    and "store_get C no_faults (blake3 C p) (fst (store_put C no_faults now p st)) = Ok p"
proof -
  obtain rest where "read_keys (provider st) = hmac_key st # rest" using assms(2) by (auto simp: store_ready_def)
  then show "store_get C no_faults (blake3 C p) (fst (store_put C no_faults now p st)) = Ok p"
    using get_stored(1) [OF assms(1,3), of "fst (store_put C no_faults now p st)" "[]" "hmac_key st" rest]
    by (simp add: store_put_Ok [OF assms(1,3)] update_conv')
qed (simp add: store_put_Ok [OF assms(1,3)])

lemma store_remove_get_other:
  assumes "length h = 32" and "h \<noteq> h'"
  shows "store_get C no_faults h (fst (store_remove C io h' st)) = store_get C no_faults h st"
proof -
  obtain st' r where s: "store_remove C io h' st = (st', r)" by fastforce
  have ne: "blob_name C h k \<noteq> hex_of h' @ x" if "length h' = 32" for k x
    using hash_prefix_inject [of h _ h'] assms that by metis
  have path: "resolve_keys C io fs h' ks = Ok (Some (path, key)) \<Longrightarrow> length h' = 32 \<and> path = blob_name C h' key" for fs ks path key
    by (induction ks) (auto dest: path_for_key_Ok split: if_splits sum.splits)
  have "store_get C no_faults h st' = store_get C no_faults h st"
  proof (rule store_get_cong [OF assms(1)])
    show "provider st' = provider st"
      using s by (auto simp: store_remove_def Let_def split: sum.splits option.splits prod.splits if_splits)
    show "map_of (files st') (blob_name C h k) = map_of (files st) (blob_name C h k)" for k
      using s path [of "files st" "read_keys (provider st)"] ne [of k]
      by (auto simp: store_remove_def resolve_read_key_def Let_def delete_conv' split: sum.splits option.splits prod.splits if_splits)
  qed
  then show ?thesis using s by simp
qed

interpretation disk: content_addressed "\<lambda>C (io, now). store_put C io now" "\<lambda>C. store_get C no_faults"
  "\<lambda>C (io, now). store_remove C io" store_ready "\<lambda>(io, now). io = no_faults"
proof unfold_locales
  fix C :: crypto and e :: "(io_op \<Rightarrow> bool) \<times> nat" and s p h h'
  obtain io now where e: "e = (io, now)" by fastforce
  obtain s' r where s': "store_put C io now p s = (s', r)" by fastforce
  have k: "hmac_key s' = hmac_key s \<and> provider s' = provider s"
    using s' by (auto simp: store_put_def publish_def Let_def split: if_splits sum.splits)
  show "store_ready s \<Longrightarrow> store_ready (fst ((case e of (io, now) \<Rightarrow> store_put C io now) p s))"
    using k by (simp add: e s' store_ready_def)
  show "store_ready s \<Longrightarrow> store_ready (fst ((case e of (io, now) \<Rightarrow> store_remove C io) h s))"
    by (auto simp: e store_ready_def store_remove_def Let_def split: sum.split option.split)
  show "snd ((case e of (io, now) \<Rightarrow> store_put C io now) p s) = Ok (blake3 C p)
      \<and> store_get C no_faults (blake3 C p) (fst ((case e of (io, now) \<Rightarrow> store_put C io now) p s)) = Ok p"
    if "crypto_ok C" "store_ready s" "case e of (io, now) \<Rightarrow> io = no_faults" "length p \<le> MAX_PAYLOAD_LEN"
    using store_put_stores [OF that(1,2,4)] that(3) by (simp add: e)
  show "crypto_ok C \<Longrightarrow> store_ready s \<Longrightarrow> store_get C no_faults (blake3 C p) s = Ok p
      \<Longrightarrow> store_get C no_faults (blake3 C p) (fst ((case e of (io, now) \<Rightarrow> store_put C io now) p s)) = Ok p"
    using store_put_get_same [OF _ _ s'] by (simp add: e s')
  show "crypto_ok C \<Longrightarrow> length h = 32 \<Longrightarrow> h \<noteq> blake3 C p
      \<Longrightarrow> store_get C no_faults h (fst ((case e of (io, now) \<Rightarrow> store_put C io now) p s)) = store_get C no_faults h s"
    by (simp add: e store_put_get_other)
  show "length h = 32 \<Longrightarrow> h \<noteq> h'
      \<Longrightarrow> store_get C no_faults h (fst ((case e of (io, now) \<Rightarrow> store_remove C io) h' s)) = store_get C no_faults h s"
    by (simp add: e store_remove_get_other)
qed

section \<open>The in-memory store\<close>

interpretation memory: content_addressed "\<lambda>C (_ :: unit) p m. (fst (mem_put C p m), Ok (snd (mem_put C p m)))" "\<lambda>C. mem_get"
  "\<lambda>C (_ :: unit) h m. (fst (mem_remove h m), Ok (snd (mem_remove h m)))" "\<lambda>_. True" "\<lambda>_. True"
  by unfold_locales (auto simp: mem_put_def mem_get_def mem_remove_def split: option.splits)

end
