(* ===== verification/Exec_Executor.thy ===== *)
theory Exec_Executor
  imports Core_Error "HOL-Library.AList" "HOL-Library.Multiset"
begin

text \<open>
  The executor of Wasm instances, \<^verbatim>\<open>crates/tensor-wasm-exec/src/executor.rs\<close> and the parts of
  \<^verbatim>\<open>engine.rs\<close> and \<^verbatim>\<open>instance.rs\<close> it reads: admission under the two caps, building and
  registering instances, termination, and the deadlines of a call. Each function is run alone and
  is one step of the histories of \<open>Pool_Safety\<close>. Durations and instants are nanoseconds. The
  lemmas show that the counters hold exactly the charged slots, within the caps, and that the
  builders make fresh instances of the module that was asked for.
\<close>

section \<open>Configuration and data\<close>

datatype memory_backend = UnifiedBuffer | PoolingMpk u64

record engine_config =
  max_memory_bytes :: u64
  epoch_tick :: nat
  backend :: memory_backend
  max_instances :: "u64 option"
  max_module_bytes :: nat
  auto_offload :: bool
  max_instances_per_tenant :: "u64 option"
  max_call_duration :: "nat option"
  ticker_running :: bool

definition effective_memory_cap :: "engine_config \<Rightarrow> u64" where
  "effective_memory_cap E =
     (case backend E of UnifiedBuffer \<Rightarrow> max_memory_bytes E | PoolingMpk memory_bytes \<Rightarrow> min (max_memory_bytes E) memory_bytes)"

datatype exec_error =
    Wasmtime string
  | InstanceNotFound u128
  | MissingExport string
  | Timeout u128 u64 u64
  | ModuleMemoryTooLarge u64 u64
  | CapacityExhausted u64 u64
  | TenantCapacityExhausted tenant_id u64 u64
  | ModuleTooLarge nat nat
  | EpochTickerNotRunning

text \<open>A streaming context is named by a number. The arguments of a call are passed to the call.\<close>

record spawn_config =
  spawn_tenant :: tenant_id
  spawn_deadline :: "nat option"
  spawn_streaming :: "nat option"
  spawn_input :: bytes

definition for_tenant :: "tenant_id \<Rightarrow> spawn_config" where
  "for_tenant t = \<lparr>spawn_tenant = t, spawn_deadline = None, spawn_streaming = None, spawn_input = []\<rparr>"

text \<open>An instance and its store; \<open>guest_calls\<close> counts the calls that may have changed its memory.\<close>

record 'm tw_instance =
  inst_tenant :: tenant_id
  inst_id :: u128
  inst_deadline :: "nat option"
  deadline_duration :: "nat option"
  hard_deadline :: "nat option"
  memory_limit :: u64
  inst_streaming :: "nat option"
  inst_input :: bytes
  inst_module :: 'm
  guest_calls :: nat

record ('c, 'm) executor =
  instances :: "(u128 \<times> 'm tw_instance) list"
  next_instance_id :: u64
  module_cache :: 'c
  instance_count :: u64
  tenant_counts :: "(tenant_id \<times> u64) list"

text \<open>A new executor, around the empty module cache.\<close>

definition executor_new :: "'c \<Rightarrow> ('c, 'm) executor" where
  "executor_new cache =
     \<lparr>instances = [], next_instance_id = 1, module_cache = cache, instance_count = 0, tenant_counts = []\<rparr>"

section \<open>Parameters\<close>

text \<open>
  The digest; the memory types the parser finds in the raw bytes before its first error, and those
  of a compiled module, exports first; the compiler; the LRU map; and the analyser and rewriter
  of the JIT, whose results are the verdicts and the rewritten bytes with the number of swaps.
\<close>

record memory_type =
  mem_initial :: u64
  mem_maximum :: "u64 option"
  page_size :: u64

record ('c, 'm) runtime =
  digest :: "bytes \<Rightarrow> bytes"
  raw_memories :: "bytes \<Rightarrow> memory_type list"
  from_binary :: "bytes \<Rightarrow> (string, 'm) result"
  module_memories :: "'m \<Rightarrow> memory_type list"
  lru_get :: "bytes \<Rightarrow> 'c \<Rightarrow> 'c \<times> 'm option"
  lru_put :: "bytes \<Rightarrow> 'm \<Rightarrow> 'c \<Rightarrow> 'c"
  has_jit_cache :: bool
  analyse_offload :: "bytes \<Rightarrow> (string, bool list) result"
  rewrite_wasm :: "tenant_id \<Rightarrow> bytes \<Rightarrow> (string, bytes \<times> nat) result"

text \<open>What the LRU crate documents: a lookup finds what is there; an insertion adds and may evict.\<close>

definition runtime_ok :: "('c, 'm) runtime \<Rightarrow> ('c \<Rightarrow> bytes \<rightharpoonup> 'm) \<Rightarrow> bool" where
  "runtime_ok W contents \<longleftrightarrow>
     (\<forall>k c. snd (lru_get W k c) = contents c k \<and> contents (fst (lru_get W k c)) = contents c)
     \<and> (\<forall>k m c. contents (lru_put W k m c) \<subseteq>\<^sub>m (contents c)(k \<mapsto> m))"

text \<open>One instantiation: when it starts and ends, and the error it ends with, if any.\<close>

record boot =
  boot_started :: nat
  boot_finished :: nat
  boot_failure :: "string option"

section \<open>Deadlines\<close>

definition MAX_EPOCH_DEADLINE_TICKS :: u64 where
  "MAX_EPOCH_DEADLINE_TICKS = word_max div 2"

definition COOPERATIVE_YIELD_TICKS :: u64 where
  "COOPERATIVE_YIELD_TICKS = 1"

definition MAX_START_FN_DURATION :: nat where
  "MAX_START_FN_DURATION = 30 * 10 ^ 9"

abbreviation millis :: "nat \<Rightarrow> nat" where
  "millis d \<equiv> d div 10 ^ 6"

abbreviation ceil_div :: "nat \<Rightarrow> nat \<Rightarrow> nat" where
  "ceil_div a b \<equiv> (a + b - 1) div b"

definition duration_to_epoch_ticks :: "nat \<Rightarrow> nat \<Rightarrow> u64" where
  "duration_to_epoch_ticks d tick =
     (let t_ms = max (millis tick) 1;
          ticks = max (ceil_div (millis d) t_ms) 1
      in min (if ticks < 2 ^ 64 then of_nat ticks else MAX_EPOCH_DEADLINE_TICKS) MAX_EPOCH_DEADLINE_TICKS)"

definition effective_call_budget :: "engine_config \<Rightarrow> nat option \<Rightarrow> nat option" where
  "effective_call_budget E per_call =
     (case (per_call, max_call_duration E) of
        (Some a, Some b) \<Rightarrow> Some (min a b)
      | (Some a, None) \<Rightarrow> Some a
      | (None, Some b) \<Rightarrow> Some b
      | (None, None) \<Rightarrow> None)"

text \<open>What the epoch callback decides at a tick: \<open>None\<close> to yield, or the trap.\<close>

definition epoch_callback :: "bool \<Rightarrow> nat \<Rightarrow> 'm tw_instance \<Rightarrow> string option" where
  "epoch_callback cancelled now inst =
     (if cancelled then Some ''instance terminated''
      else case hard_deadline inst of
             Some at \<Rightarrow> if now \<ge> at then Some ''epoch deadline reached'' else None
           | None \<Rightarrow> None)"

section \<open>Limits of a module\<close>

definition memory_growing :: "u64 \<Rightarrow> u64 \<Rightarrow> u64 option \<Rightarrow> bool" where
  "memory_growing engine_max desired maximum =
     (if desired > engine_max then False else case maximum of Some m \<Rightarrow> \<not> desired > m | None \<Rightarrow> True)"

definition TABLE_ENTRY_BYTES :: u64 where
  "TABLE_ENTRY_BYTES = 16"

definition table_growing :: "u64 \<Rightarrow> u64 \<Rightarrow> u64 option \<Rightarrow> bool" where
  "table_growing engine_max desired maximum =
     (if saturating_mul desired TABLE_ENTRY_BYTES > engine_max then False
      else case maximum of Some m \<Rightarrow> \<not> desired > m | None \<Rightarrow> True)"

definition check_memory :: "u64 \<Rightarrow> memory_type \<Rightarrow> (exec_error, unit) result" where
  "check_memory cap mt =
     (let min_bytes = saturating_mul (mem_initial mt) (page_size mt)
      in if min_bytes > cap then Err (ModuleMemoryTooLarge min_bytes cap)
         else case mem_maximum mt of
                None \<Rightarrow> Ok ()
              | Some max_pages \<Rightarrow>
                  let max_bytes = saturating_mul max_pages (page_size mt)
                  in if max_bytes > cap then Err (ModuleMemoryTooLarge max_bytes cap) else Ok ())"

fun check_memories :: "u64 \<Rightarrow> memory_type list \<Rightarrow> (exec_error, unit) result" where
  "check_memories cap [] = Ok ()"
| "check_memories cap (mt # mts) = rbind (check_memory cap mt) (\<lambda>_. check_memories cap mts)"

definition check_module_memory_within_cap :: "('c, 'm) runtime \<Rightarrow> 'm \<Rightarrow> u64 \<Rightarrow> (exec_error, unit) result" where
  "check_module_memory_within_cap W m cap = check_memories cap (module_memories W m)"

definition check_raw_module_memory_within_cap :: "('c, 'm) runtime \<Rightarrow> bytes \<Rightarrow> u64 \<Rightarrow> (exec_error, unit) result" where
  "check_raw_module_memory_within_cap W wasm cap = check_memories cap (raw_memories W wasm)"

fun is_substring :: "string \<Rightarrow> string \<Rightarrow> bool" where
  "is_substring p [] = (p = [])"
| "is_substring p (c # cs) = (take (length p) (c # cs) = p \<or> is_substring p cs)"

definition to_ascii_lowercase :: "string \<Rightarrow> string" where
  "to_ascii_lowercase = map (\<lambda>c. let n = of_char c :: nat in if 65 \<le> n \<and> n \<le> 90 then char_of (n + 32) else c)"

definition MEMORY_FAILURE_MARKER :: string where
  "MEMORY_FAILURE_MARKER = ''memory''"

definition MEMORY_LIMIT_PHRASINGS :: "string list" where
  "MEMORY_LIMIT_PHRASINGS = [''exceeds the limit'', ''exceeds the configured'']"

definition classify_instantiation_error :: "string \<Rightarrow> u64 \<Rightarrow> exec_error" where
  "classify_instantiation_error err cap =
     (let chain = to_ascii_lowercase err
      in if is_substring MEMORY_FAILURE_MARKER chain \<and> list_ex (\<lambda>p. is_substring p chain) MEMORY_LIMIT_PHRASINGS
         then ModuleMemoryTooLarge cap cap
         else Wasmtime err)"

section \<open>Admission\<close>

definition decrement_tenant_count :: "tenant_id \<Rightarrow> (tenant_id \<times> u64) list \<Rightarrow> (tenant_id \<times> u64) list" where
  "decrement_tenant_count t counts =
     (case map_of counts t of
        None \<Rightarrow> counts
      | Some v \<Rightarrow> let v' = saturating_sub v 1 in if v' = 0 then AList.delete t counts else AList.update t v' counts)"

text \<open>The two halves of \<open>charge_instance_slot\<close>: the engine-wide count, then the tenant's.\<close>

definition charge_tenant ::
    "engine_config \<Rightarrow> tenant_id \<Rightarrow> ('c, 'm) executor \<Rightarrow> ('c, 'm) executor \<times> (exec_error, unit) result" where
  "charge_tenant E t x =
     (case max_instances_per_tenant E of
        None \<Rightarrow> (x, Ok ())
      | Some per_tenant_max \<Rightarrow>
          let current = (case map_of (tenant_counts x) t of Some v \<Rightarrow> v | None \<Rightarrow> 0);
              new_tenant_count = current + 1
          in if new_tenant_count > per_tenant_max
             then (x\<lparr>tenant_counts := AList.update t current (tenant_counts x), instance_count := instance_count x - 1\<rparr>,
                   Err (TenantCapacityExhausted t new_tenant_count per_tenant_max))
             else (x\<lparr>tenant_counts := AList.update t new_tenant_count (tenant_counts x)\<rparr>, Ok ()))"

definition charge_instance_slot ::
    "engine_config \<Rightarrow> tenant_id \<Rightarrow> ('c, 'm) executor \<Rightarrow> ('c, 'm) executor \<times> (exec_error, unit) result" where
  "charge_instance_slot E t x =
     (let new_count = instance_count x + 1;
          x' = x\<lparr>instance_count := new_count\<rparr>
      in case max_instances E of
           Some limit \<Rightarrow>
             if new_count > limit then (x'\<lparr>instance_count := new_count - 1\<rparr>, Err (CapacityExhausted new_count limit))
             else charge_tenant E t x'
         | None \<Rightarrow> charge_tenant E t x')"

text \<open>\<open>Drop\<close> of an uncommitted guard.\<close>

definition slot_guard_drop :: "engine_config \<Rightarrow> tenant_id \<Rightarrow> ('c, 'm) executor \<Rightarrow> ('c, 'm) executor" where
  "slot_guard_drop E t x =
     (let x' = x\<lparr>instance_count := instance_count x - 1\<rparr>
      in if max_instances_per_tenant E \<noteq> None then x'\<lparr>tenant_counts := decrement_tenant_count t (tenant_counts x')\<rparr> else x')"

definition release_instance_slot :: "tenant_id \<Rightarrow> ('c, 'm) executor \<Rightarrow> ('c, 'm) executor" where
  "release_instance_slot t x =
     x\<lparr>instance_count := instance_count x - 1, tenant_counts := decrement_tenant_count t (tenant_counts x)\<rparr>"

section \<open>Building instances\<close>

text \<open>
  The compile path behind the single-flight cell: run alone, the cell is empty on entry and gone on
  exit, so it has no state here.
\<close>

definition compile_uncached ::
    "('c, 'm) runtime \<Rightarrow> bytes \<Rightarrow> bytes \<Rightarrow> ('c, 'm) executor \<Rightarrow> ('c, 'm) executor \<times> (exec_error, 'm) result" where
  "compile_uncached W wasm key x =
     (case from_binary W wasm of
        Inl e \<Rightarrow> (x, Err (Wasmtime e))
      | Inr m \<Rightarrow> (x\<lparr>module_cache := lru_put W key m (module_cache x)\<rparr>, Ok m))"

definition compile_module_cached_with_hash ::
    "('c, 'm) runtime \<Rightarrow> engine_config \<Rightarrow> bytes \<Rightarrow> bytes \<Rightarrow> ('c, 'm) executor \<Rightarrow> ('c, 'm) executor \<times> (exec_error, 'm) result" where
  "compile_module_cached_with_hash W E wasm key x =
     (if length wasm > max_module_bytes E then (x, Err (ModuleTooLarge (length wasm) (max_module_bytes E)))
      else
        let (c, hit) = lru_get W key (module_cache x);
            x' = x\<lparr>module_cache := c\<rparr>
        in case hit of
             Some m \<Rightarrow> (x', Ok m)
           | None \<Rightarrow> compile_uncached W wasm key x')"

definition instantiate_detached ::
    "('c, 'm) runtime \<Rightarrow> engine_config \<Rightarrow> spawn_config \<Rightarrow> 'm \<Rightarrow> boot \<Rightarrow> (exec_error, 'm tw_instance) result" where
  "instantiate_detached W E sc m b =
     (let cap = effective_memory_cap E
      in if (spawn_deadline sc \<noteq> None \<or> MAX_START_FN_DURATION > 0) \<and> \<not> ticker_running E then Err EpochTickerNotRunning
         else rbind (check_module_memory_within_cap W m cap) (\<lambda>_.
           case boot_failure b of
             Some e \<Rightarrow> Err (classify_instantiation_error e cap)
           | None \<Rightarrow>
               Ok \<lparr>inst_tenant = spawn_tenant sc, inst_id = 0,
                   inst_deadline = map_option (\<lambda>d. boot_started b + d) (spawn_deadline sc),
                   deadline_duration = spawn_deadline sc,
                   hard_deadline = map_option (\<lambda>d. boot_finished b + d) (effective_call_budget E (spawn_deadline sc)),
                   memory_limit = cap, inst_streaming = spawn_streaming sc, inst_input = spawn_input sc,
                   inst_module = m, guest_calls = 0\<rparr>))"

definition rebuild_pooled_from_module ::
    "('c, 'm) runtime \<Rightarrow> engine_config \<Rightarrow> spawn_config \<Rightarrow> 'm \<Rightarrow> boot \<Rightarrow> ('c, 'm) executor
     \<Rightarrow> ('c, 'm) executor \<times> (exec_error, 'm tw_instance) result" where
  "rebuild_pooled_from_module W E sc m b x =
     (case charge_instance_slot E (spawn_tenant sc) x of
        (x1, Inl e) \<Rightarrow> (x1, Err e)
      | (x1, Inr _) \<Rightarrow>
          (case instantiate_detached W E sc m b of
             Inl e \<Rightarrow> (slot_guard_drop E (spawn_tenant sc) x1, Err e)
           | Inr inst \<Rightarrow> (x1, Ok inst)))"

definition build_pooled_instance_with_hash ::
    "('c, 'm) runtime \<Rightarrow> engine_config \<Rightarrow> spawn_config \<Rightarrow> bytes \<Rightarrow> bytes \<Rightarrow> boot \<Rightarrow> ('c, 'm) executor
     \<Rightarrow> ('c, 'm) executor \<times> (exec_error, 'm tw_instance \<times> 'm) result" where
  "build_pooled_instance_with_hash W E sc wasm key b x =
     (case check_raw_module_memory_within_cap W wasm (effective_memory_cap E) of
        Inl e \<Rightarrow> (x, Err e)
      | Inr _ \<Rightarrow>
          (case charge_instance_slot E (spawn_tenant sc) x of
             (x1, Inl e) \<Rightarrow> (x1, Err e)
           | (x1, Inr _) \<Rightarrow>
               (case compile_module_cached_with_hash W E wasm key x1 of
                  (x2, Inl e) \<Rightarrow> (slot_guard_drop E (spawn_tenant sc) x2, Err e)
                | (x2, Inr m) \<Rightarrow>
                    (case instantiate_detached W E sc m b of
                       Inl e \<Rightarrow> (slot_guard_drop E (spawn_tenant sc) x2, Err e)
                     | Inr inst \<Rightarrow> (x2, Ok (inst, m))))))"

definition build_pooled_instance ::
    "('c, 'm) runtime \<Rightarrow> engine_config \<Rightarrow> spawn_config \<Rightarrow> bytes \<Rightarrow> boot \<Rightarrow> ('c, 'm) executor
     \<Rightarrow> ('c, 'm) executor \<times> (exec_error, 'm tw_instance \<times> 'm) result" where
  "build_pooled_instance W E sc wasm b x = build_pooled_instance_with_hash W E sc wasm (digest W wasm) b x"

section \<open>The registry\<close>

text \<open>\<open>None\<close> when the loop would never find a vacant id.\<close>

partial_function (option) allocate_instance_id :: "('c, 'm) executor \<Rightarrow> (('c, 'm) executor \<times> u128) option" where
  "allocate_instance_id x =
     (let raw = next_instance_id x;
          x' = x\<lparr>next_instance_id := raw + 1\<rparr>;
          i = ucast raw
      in if map_of (instances x') i = None then Some (x', i) else allocate_instance_id x')"

definition register_pooled_instance ::
    "'m tw_instance \<Rightarrow> ('c, 'm) executor \<Rightarrow> (('c, 'm) executor \<times> (exec_error, u128) result) option" where
  "register_pooled_instance inst x =
     (case allocate_instance_id x of
        None \<Rightarrow> None
      | Some (x1, i) \<Rightarrow>
          Some (case map_of (instances x1) i of
                  None \<Rightarrow> (x1\<lparr>instances := AList.update i (inst\<lparr>inst_id := i\<rparr>) (instances x1)\<rparr>, Ok i)
                | Some _ \<Rightarrow> (x1, Err (Wasmtime ''instance id collision after allocation''))))"

text \<open>\<open>shared\<close> tells whether a running call still holds the instance.\<close>

definition detach_pooled_instance ::
    "engine_config \<Rightarrow> bool \<Rightarrow> u128 \<Rightarrow> ('c, 'm) executor \<Rightarrow> ('c, 'm) executor \<times> 'm tw_instance option" where
  "detach_pooled_instance E shared i x =
     (case map_of (instances x) i of
        None \<Rightarrow> (x, None)
      | Some inst \<Rightarrow>
          let x1 = x\<lparr>instances := AList.delete i (instances x)\<rparr>
          in if \<not> shared then (x1, Some inst)
             else (slot_guard_drop E (inst_tenant inst) x1, None))"

definition maybe_rewrite_for_offload :: "('c, 'm) runtime \<Rightarrow> engine_config \<Rightarrow> spawn_config \<Rightarrow> bytes \<Rightarrow> bytes" where
  "maybe_rewrite_for_offload W E sc wasm =
     (if \<not> auto_offload E then wasm
      else if \<not> has_jit_cache W then wasm
      else case analyse_offload W wasm of
             Inl _ \<Rightarrow> wasm
           | Inr verdicts \<Rightarrow>
               if \<not> list_ex id verdicts then wasm
               else case rewrite_wasm W (spawn_tenant sc) wasm of
                      Inr (rewritten, n) \<Rightarrow> if n \<noteq> 0 then rewritten else wasm
                    | Inl _ \<Rightarrow> wasm)"

definition spawn_instance ::
    "('c, 'm) runtime \<Rightarrow> engine_config \<Rightarrow> spawn_config \<Rightarrow> bytes \<Rightarrow> boot \<Rightarrow> ('c, 'm) executor
     \<Rightarrow> (('c, 'm) executor \<times> (exec_error, u128) result) option" where
  "spawn_instance W E sc wasm b x =
     (case build_pooled_instance W E sc (maybe_rewrite_for_offload W E sc wasm) b x of
        (x1, Inl e) \<Rightarrow> Some (x1, Err e)
      | (x1, Inr (inst, _)) \<Rightarrow>
          (case register_pooled_instance inst x1 of
             None \<Rightarrow> None
           | Some (x2, Inl e) \<Rightarrow> Some (slot_guard_drop E (spawn_tenant sc) x2, Err e)
           | Some (x2, Inr i) \<Rightarrow> Some (x2, Ok i)))"

definition terminate :: "engine_config \<Rightarrow> u128 \<Rightarrow> ('c, 'm) executor \<Rightarrow> ('c, 'm) executor \<times> (exec_error, unit) result" where
  "terminate E i x =
     (case map_of (instances x) i of
        None \<Rightarrow> (x, Err (InstanceNotFound i))
      | Some inst \<Rightarrow> (slot_guard_drop E (inst_tenant inst) (x\<lparr>instances := AList.delete i (instances x)\<rparr>), Ok ()))"

text \<open>\<open>Drop\<close> of the armed guard around a cancelled call; the tenant was read when the guard was made.\<close>

definition auto_terminate_drop :: "u128 \<Rightarrow> tenant_id option \<Rightarrow> ('c, 'm) executor \<Rightarrow> ('c, 'm) executor" where
  "auto_terminate_drop i tenant_rollback x =
     (case map_of (instances x) i of
        None \<Rightarrow> x
      | Some inst \<Rightarrow>
          let x1 = x\<lparr>instances := AList.delete i (instances x), instance_count := instance_count x - 1\<rparr>
          in case tenant_rollback of
               Some t \<Rightarrow> x1\<lparr>tenant_counts := decrement_tenant_count t (tenant_counts x1)\<rparr>
             | None \<Rightarrow> x1)"

section \<open>Calls\<close>

text \<open>Arming the deadlines for a call that starts at \<open>now\<close>.\<close>

definition arm_call :: "engine_config \<Rightarrow> nat \<Rightarrow> 'm tw_instance \<Rightarrow> 'm tw_instance" where
  "arm_call E now inst =
     (let at = map_option (\<lambda>d. now + d) (effective_call_budget E (deadline_duration inst))
      in inst\<lparr>inst_deadline := at, hard_deadline := at\<rparr>)"

text \<open>The guest: a result, a missing export, or an error, and the clock when it returns.\<close>

datatype 'v guest_outcome = Returned 'v | NoExport string | Failed string

definition call_outcome :: "engine_config \<Rightarrow> u128 \<Rightarrow> nat \<Rightarrow> nat \<Rightarrow> 'm tw_instance \<Rightarrow> 'v guest_outcome \<Rightarrow> (exec_error, 'v) result" where
  "call_outcome E i start stop inst out =
     (case out of
        Returned v \<Rightarrow> Ok v
      | NoExport name \<Rightarrow> Err (MissingExport name)
      | Failed e \<Rightarrow>
          let to_ms = (\<lambda>d. if millis d < 2 ^ 64 then of_nat (millis d) else word_max) :: nat \<Rightarrow> u64
          in case inst_deadline inst of
               Some at \<Rightarrow>
                 if stop \<ge> at
                 then Err (Timeout i (to_ms (stop - start))
                        (case effective_call_budget E (deadline_duration inst) of Some d \<Rightarrow> to_ms d | None \<Rightarrow> 0))
                 else Err (Wasmtime e)
             | None \<Rightarrow> Err (Wasmtime e))"

definition call_export_with_args ::
    "engine_config \<Rightarrow> u128 \<Rightarrow> nat \<Rightarrow> ('m tw_instance \<Rightarrow> 'v guest_outcome \<times> nat) \<Rightarrow> ('c, 'm) executor
     \<Rightarrow> ('c, 'm) executor \<times> (exec_error, 'v) result" where
  "call_export_with_args E i now guest x =
     (case map_of (instances x) i of
        None \<Rightarrow> (x, Err (InstanceNotFound i))
      | Some inst \<Rightarrow>
          let armed = arm_call E now inst;
              (out, stop) = guest armed
          in (x\<lparr>instances := AList.update i (armed\<lparr>guest_calls := Suc (guest_calls armed)\<rparr>) (instances x)\<rparr>,
              call_outcome E i now stop armed out))"

definition call_export_with_args_then_terminate ::
    "engine_config \<Rightarrow> u128 \<Rightarrow> nat \<Rightarrow> ('m tw_instance \<Rightarrow> 'v guest_outcome \<times> nat) \<Rightarrow> ('c, 'm) executor
     \<Rightarrow> ('c, 'm) executor \<times> (exec_error, 'v) result" where
  "call_export_with_args_then_terminate E i now guest x =
     (let (x1, result) = call_export_with_args E i now guest x
      in (fst (terminate E i x1), result))"

section \<open>Accounting\<close>

text \<open>
  The counters hold exactly the charged slots, given as the multiset of their tenants, and those
  are within the caps.
\<close>

definition tenant_count :: "tenant_id \<Rightarrow> (tenant_id \<times> u64) list \<Rightarrow> nat" where
  "tenant_count t counts = (case map_of counts t of Some v \<Rightarrow> unat v | None \<Rightarrow> 0)"

definition within_caps :: "engine_config \<Rightarrow> tenant_id multiset \<Rightarrow> bool" where
  "within_caps E M \<longleftrightarrow> (\<forall>limit. max_instances E = Some limit \<longrightarrow> size M \<le> unat limit)
     \<and> (\<forall>limit t. max_instances_per_tenant E = Some limit \<longrightarrow> count M t \<le> unat limit)"

definition accounts :: "engine_config \<Rightarrow> tenant_id multiset \<Rightarrow> ('c, 'm) executor \<Rightarrow> bool" where
  "accounts E M x \<longleftrightarrow> unat (instance_count x) = size M \<and> within_caps E M
     \<and> (if max_instances_per_tenant E = None then tenant_counts x = [] else \<forall>t. tenant_count t (tenant_counts x) = count M t)"

lemma tenant_count_decrement:
  "tenant_count t' (decrement_tenant_count t counts) = (if t' = t then tenant_count t counts - 1 else tenant_count t' counts)"
proof -
  have one: "unat (saturating_sub v 1) = unat v - 1" for v :: u64
    by (simp add: unat_saturating_sub)
  then have "saturating_sub v 1 = 0 \<longleftrightarrow> unat v - 1 = 0" for v :: u64 by (metis unat_eq_zero)
  with one show ?thesis
    by (auto simp: tenant_count_def decrement_tenant_count_def Let_def update_conv' delete_conv' split: option.splits)
qed

lemma size_diff_single: "t \<in># M \<Longrightarrow> size (M - {#t#}) = size M - 1"
  by (simp add: size_Diff_singleton)

lemma within_caps_mono: "within_caps E M \<Longrightarrow> N \<subseteq># M \<Longrightarrow> within_caps E N"
  unfolding within_caps_def by (meson mset_subset_eq_count order.trans size_mset_mono)

lemma unat_minus_one: "0 < unat (a :: u64) \<Longrightarrow> unat (a - 1) = unat a - 1"
  by (metis One_nat_def Suc_leI unat_1 unat_sub word_le_nat_alt)

lemma unat_plus_one: "unat (a :: u64) + 1 < 2 ^ 64 \<Longrightarrow> unat (a + 1) = unat a + 1"
  using unat_add_nowrap [of a 1] by simp

lemma release_accounts:
  assumes "accounts E M x" and "t \<in># M"
  shows "accounts E (M - {#t#}) (slot_guard_drop E t x)" and "accounts E (M - {#t#}) (release_instance_slot t x)"
proof -
  have "0 < size M" using assms(2) by (auto simp: nonempty_has_size [symmetric])
  then have n: "unat (instance_count x - 1) = size (M - {#t#})"
    using assms unat_minus_one [of "instance_count x"] by (simp add: accounts_def size_diff_single)
  have w: "within_caps E (M - {#t#})" using assms(1) within_caps_mono [of E M] by (simp add: accounts_def)
  have d: "max_instances_per_tenant E \<noteq> None \<Longrightarrow>
      tenant_count t' (decrement_tenant_count t (tenant_counts x)) = count (M - {#t#}) t'" for t'
    using assms(1) by (simp add: accounts_def tenant_count_decrement)
  have e: "max_instances_per_tenant E = None \<Longrightarrow> decrement_tenant_count t (tenant_counts x) = []"
    using assms(1) by (simp add: accounts_def decrement_tenant_count_def)
  show "accounts E (M - {#t#}) (slot_guard_drop E t x)" "accounts E (M - {#t#}) (release_instance_slot t x)"
    using n w d e assms(1) by (auto simp: accounts_def slot_guard_drop_def release_instance_slot_def Let_def)
qed

lemma accounts_irrelevant [simp]:
  "accounts E M (x\<lparr>instances := i\<rparr>) = accounts E M x" "accounts E M (x\<lparr>next_instance_id := n\<rparr>) = accounts E M x"
  "accounts E M (x\<lparr>module_cache := c\<rparr>) = accounts E M x"
  by (simp_all add: accounts_def)

text \<open>A charge is granted within the caps, or refused and leaves the counts as they were.\<close>

lemma charge_tenant_accounts:
  assumes acc: "accounts E M (x\<lparr>instance_count := instance_count x - 1\<rparr>)" and n: "unat (instance_count x) = Suc (size M)"
    and room: "Suc (size M) < 2 ^ 64" "\<forall>limit. max_instances E = Some limit \<longrightarrow> Suc (size M) \<le> unat limit"
    and c: "charge_tenant E t x = (x', r)"
  shows "if r = Ok () then accounts E (add_mset t M) x' else accounts E M x'"
proof (cases "max_instances_per_tenant E")
  case None
  then show ?thesis using assms by (auto simp: charge_tenant_def accounts_def within_caps_def)
next
  case (Some limit)
  define current where "current = (case map_of (tenant_counts x) t of Some v \<Rightarrow> v | None \<Rightarrow> 0)"
  have tc: "tenant_count t' (tenant_counts x) = count M t'" for t' using acc Some by (simp add: accounts_def)
  have cur: "unat current = count M t" using tc [of t] by (simp add: current_def tenant_count_def split: option.splits)
  have "count M t \<le> size M" by (rule count_le_size)
  then have new: "unat (current + 1) = Suc (count M t)" using room(1) cur unat_plus_one [of current] by simp
  have upd: "tenant_count t' (AList.update t v (tenant_counts x)) = (if t' = t then unat v else count M t')" for t' v
    using tc [of t'] by (simp add: tenant_count_def update_conv')
  show ?thesis
  proof (cases "current + 1 > limit")
    case True
    then have "x' = x\<lparr>tenant_counts := AList.update t current (tenant_counts x), instance_count := instance_count x - 1\<rparr>" "r \<noteq> Ok ()"
      using c Some by (auto simp: charge_tenant_def current_def [symmetric] Let_def)
    then show ?thesis using acc Some upd cur by (simp add: accounts_def)
  next
    case False
    then have x': "x' = x\<lparr>tenant_counts := AList.update t (current + 1) (tenant_counts x)\<rparr>" "r = Ok ()"
      using c Some by (auto simp: charge_tenant_def current_def [symmetric] Let_def)
    have "Suc (count M t) \<le> unat limit" using False new by (simp add: word_less_nat_alt not_less)
    then have "within_caps E (add_mset t M)" using acc room(2) Some by (auto simp: accounts_def within_caps_def)
    then show ?thesis using x' n Some upd new by (simp add: accounts_def)
  qed
qed

lemma charge_accounts:
  assumes acc: "accounts E M x" and room: "Suc (size M) < 2 ^ 64" and c: "charge_instance_slot E t x = (x', r)"
  shows "if r = Ok () then accounts E (add_mset t M) x' else accounts E M x'"
proof -
  let ?y = "x\<lparr>instance_count := instance_count x + 1\<rparr>"
  have n: "unat (instance_count ?y) = Suc (size M)" "accounts E M (?y\<lparr>instance_count := instance_count ?y - 1\<rparr>)"
    using acc room unat_plus_one [of "instance_count x"] by (simp_all add: accounts_def)
  show ?thesis
  proof (cases "\<exists>limit. max_instances E = Some limit \<and> instance_count x + 1 > limit")
    case True
    then show ?thesis using acc c by (auto simp: charge_instance_slot_def accounts_def Let_def)
  next
    case False
    then have "charge_tenant E t ?y = (x', r)" using c by (auto simp: charge_instance_slot_def Let_def split: option.splits)
    moreover have "\<forall>limit. max_instances E = Some limit \<longrightarrow> Suc (size M) \<le> unat limit"
      using False n(1) by (auto simp: word_less_nat_alt not_less)
    ultimately show ?thesis using charge_tenant_accounts [OF n(2,1) room] by blast
  qed
qed

lemma charge_frame:
  assumes "charge_instance_slot E t x = (x', r)"
  shows "instances x' = instances x" and "next_instance_id x' = next_instance_id x" and "module_cache x' = module_cache x"
  using assms by (auto simp: charge_instance_slot_def charge_tenant_def Let_def split: option.splits if_splits)

lemma drop_frame [simp]:
  "instances (slot_guard_drop E t x) = instances x" "module_cache (slot_guard_drop E t x) = module_cache x"
  "next_instance_id (slot_guard_drop E t x) = next_instance_id x"
  "instances (release_instance_slot t x) = instances x" "module_cache (release_instance_slot t x) = module_cache x"
  "next_instance_id (release_instance_slot t x) = next_instance_id x"
  by (simp_all add: slot_guard_drop_def release_instance_slot_def Let_def)

section \<open>What the builders make\<close>

text \<open>An instance as it was instantiated for a configuration, before any call.\<close>

definition fresh_for :: "spawn_config \<Rightarrow> 'm \<Rightarrow> 'm tw_instance \<Rightarrow> bool" where
  "fresh_for sc m inst \<longleftrightarrow> inst_tenant inst = spawn_tenant sc \<and> deadline_duration inst = spawn_deadline sc
     \<and> inst_streaming inst = spawn_streaming sc \<and> inst_input inst = spawn_input sc \<and> inst_module inst = m \<and> guest_calls inst = 0"

text \<open>Modules of the cache are compiled from bytes with the digest they are kept under.\<close>

definition compiled_from :: "('c, 'm) runtime \<Rightarrow> bytes \<Rightarrow> 'm \<Rightarrow> bool" where
  "compiled_from W key m \<longleftrightarrow> (\<exists>wasm. digest W wasm = key \<and> from_binary W wasm = Ok m)"

definition cache_sound :: "('c, 'm) runtime \<Rightarrow> ('c \<Rightarrow> bytes \<rightharpoonup> 'm) \<Rightarrow> ('c, 'm) executor \<Rightarrow> bool" where
  "cache_sound W contents x \<longleftrightarrow> (\<forall>k m. contents (module_cache x) k = Some m \<longrightarrow> compiled_from W k m)"

lemma instantiate_fresh: "instantiate_detached W E sc m b = Ok inst \<Longrightarrow> fresh_for sc m inst"
  by (auto simp: instantiate_detached_def fresh_for_def Let_def rbind_Ok_iff split: if_splits option.splits)

lemma compile_frame:
  assumes "compile_module_cached_with_hash W E wasm key x = (x', r)"
  shows "x'\<lparr>module_cache := module_cache x\<rparr> = x"
  using assms by (auto simp: compile_module_cached_with_hash_def compile_uncached_def Let_def split: if_splits prod.splits option.splits sum.splits)

lemma compile_sound:
  assumes W: "runtime_ok W contents" and x: "cache_sound W contents x"
    and c: "compile_module_cached_with_hash W E wasm (digest W wasm) x = (x', r)"
  shows "cache_sound W contents x' \<and> (\<forall>m. r = Ok m \<longrightarrow> compiled_from W (digest W wasm) m)"
proof (cases "length wasm > max_module_bytes E")
  case True
  then show ?thesis using c x by (auto simp: compile_module_cached_with_hash_def)
next
  case False
  obtain c' hit where g: "lru_get W (digest W wasm) (module_cache x) = (c', hit)" by fastforce
  have g': "contents (module_cache x) (digest W wasm) = hit" "contents c' = contents (module_cache x)"
    using W g unfolding runtime_ok_def by (metis snd_conv, metis fst_conv)
  show ?thesis
  proof (cases hit)
    case (Some m)
    then have "x' = x\<lparr>module_cache := c'\<rparr>" "r = Ok m"
      using c False g by (auto simp: compile_module_cached_with_hash_def)
    then show ?thesis using x g' Some by (auto simp: cache_sound_def)
  next
    case None
    then have u: "compile_uncached W wasm (digest W wasm) (x\<lparr>module_cache := c'\<rparr>) = (x', r)"
      using c False g by (simp add: compile_module_cached_with_hash_def)
    show ?thesis
    proof (cases "from_binary W wasm")
      case (Inl e)
      then show ?thesis using u x g' by (auto simp: compile_uncached_def cache_sound_def)
    next
      case (Inr m)
      then have x': "x' = x\<lparr>module_cache := lru_put W (digest W wasm) m c'\<rparr>" "r = Ok m"
        using u by (auto simp: compile_uncached_def)
      have m: "compiled_from W (digest W wasm) m" using Inr by (auto simp: compiled_from_def)
      have "contents (lru_put W (digest W wasm) m c') \<subseteq>\<^sub>m (contents c')(digest W wasm \<mapsto> m)"
        using W by (simp add: runtime_ok_def)
      then have "contents (lru_put W (digest W wasm) m c') k = Some m' \<Longrightarrow> ((contents c')(digest W wasm \<mapsto> m)) k = Some m'" for k m'
        by (metis domI map_le_def)
      note put = this
      have "k = digest W wasm \<and> m' = m \<or> contents (module_cache x) k = Some m'" if "contents (module_cache x') k = Some m'" for k m'
        using put [of k m'] that x'(1) g'(2) by (cases "k = digest W wasm") simp_all
      then have "cache_sound W contents x'" using x m unfolding cache_sound_def by blast
      then show ?thesis using x'(2) m by simp
    qed
  qed
qed

lemma rebuild_result:
  assumes "rebuild_pooled_from_module W E sc m b x = (x', r)" and "accounts E M x" and "Suc (size M) < 2 ^ 64"
  shows "instances x' = instances x" and "module_cache x' = module_cache x"
    and "case r of Inl e \<Rightarrow> accounts E M x' | Inr inst \<Rightarrow> accounts E (add_mset (spawn_tenant sc) M) x' \<and> fresh_for sc m inst"
proof -
  obtain x1 c where c: "charge_instance_slot E (spawn_tenant sc) x = (x1, c)" by fastforce
  note f = charge_frame [OF c] and a = charge_accounts [OF assms(2,3) c]
  show "instances x' = instances x" "module_cache x' = module_cache x"
    using assms(1) c f by (auto simp: rebuild_pooled_from_module_def split: sum.splits)
  show "case r of Inl e \<Rightarrow> accounts E M x' | Inr inst \<Rightarrow> accounts E (add_mset (spawn_tenant sc) M) x' \<and> fresh_for sc m inst"
  proof (cases c)
    case (Inl e)
    then show ?thesis using assms(1) c a by (auto simp: rebuild_pooled_from_module_def)
  next
    case (Inr u)
    then have a: "accounts E (add_mset (spawn_tenant sc) M) x1" using a by simp
    show ?thesis
      using assms(1) c Inr a release_accounts(1) [OF a, of "spawn_tenant sc"] instantiate_fresh [of W E sc m b]
      by (auto simp: rebuild_pooled_from_module_def split: sum.splits)
  qed
qed

lemma build_result:
  assumes "build_pooled_instance_with_hash W E sc wasm (digest W wasm) b x = (x', r)" and "accounts E M x" and "Suc (size M) < 2 ^ 64"
    and "runtime_ok W contents" and "cache_sound W contents x"
  shows "instances x' = instances x" and "cache_sound W contents x'"
    and "case r of Inl e \<Rightarrow> accounts E M x'
         | Inr (inst, m) \<Rightarrow> accounts E (add_mset (spawn_tenant sc) M) x' \<and> fresh_for sc m inst \<and> compiled_from W (digest W wasm) m"
proof -
  let ?t = "spawn_tenant sc" and ?goal = "\<lambda>x' r. instances x' = instances x \<and> cache_sound W contents x' \<and>
      (case r of Inl e \<Rightarrow> accounts E M x'
       | Inr (inst, m) \<Rightarrow> accounts E (add_mset (spawn_tenant sc) M) x' \<and> fresh_for sc m inst \<and> compiled_from W (digest W wasm) m)"
  obtain x1 c where c: "charge_instance_slot E ?t x = (x1, c)" by fastforce
  note f = charge_frame [OF c] and a = charge_accounts [OF assms(2,3) c]
  have s1: "cache_sound W contents x1" using assms(5) f(3) by (simp add: cache_sound_def)
  obtain x2 d where d: "compile_module_cached_with_hash W E wasm (digest W wasm) x1 = (x2, d)" by fastforce
  note fr = compile_frame [OF d] and so = compile_sound [OF assms(4) s1 d]
  have i2: "instances x2 = instances x" using arg_cong [OF fr, of instances] f(1) by simp
  have "?goal x' r"
  proof (cases "check_raw_module_memory_within_cap W wasm (effective_memory_cap E)")
    case (Inl e)
    then show ?thesis using assms(1,2,5) by (auto simp: build_pooled_instance_with_hash_def)
  next
    case chk: (Inr u)
    show ?thesis
    proof (cases c)
      case (Inl e)
      then show ?thesis using assms(1) chk c a s1 f(1) by (auto simp: build_pooled_instance_with_hash_def)
    next
      case ch: (Inr u)
      have "accounts E (add_mset ?t M) x1" using a ch by simp
      then have a2: "accounts E (add_mset ?t M) x2" using arg_cong [OF fr, of "accounts E (add_mset ?t M)"] by simp
      note dr = release_accounts(1) [OF a2, of ?t]
      have sd: "cache_sound W contents (slot_guard_drop E ?t x2)" using so by (simp add: cache_sound_def)
      show ?thesis
      proof (cases d)
        case (Inl e)
        then show ?thesis using assms(1) chk c ch d dr i2 sd by (auto simp: build_pooled_instance_with_hash_def)
      next
        case co: (Inr m)
        show ?thesis
          using assms(1) chk c ch d co dr i2 sd so a2 instantiate_fresh [of W E sc m b]
          by (cases "instantiate_detached W E sc m b") (auto simp: build_pooled_instance_with_hash_def)
      qed
    qed
  qed
  then show "instances x' = instances x" and "cache_sound W contents x'"
    and "case r of Inl e \<Rightarrow> accounts E M x'
         | Inr (inst, m) \<Rightarrow> accounts E (add_mset (spawn_tenant sc) M) x' \<and> fresh_for sc m inst \<and> compiled_from W (digest W wasm) m"
    by blast+
qed

section \<open>Registration\<close>

text \<open>With fewer instances than ids the loop finds a vacant one.\<close>

lemma allocate_finds:
  assumes "map_of (instances x) (ucast (next_instance_id x + of_nat n) :: u128) = None"
  shows "\<exists>k raw. k \<le> n \<and> raw = next_instance_id x + of_nat k \<and> map_of (instances x) (ucast raw :: u128) = None
    \<and> allocate_instance_id x = Some (x\<lparr>next_instance_id := raw + 1\<rparr>, ucast raw)"
  using assms
proof (induction n arbitrary: x)
  case 0
  then show ?case by (subst allocate_instance_id.simps) (simp add: Let_def)
next
  case (Suc n)
  show ?case
  proof (cases "map_of (instances x) (ucast (next_instance_id x) :: u128) = None")
    case True
    then show ?thesis by (subst allocate_instance_id.simps) (auto simp: Let_def)
  next
    case False
    let ?x = "x\<lparr>next_instance_id := next_instance_id x + 1\<rparr>"
    have "map_of (instances ?x) (ucast (next_instance_id ?x + of_nat n) :: u128) = None" using Suc.prems by (simp add: algebra_simps)
    from Suc.IH [OF this] obtain k raw where k: "k \<le> n" "raw = next_instance_id x + of_nat (Suc k)"
      "map_of (instances x) (ucast raw :: u128) = None"
      "allocate_instance_id ?x = Some (x\<lparr>next_instance_id := raw + 1\<rparr>, ucast raw)" by (auto simp: algebra_simps)
    then show ?thesis using False by (subst allocate_instance_id.simps) (intro exI [of _ "Suc k"], auto simp: Let_def)
  qed
qed

lemma allocate_returns:
  assumes "length (instances x) < 2 ^ 64"
  obtains raw where "map_of (instances x) (ucast (raw :: u64) :: u128) = None"
    "allocate_instance_id x = Some (x\<lparr>next_instance_id := raw + 1\<rparr>, ucast raw)"
proof -
  have inj: "inj (ucast :: u64 \<Rightarrow> u128)" by (metis injI unat_u64_as_u128 word_unat_eq_iff)
  have "card (range (ucast :: u64 \<Rightarrow> u128)) = 2 ^ 64" using card_image [OF inj] by (simp add: card_word)
  moreover have "card (fst ` set (instances x)) \<le> length (instances x)"
    using card_image_le [of "set (instances x)" fst] card_length [of "instances x"] by (meson finite_set order.trans)
  ultimately have "\<not> range (ucast :: u64 \<Rightarrow> u128) \<subseteq> fst ` set (instances x)"
    using assms card_mono [of "fst ` set (instances x)" "range (ucast :: u64 \<Rightarrow> u128)"] by auto
  then obtain raw :: u64 where "(ucast raw :: u128) \<notin> fst ` set (instances x)" by blast
  then have "map_of (instances x) (ucast (next_instance_id x + of_nat (unat (raw - next_instance_id x))) :: u128) = None"
    by (simp add: map_of_eq_None_iff of_nat_unat)
  from allocate_finds [OF this] show thesis using that by blast
qed

lemma update_absent: "map_of xs k = None \<Longrightarrow> AList.update k v xs = xs @ [(k, v)]"
  by (induction xs) (auto split: if_splits)

lemma register_result:
  assumes "length (instances x) < 2 ^ 64"
  obtains i n where "map_of (instances x) i = None"
    "register_pooled_instance inst x = Some (x\<lparr>next_instance_id := n, instances := instances x @ [(i, inst\<lparr>inst_id := i\<rparr>)]\<rparr>, Ok i)"
proof -
  from allocate_returns [OF assms] obtain raw where a: "map_of (instances x) (ucast (raw :: u64) :: u128) = None"
    "allocate_instance_id x = Some (x\<lparr>next_instance_id := raw + 1\<rparr>, ucast raw)" .
  then show thesis using that by (simp add: register_pooled_instance_def update_absent)
qed

end
