(* ===== verification/Instance_Pool.thy ===== *)
theory Instance_Pool
  imports Exec_Executor
begin

text \<open>
  The pool of pre-instantiated instances, \<^verbatim>\<open>crates/tensor-wasm-exec/src/instance_pool.rs\<close>, and
  \<open>invoke\<close> of the executor on top of it. A bounded channel is a list and its capacity. Each call
  gets the outcomes of the instantiations it makes; \<open>None\<close> as a result means that the search for
  an instance id does not end.
\<close>

section \<open>Model\<close>

definition POOL_RESET_DEADLINE :: nat where
  "POOL_RESET_DEADLINE = 10 * 10 ^ 6"

record instance_pool_config =
  warm_instances_per_tuple :: nat
  max_total_warm :: u64

type_synonym pool_key = "tenant_id \<times> bytes"

record 'm pool_entry =
  channel :: "'m tw_instance list"
  entry_module :: 'm
  entry_capacity :: nat

record 'm instance_pool =
  pool_cfg :: instance_pool_config
  pools :: "(pool_key \<times> 'm pool_entry) list"
  warm_total :: u64
  draws_total :: u64
  hit_count :: u64
  miss_count :: u64
  drops_total :: u64

record pooled_instance =
  pooled_id :: u128
  origin :: "bytes option"

definition instance_pool_new :: "instance_pool_config \<Rightarrow> 'm instance_pool" where
  "instance_pool_new cfg =
     \<lparr>pool_cfg = cfg, pools = [], warm_total = 0, draws_total = 0, hit_count = 0, miss_count = 0, drops_total = 0\<rparr>"

definition channel_capacity :: "instance_pool_config \<Rightarrow> nat" where
  "channel_capacity cfg = max (warm_instances_per_tuple cfg) 1"

definition at_warm_cap :: "'m instance_pool \<Rightarrow> bool" where
  "at_warm_cap p \<longleftrightarrow> max_total_warm (pool_cfg p) > 0 \<and> warm_total p \<ge> max_total_warm (pool_cfg p)"

text \<open>
  The pre-spawn loop from index \<open>i\<close> with \<open>n\<close> rounds to go: the channel being filled, the module once
  it is known, and the error that ends the build early.
\<close>

fun prewarm ::
    "('c, 'm) runtime \<Rightarrow> engine_config \<Rightarrow> spawn_config \<Rightarrow> bytes \<Rightarrow> bytes \<Rightarrow> (nat \<Rightarrow> boot) \<Rightarrow> nat \<Rightarrow> nat
     \<Rightarrow> nat \<Rightarrow> 'm tw_instance list \<Rightarrow> 'm option \<Rightarrow> ('c, 'm) executor \<Rightarrow> 'm instance_pool
     \<Rightarrow> ('c, 'm) executor \<times> 'm instance_pool \<times> (exec_error, 'm tw_instance list \<times> 'm option) result" where
  "prewarm W E sc wasm key boots cap i 0 chan module_opt x p = (x, p, Ok (chan, module_opt))"
| "prewarm W E sc wasm key boots cap i (Suc n) chan module_opt x p =
     (if at_warm_cap p then (x, p, Ok (chan, module_opt))
      else
        let (x1, built) =
              (case module_opt of
                 None \<Rightarrow> build_pooled_instance_with_hash W E sc wasm key (boots i) x
               | Some m \<Rightarrow>
                   (case rebuild_pooled_from_module W E sc m (boots i) x of
                      (x1, Inl e) \<Rightarrow> (x1, Err e)
                    | (x1, Inr inst) \<Rightarrow> (x1, Ok (inst, m))))
        in case built of
             Inl e \<Rightarrow> (x1, p, Err e)
           | Inr (inst, m) \<Rightarrow>
               if length chan < cap
               then prewarm W E sc wasm key boots cap (Suc i) n (chan @ [inst]) (Some m) x1 (p\<lparr>warm_total := warm_total p + 1\<rparr>)
               else prewarm W E sc wasm key boots cap (Suc i) n chan (Some m) (release_instance_slot (spawn_tenant sc) x1) p)"

text \<open>The module of the new entry: the one the loop captured, or else one built for it alone.\<close>

definition capture_module ::
    "('c, 'm) runtime \<Rightarrow> engine_config \<Rightarrow> spawn_config \<Rightarrow> bytes \<Rightarrow> bytes \<Rightarrow> boot \<Rightarrow> 'm option \<Rightarrow> ('c, 'm) executor
     \<Rightarrow> ('c, 'm) executor \<times> (exec_error, 'm) result" where
  "capture_module W E sc wasm key b module_opt x =
     (case module_opt of
        Some m \<Rightarrow> (x, Ok m)
      | None \<Rightarrow>
          (case build_pooled_instance_with_hash W E sc wasm key b x of
             (x1, Inl e) \<Rightarrow> (x1, Err e)
           | (x1, Inr (inst, m)) \<Rightarrow> (release_instance_slot (spawn_tenant sc) x1, Ok m)))"

definition build_entry ::
    "('c, 'm) runtime \<Rightarrow> engine_config \<Rightarrow> spawn_config \<Rightarrow> bytes \<Rightarrow> bytes \<Rightarrow> (nat \<Rightarrow> boot) \<Rightarrow> ('c, 'm) executor \<Rightarrow> 'm instance_pool
     \<Rightarrow> ('c, 'm) executor \<times> 'm instance_pool \<times> (exec_error, unit) result" where
  "build_entry W E sc wasm key boots x p =
     (let warm_n = warm_instances_per_tuple (pool_cfg p);
          cap = channel_capacity (pool_cfg p)
      in case prewarm W E sc wasm key boots cap 0 warm_n [] None x p of
           (x1, p1, Inl e) \<Rightarrow> (x1, p1, Err e)
         | (x1, p1, Inr (chan, module_opt)) \<Rightarrow>
             (case capture_module W E sc wasm key (boots warm_n) module_opt x1 of
                (x2, Inl e) \<Rightarrow> (x2, p1, Err e)
              | (x2, Inr m) \<Rightarrow>
                  (x2, p1\<lparr>pools := AList.update (spawn_tenant sc, key) \<lparr>channel = chan, entry_module = m, entry_capacity = cap\<rparr> (pools p1)\<rparr>,
                   Ok ())))"

text \<open>The single-flight cell has no state when the call is run alone.\<close>

definition ensure_entry ::
    "('c, 'm) runtime \<Rightarrow> engine_config \<Rightarrow> spawn_config \<Rightarrow> bytes \<Rightarrow> bytes \<Rightarrow> (nat \<Rightarrow> boot) \<Rightarrow> ('c, 'm) executor \<Rightarrow> 'm instance_pool
     \<Rightarrow> ('c, 'm) executor \<times> 'm instance_pool \<times> (exec_error, unit) result" where
  "ensure_entry W E sc wasm key boots x p =
     (case map_of (pools p) (spawn_tenant sc, key) of
        Some _ \<Rightarrow> (x, p, Ok ())
      | None \<Rightarrow> build_entry W E sc wasm key boots x p)"

text \<open>The miss: a fresh spawn, its handle stamped with \<open>o'\<close>.\<close>

definition fall_through ::
    "('c, 'm) runtime \<Rightarrow> engine_config \<Rightarrow> spawn_config \<Rightarrow> bytes \<Rightarrow> boot \<Rightarrow> bytes option \<Rightarrow> ('c, 'm) executor \<Rightarrow> 'm instance_pool
     \<Rightarrow> (('c, 'm) executor \<times> 'm instance_pool \<times> (exec_error, pooled_instance) result) option" where
  "fall_through W E sc wasm b o' x p =
     (let p1 = p\<lparr>miss_count := miss_count p + 1\<rparr>
      in case spawn_instance W E sc wasm b x of
           None \<Rightarrow> None
         | Some (x1, Inl e) \<Rightarrow> Some (x1, p1, Err e)
         | Some (x1, Inr i) \<Rightarrow> Some (x1, p1, Ok \<lparr>pooled_id = i, origin = o'\<rparr>))"

definition acquire ::
    "('c, 'm) runtime \<Rightarrow> engine_config \<Rightarrow> spawn_config \<Rightarrow> bytes \<Rightarrow> (nat \<Rightarrow> boot) \<Rightarrow> boot \<Rightarrow> ('c, 'm) executor \<Rightarrow> 'm instance_pool
     \<Rightarrow> (('c, 'm) executor \<times> 'm instance_pool \<times> (exec_error, pooled_instance) result) option" where
  "acquire W E sc wasm boots b x p =
     (let p1 = p\<lparr>draws_total := draws_total p + 1\<rparr>
      in if spawn_streaming sc \<noteq> None then fall_through W E sc wasm b None x p1
         else if spawn_input sc \<noteq> [] then fall_through W E sc wasm b None x p1
         else
           let module_hash = digest W wasm
           in case ensure_entry W E sc wasm module_hash boots x p1 of
                (x1, p2, Inl e) \<Rightarrow> Some (x1, p2, Err e)
              | (x1, p2, Inr _) \<Rightarrow>
                  (case map_of (pools p2) (spawn_tenant sc, module_hash) of
                     None \<Rightarrow> fall_through W E sc wasm b (Some module_hash) x1 p2
                   | Some entry \<Rightarrow>
                       (case channel entry of
                          [] \<Rightarrow> fall_through W E sc wasm b (Some module_hash) x1 p2
                        | inst # rest \<Rightarrow>
                            let p3 = p2\<lparr>pools := AList.update (spawn_tenant sc, module_hash) (entry\<lparr>channel := rest\<rparr>) (pools p2),
                                        warm_total := warm_total p2 - 1, hit_count := hit_count p2 + 1\<rparr>
                            in case register_pooled_instance inst x1 of
                                 None \<Rightarrow> None
                               | Some (x2, Inl e) \<Rightarrow> Some (x2, p3, Err e)
                               | Some (x2, Inr i) \<Rightarrow> Some (x2, p3, Ok \<lparr>pooled_id = i, origin = Some module_hash\<rparr>))))"

definition count_drop :: "'m instance_pool \<Rightarrow> 'm instance_pool" where
  "count_drop p = p\<lparr>drops_total := drops_total p + 1\<rparr>"

text \<open>\<open>shared\<close> tells whether a call still holds the instance; \<open>elapsed\<close> is the time the rebuild took.\<close>

definition release ::
    "('c, 'm) runtime \<Rightarrow> engine_config \<Rightarrow> spawn_config \<Rightarrow> bool \<Rightarrow> boot \<Rightarrow> nat \<Rightarrow> pooled_instance \<Rightarrow> ('c, 'm) executor \<Rightarrow> 'm instance_pool
     \<Rightarrow> ('c, 'm) executor \<times> 'm instance_pool" where
  "release W E sc shared b elapsed pooled x p =
     (case detach_pooled_instance E shared (pooled_id pooled) x of
        (x1, None) \<Rightarrow> (x1, p)
      | (x1, Some spent) \<Rightarrow>
          let x2 = release_instance_slot (spawn_tenant sc) x1
          in case (spawn_streaming sc, origin pooled) of
               (None, Some module_hash) \<Rightarrow>
                 (case map_of (pools p) (spawn_tenant sc, module_hash) of
                    None \<Rightarrow> (x2, count_drop p)
                  | Some entry \<Rightarrow>
                      if at_warm_cap p then (x2, count_drop p)
                      else
                        (case rebuild_pooled_from_module W E sc (entry_module entry) b x2 of
                           (x3, Inl e) \<Rightarrow> (x3, count_drop p)
                         | (x3, Inr replacement) \<Rightarrow>
                             if elapsed > POOL_RESET_DEADLINE \<or> length (channel entry) \<ge> entry_capacity entry
                             then (release_instance_slot (spawn_tenant sc) x3, count_drop p)
                             else (x3, p\<lparr>pools := AList.update (spawn_tenant sc, module_hash)
                                           (entry\<lparr>channel := channel entry @ [replacement]\<rparr>) (pools p),
                                         warm_total := warm_total p + 1\<rparr>)))
             | _ \<Rightarrow> (x2, count_drop p))"

text \<open>Draining one channel, and all of them.\<close>

fun drain :: "tenant_id \<Rightarrow> 'm tw_instance list \<Rightarrow> ('c, 'm) executor \<Rightarrow> 'm instance_pool \<Rightarrow> ('c, 'm) executor \<times> 'm instance_pool" where
  "drain t [] x p = (x, p)"
| "drain t (_ # rest) x p =
     drain t rest (release_instance_slot t x) (count_drop (p\<lparr>warm_total := warm_total p - 1\<rparr>))"

fun shutdown_entries ::
    "(pool_key \<times> 'm pool_entry) list \<Rightarrow> ('c, 'm) executor \<Rightarrow> 'm instance_pool \<Rightarrow> ('c, 'm) executor \<times> 'm instance_pool" where
  "shutdown_entries [] x p = (x, p)"
| "shutdown_entries ((k, entry) # es) x p =
     (let (x1, p1) = drain (fst k) (channel entry) x p
      in shutdown_entries es x1 (p1\<lparr>pools := AList.update k (entry\<lparr>channel := []\<rparr>) (pools p1)\<rparr>))"

definition shutdown :: "('c, 'm) executor \<Rightarrow> 'm instance_pool \<Rightarrow> ('c, 'm) executor \<times> 'm instance_pool" where
  "shutdown x p = shutdown_entries (pools p) x p"

text \<open>\<open>invoke\<close> with a pool attached, and without.\<close>

definition invoke ::
    "('c, 'm) runtime \<Rightarrow> engine_config \<Rightarrow> spawn_config \<Rightarrow> bytes \<Rightarrow> (nat \<Rightarrow> boot) \<Rightarrow> boot \<Rightarrow> boot \<Rightarrow> nat \<Rightarrow> nat
     \<Rightarrow> ('m tw_instance \<Rightarrow> 'v guest_outcome \<times> nat) \<Rightarrow> ('c, 'm) executor \<Rightarrow> 'm instance_pool option
     \<Rightarrow> (('c, 'm) executor \<times> 'm instance_pool option \<times> (exec_error, 'v) result) option" where
  "invoke W E sc wasm boots b b' elapsed now guest x pool =
     (case pool of
        Some p \<Rightarrow>
          (case acquire W E sc wasm boots b x p of
             None \<Rightarrow> None
           | Some (x1, p1, Inl e) \<Rightarrow> Some (x1, Some p1, Err e)
           | Some (x1, p1, Inr pooled) \<Rightarrow>
               let (x2, result) = call_export_with_args E (pooled_id pooled) now guest x1;
                   (x3, p3) = release W E sc False b' elapsed pooled x2 p1
               in Some (x3, Some p3, result))
      | None \<Rightarrow>
          (case spawn_instance W E sc wasm b x of
             None \<Rightarrow> None
           | Some (x1, Inl e) \<Rightarrow> Some (x1, None, Err e)
           | Some (x1, Inr i) \<Rightarrow>
               let (x2, result) = call_export_with_args_then_terminate E i now guest x1 in Some (x2, None, result)))"

section \<open>Invariant\<close>

text \<open>The tenants of the registered instances, and of those in the channels.\<close>

definition registered :: "('c, 'm) executor \<Rightarrow> tenant_id multiset" where
  "registered x = image_mset (inst_tenant \<circ> snd) (mset (instances x))"

definition warm :: "(pool_key \<times> 'm pool_entry) list \<Rightarrow> tenant_id multiset" where
  "warm ps = mset (concat (map (\<lambda>(k, entry). replicate (length (channel entry)) (fst k)) ps))"

definition pool_entry_ok :: "('c, 'm) runtime \<Rightarrow> pool_key \<Rightarrow> 'm pool_entry \<Rightarrow> bool" where
  "pool_entry_ok W k entry \<longleftrightarrow> compiled_from W (snd k) (entry_module entry)
     \<and> (\<forall>inst \<in> set (channel entry). inst_tenant inst = fst k \<and> inst_streaming inst = None \<and> inst_input inst = []
          \<and> inst_module inst = entry_module entry \<and> guest_calls inst = 0)"

definition pool_inv ::
    "('c, 'm) runtime \<Rightarrow> ('c \<Rightarrow> bytes \<rightharpoonup> 'm) \<Rightarrow> engine_config \<Rightarrow> tenant_id multiset \<Rightarrow> ('c, 'm) executor \<Rightarrow> 'm instance_pool \<Rightarrow> bool" where
  "pool_inv W contents E lost x p \<longleftrightarrow> cache_sound W contents x
     \<and> distinct (map fst (instances x)) \<and> distinct (map fst (pools p))
     \<and> (\<forall>(k, entry) \<in> set (pools p). pool_entry_ok W k entry)
     \<and> accounts E (registered x + warm (pools p) + lost) x \<and> unat (warm_total p) = size (warm (pools p) + lost)"

lemma warm_Cons: "warm ((k, entry) # ps) = replicate_mset (length (channel entry)) (fst k) + warm ps"
  by (simp add: warm_def)

lemma warm_Nil [simp]: "warm [] = {#}"
  by (simp add: warm_def)

lemma warm_append: "warm (ps @ qs) = warm ps + warm qs"
  by (simp add: warm_def)

text \<open>Changing the channel of one entry changes its share alone.\<close>

lemma warm_update:
  assumes "map_of ps k = Some entry"
  shows "warm (AList.update k entry' ps) + replicate_mset (length (channel entry)) (fst k)
    = warm ps + replicate_mset (length (channel entry')) (fst k)"
  using assms by (induction ps) (auto simp: warm_Cons split: if_splits)

lemma delete_absent: "i \<notin> fst ` set xs \<Longrightarrow> AList.delete i xs = xs"
  by (induction xs) (auto simp: AList.delete_eq)

lemma registered_delete:
  assumes "distinct (map fst is)" and "map_of is i = Some inst"
  shows "image_mset (inst_tenant \<circ> snd) (mset is) = add_mset (inst_tenant inst) (image_mset (inst_tenant \<circ> snd) (mset (AList.delete i is)))"
  using assms
proof (induction "is")
  case (Cons a "is")
  show ?case
  proof (cases "fst a = i")
    case True
    then have "AList.delete i is = is" using Cons.prems(1) delete_absent [of i "is"] by simp
    then show ?thesis using Cons.prems(2) True by (cases a) auto
  next
    case False
    then show ?thesis using Cons by (cases a) auto
  qed
qed simp

section \<open>Pre-warming\<close>

lemma prewarm_result:
  assumes W: "runtime_ok W contents" and key: "key = digest W wasm"
    and "prewarm W E sc wasm key boots cap i n chan mo x p = (x', p', r)"
    and "accounts E (M + replicate_mset (length chan) (spawn_tenant sc)) x" and "cache_sound W contents x"
    and "size M + length chan + n + 1 < 2 ^ 64" and "unat (warm_total p) + n < 2 ^ 64"
    and "\<forall>m. mo = Some m \<longrightarrow> compiled_from W key m" and "\<forall>inst \<in> set chan. \<exists>m. mo = Some m \<and> fresh_for sc m inst"
  shows "instances x' = instances x \<and> cache_sound W contents x' \<and> pools p' = pools p \<and> pool_cfg p' = pool_cfg p \<and>
    (\<exists>k. accounts E (M + replicate_mset (length chan + k) (spawn_tenant sc)) x' \<and> k \<le> n
       \<and> unat (warm_total p') = unat (warm_total p) + k
       \<and> (\<forall>chan' mo'. r = Ok (chan', mo') \<longrightarrow> length chan' = length chan + k \<and> (\<forall>m. mo' = Some m \<longrightarrow> compiled_from W key m)
            \<and> (\<forall>inst \<in> set chan'. \<exists>m. mo' = Some m \<and> fresh_for sc m inst)))"
  using assms(3-)
proof (induction n arbitrary: i chan mo x p)
  case 0
  then show ?case by auto
next
  case (Suc n)
  let ?t = "spawn_tenant sc"
  show ?case
  proof (cases "at_warm_cap p")
    case True
    then show ?thesis using Suc.prems by (auto intro!: exI [of _ 0])
  next
    case False
    define built where "built = (case mo of
        None \<Rightarrow> build_pooled_instance_with_hash W E sc wasm key (boots i) x
      | Some m \<Rightarrow> (case rebuild_pooled_from_module W E sc m (boots i) x of
                    (x1, Inl e) \<Rightarrow> (x1, Err e) | (x1, Inr inst) \<Rightarrow> (x1, Ok (inst, m))))"
    obtain x1 br where b: "built = (x1, br)" by fastforce
    let ?M = "M + replicate_mset (length chan) ?t"
    have room: "Suc (size ?M) < 2 ^ 64" using Suc.prems(4) by simp
    have one: "instances x1 = instances x \<and> cache_sound W contents x1
      \<and> (case br of Inl e \<Rightarrow> accounts E ?M x1
          | Inr (inst, m) \<Rightarrow> accounts E (add_mset ?t ?M) x1 \<and> fresh_for sc m inst \<and> compiled_from W key m \<and> (\<forall>m'. mo = Some m' \<longrightarrow> m' = m))"
    proof (cases mo)
      case None
      then have bu: "build_pooled_instance_with_hash W E sc wasm (digest W wasm) (boots i) x = (x1, br)"
        using b key by (simp add: built_def)
      note r = build_result [OF bu Suc.prems(2) room W Suc.prems(3)]
      then show ?thesis using None key by (auto split: sum.splits)
    next
      case (Some m)
      obtain x2 rr where re: "rebuild_pooled_from_module W E sc m (boots i) x = (x2, rr)" by fastforce
      note r = rebuild_result [OF re Suc.prems(2) room]
      have "x2 = x1" "br = (case rr of Inl e \<Rightarrow> Err e | Inr inst \<Rightarrow> Ok (inst, m))"
        using b re Some by (auto simp: built_def split: sum.splits)
      then show ?thesis using r Some Suc.prems(3,6) by (auto simp: cache_sound_def split: sum.splits)
    qed
    show ?thesis
    proof (cases br)
      case (Inl e)
      then show ?thesis using Suc.prems(1,2) False one b
        by (auto simp: built_def [symmetric] intro!: exI [of _ 0])
    next
      case (Inr im)
      then obtain inst m where im: "br = Ok (inst, m)" by (cases im) auto
      note one' = one [unfolded im, simplified]
      have mo: "\<forall>m'. Some m = Some m' \<longrightarrow> compiled_from W key m'" using one' by simp
      have same: "\<forall>c \<in> set chan. fresh_for sc m c" using Suc.prems(7) one' by auto
      show ?thesis
      proof (cases "length chan < cap")
        case True
        let ?p = "p\<lparr>warm_total := warm_total p + 1\<rparr>"
        have wt: "unat (warm_total ?p) = unat (warm_total p) + 1" using Suc.prems(5) unat_plus_one [of "warm_total p"] by simp
        have step: "prewarm W E sc wasm key boots cap (Suc i) n (chan @ [inst]) (Some m) x1 ?p = (x', p', r)"
          using Suc.prems(1) False True b im by (simp add: built_def [symmetric])
        have acc: "accounts E (M + replicate_mset (length (chan @ [inst])) ?t) x1" using one' by simp
        have fr: "\<forall>c \<in> set (chan @ [inst]). \<exists>m'. Some m = Some m' \<and> fresh_for sc m' c" using same one' by simp
        from Suc.IH [OF step acc _ _ _ mo fr] obtain k where k: "instances x' = instances x1 \<and> cache_sound W contents x' \<and> pools p' = pools p \<and> pool_cfg p' = pool_cfg p"
          "accounts E (M + replicate_mset (Suc (length chan + k)) ?t) x'" "k \<le> n" "unat (warm_total p') = unat (warm_total ?p) + k"
          "\<forall>chan' mo'. r = Ok (chan', mo') \<longrightarrow> length chan' = Suc (length chan + k) \<and> (\<forall>m. mo' = Some m \<longrightarrow> compiled_from W key m)
            \<and> (\<forall>inst \<in> set chan'. \<exists>m. mo' = Some m \<and> fresh_for sc m inst)"
          using one' Suc.prems(4,5) wt by auto
        then show ?thesis using one' wt by (auto intro!: exI [of _ "Suc k"])
      next
        case full: False
        let ?x = "release_instance_slot ?t x1"
        have step: "prewarm W E sc wasm key boots cap (Suc i) n chan (Some m) ?x p = (x', p', r)"
          using Suc.prems(1) False full b im by (simp add: built_def [symmetric])
        have acc: "accounts E ?M ?x" using release_accounts(2) [of E "add_mset ?t ?M" x1 ?t] one' by simp
        have cs: "cache_sound W contents ?x" using one' by (simp add: cache_sound_def)
        have fr: "\<forall>c \<in> set chan. \<exists>m'. Some m = Some m' \<and> fresh_for sc m' c" using same by simp
        from Suc.IH [OF step acc cs _ _ mo fr] Suc.prems(4,5) show ?thesis using one' by (auto intro: le_SucI)
      qed
    qed
  qed
qed

end
