(* ===== verification/Pool_Safety.thy ===== *)
theory Pool_Safety
  imports Instance_Pool
begin

text \<open>
  Histories of an executor and its pool, and what holds along them: the counters and the channels
  account for every slot, and an instance that is handed out is a fresh one of the caller's tenant
  and module. Each operation is one step; a handle goes back with the configuration it was drawn
  with, as \<open>invoke\<close> does. The bound on the counters keeps them below \<open>2\<^sup>6\<^sup>4\<close>.
\<close>

section \<open>Histories\<close>

text \<open>
  \<open>H\<close> holds the handles in use with their configurations. \<open>L\<close> holds the tenants of the slots lost by
  pre-warm loops that ended in an error: those instances were counted as warm and are in no channel.
\<close>

definition leaked :: "spawn_config \<Rightarrow> 'm instance_pool \<Rightarrow> 'm instance_pool \<Rightarrow> tenant_id multiset" where
  "leaked sc p p' = replicate_mset (unat (warm_total p') - unat (warm_total p)) (spawn_tenant sc)"

definition has_room :: "('c, 'm) executor \<Rightarrow> 'm instance_pool \<Rightarrow> bool" where
  "has_room x p \<longleftrightarrow> unat (instance_count x) + warm_instances_per_tuple (pool_cfg p) + 2 < 2 ^ 64
     \<and> unat (next_instance_id x) + 1 < 2 ^ 64"

definition guard_tenant :: "engine_config \<Rightarrow> u128 \<Rightarrow> ('c, 'm) executor \<Rightarrow> tenant_id option" where
  "guard_tenant E i x =
     (if max_instances_per_tenant E \<noteq> None then map_option inst_tenant (map_of (instances x) i) else None)"

inductive pool_history ::
    "('c, 'm) runtime \<Rightarrow> engine_config \<Rightarrow> instance_pool_config \<Rightarrow> 'c \<Rightarrow> ('c, 'm) executor \<Rightarrow> 'm instance_pool
     \<Rightarrow> (pooled_instance \<times> spawn_config) set \<Rightarrow> tenant_id multiset \<Rightarrow> bool"
  for W E cfg cache where
  started: "pool_history W E cfg cache (executor_new cache) (instance_pool_new cfg) {} {#}"
| acquired: "pool_history W E cfg cache x p H L \<Longrightarrow> has_room x p
    \<Longrightarrow> acquire W E sc wasm boots b x p = Some (x', p', Ok h) \<Longrightarrow> pool_history W E cfg cache x' p' (insert (h, sc) H) L"
| acquire_failed: "pool_history W E cfg cache x p H L \<Longrightarrow> has_room x p
    \<Longrightarrow> acquire W E sc wasm boots b x p = Some (x', p', Err e) \<Longrightarrow> pool_history W E cfg cache x' p' H (L + leaked sc p p')"
| called: "pool_history W E cfg cache x p H L
    \<Longrightarrow> call_export_with_args E i now (guest :: 'm tw_instance \<Rightarrow> string guest_outcome \<times> nat) x = (x', r)
    \<Longrightarrow> pool_history W E cfg cache x' p H L"
| released: "pool_history W E cfg cache x p H L \<Longrightarrow> (h, sc) \<in> H
    \<Longrightarrow> release W E sc shared b elapsed h x p = (x', p') \<Longrightarrow> pool_history W E cfg cache x' p' (H - {(h, sc)}) L"
| spawned: "pool_history W E cfg cache x p H L \<Longrightarrow> has_room x p
    \<Longrightarrow> spawn_instance W E sc wasm b x = Some (x', s) \<Longrightarrow> pool_history W E cfg cache x' p H L"
| terminated: "pool_history W E cfg cache x p H L \<Longrightarrow> terminate E i x = (x', u) \<Longrightarrow> pool_history W E cfg cache x' p H L"
| cancelled: "pool_history W E cfg cache x p H L \<Longrightarrow> pool_history W E cfg cache (auto_terminate_drop i (guard_tenant E i x) x) p H L"
| shut_down: "pool_history W E cfg cache x p H L \<Longrightarrow> shutdown x p = (x', p') \<Longrightarrow> pool_history W E cfg cache x' p' H L"

section \<open>Registration\<close>

definition ids_below :: "('c, 'm) executor \<Rightarrow> bool" where
  "ids_below x \<longleftrightarrow> (\<forall>i \<in> fst ` set (instances x). unat i < unat (next_instance_id x))"

lemma next_id_vacant:
  assumes "ids_below x"
  shows "map_of (instances x) (ucast (next_instance_id x) :: u128) = None"
proof -
  have "(ucast (next_instance_id x) :: u128) \<notin> fst ` set (instances x)"
    using assms unat_u64_as_u128 [of "next_instance_id x"] by (metis ids_below_def less_irrefl)
  then show ?thesis by (simp add: map_of_eq_None_iff)
qed

lemma register_next:
  fixes x :: "('c, 'm) executor" and inst :: "'m tw_instance"
  defines "i \<equiv> ucast (next_instance_id x) :: u128"
  assumes "ids_below x"
  shows "register_pooled_instance inst x =
    Some (x\<lparr>next_instance_id := next_instance_id x + 1, instances := instances x @ [(i, inst\<lparr>inst_id := i\<rparr>)]\<rparr>, Ok i)"
proof -
  have v: "map_of (instances x) i = None" using next_id_vacant [OF assms(2)] by (simp add: i_def)
  then have "allocate_instance_id x = Some (x\<lparr>next_instance_id := next_instance_id x + 1\<rparr>, i)"
    by (subst allocate_instance_id.simps) (simp add: Let_def i_def)
  then show ?thesis using v by (simp add: register_pooled_instance_def update_absent)
qed

text \<open>The registry grew by one instance under the next id, which is now below the counter.\<close>

definition registers :: "('c, 'm) executor \<Rightarrow> ('c, 'm) executor \<Rightarrow> u128 \<Rightarrow> 'm tw_instance \<Rightarrow> bool" where
  "registers x x' i inst \<longleftrightarrow> i = ucast (next_instance_id x) \<and> next_instance_id x' = next_instance_id x + 1
     \<and> instances x' = instances x @ [(i, inst)] \<and> inst_id inst = i"

lemma rebuild_next:
  "rebuild_pooled_from_module W E sc m b x = (x', r) \<Longrightarrow> next_instance_id x' = next_instance_id x"
  using charge_frame(2) [of E "spawn_tenant sc" x]
  by (auto simp: rebuild_pooled_from_module_def split: sum.splits prod.splits)

lemma build_next:
  assumes "build_pooled_instance_with_hash W E sc wasm key b x = (x', r)"
  shows "next_instance_id x' = next_instance_id x"
proof -
  obtain x1 c where c: "charge_instance_slot E (spawn_tenant sc) x = (x1, c)" by fastforce
  obtain x2 d where d: "compile_module_cached_with_hash W E wasm key x1 = (x2, d)" by fastforce
  have "next_instance_id x1 = next_instance_id x" by (rule charge_frame(2) [OF c])
  moreover have "next_instance_id x2 = next_instance_id x1" using arg_cong [OF compile_frame [OF d], of next_instance_id] by simp
  ultimately show ?thesis
    using assms c d by (auto simp: build_pooled_instance_with_hash_def split: sum.splits)
qed

lemma fresh_for_id [simp]: "fresh_for sc m (inst\<lparr>inst_id := i\<rparr>) = fresh_for sc m inst"
  by (simp add: fresh_for_def)

lemma registered_registers: "registers x x' i inst \<Longrightarrow> registered x' = add_mset (inst_tenant inst) (registered x)"
  by (simp add: registered_def registers_def)

lemma registers_ids:
  assumes "registers x x' i inst" and "ids_below x" and "unat (next_instance_id x) + 1 < 2 ^ 64"
  shows "ids_below x'" and "map_of (instances x) i = None" and "map_of (instances x') i = Some inst"
    and "unat (next_instance_id x') = unat (next_instance_id x) + 1"
proof -
  have n: "unat (next_instance_id x + 1) = unat (next_instance_id x) + 1" using assms(3) unat_plus_one by blast
  then show "unat (next_instance_id x') = unat (next_instance_id x) + 1" using assms(1) by (simp add: registers_def)
  show "ids_below x'" using assms(1,2) n by (auto simp: registers_def ids_below_def unat_u64_as_u128)
  show v: "map_of (instances x) i = None" using assms(1) next_id_vacant [OF assms(2)] by (simp add: registers_def)
  then show "map_of (instances x') i = Some inst" using assms(1) by (simp add: registers_def map_add_def)
qed

text \<open>A fresh spawn registers a fresh instance or leaves the executor as it was, its cache apart.\<close>

lemma spawn_result:
  assumes sp: "spawn_instance W E sc wasm b x = Some (x', r)" and "ids_below x" and acc: "accounts E M x" and room: "Suc (size M) < 2 ^ 64"
    and W: "runtime_ok W contents" and cs: "cache_sound W contents x"
  shows "cache_sound W contents x' \<and> (case r of
      Inl e \<Rightarrow> accounts E M x' \<and> instances x' = instances x \<and> next_instance_id x' = next_instance_id x
    | Inr i \<Rightarrow> accounts E (add_mset (spawn_tenant sc) M) x' \<and> (\<exists>inst m. registers x x' i inst \<and> fresh_for sc m inst
        \<and> compiled_from W (digest W (maybe_rewrite_for_offload W E sc wasm)) m))"
proof -
  let ?w = "maybe_rewrite_for_offload W E sc wasm"
  obtain x1 br where b: "build_pooled_instance_with_hash W E sc ?w (digest W ?w) b x = (x1, br)" by fastforce
  note res = build_result [OF b acc room W cs] and nx = build_next [OF b]
  show ?thesis
  proof (cases br)
    case (Inl e)
    then show ?thesis using sp b res nx by (auto simp: spawn_instance_def build_pooled_instance_def)
  next
    case (Inr im)
    then obtain inst m where im: "br = Ok (inst, m)" by (cases im) auto
    have below: "ids_below x1" using assms(2) res(1) nx by (simp add: ids_below_def)
    note reg = register_next [OF below, of inst]
    have x': "x' = x1\<lparr>next_instance_id := next_instance_id x1 + 1, instances := instances x1 @ [(ucast (next_instance_id x1), inst\<lparr>inst_id := ucast (next_instance_id x1)\<rparr>)]\<rparr>"
      "r = Ok (ucast (next_instance_id x1))"
      using sp b im reg by (auto simp: spawn_instance_def build_pooled_instance_def)
    have "registers x x' (ucast (next_instance_id x1)) (inst\<lparr>inst_id := ucast (next_instance_id x1)\<rparr>)"
      using x'(1) res(1) nx by (simp add: registers_def)
    moreover have "accounts E (add_mset (spawn_tenant sc) M) x'" "cache_sound W contents x'" "fresh_for sc m inst" "compiled_from W (digest W ?w) m"
      using res(2,3) im x'(1) by (simp_all add: cache_sound_def)
    ultimately show ?thesis using x'(2) by (auto intro!: exI [of _ "inst\<lparr>inst_id := ucast (next_instance_id x1)\<rparr>"])
  qed
qed

section \<open>Acquisition\<close>

lemma prewarm_next:
  "prewarm W E sc wasm key boots cap i n chan mo x p = (x', p', r) \<Longrightarrow> next_instance_id x' = next_instance_id x"
proof (induction n arbitrary: i chan mo x p)
  case (Suc n)
  show ?case
  proof (cases "at_warm_cap p")
    case False
    define built where "built = (case mo of
        None \<Rightarrow> build_pooled_instance_with_hash W E sc wasm key (boots i) x
      | Some m \<Rightarrow> (case rebuild_pooled_from_module W E sc m (boots i) x of
                    (x1, Inl e) \<Rightarrow> (x1, Err e) | (x1, Inr inst) \<Rightarrow> (x1, Ok (inst, m))))"
    obtain x1 br where b: "built = (x1, br)" by fastforce
    have n1: "next_instance_id x1 = next_instance_id x"
      using b rebuild_next [of W E sc _ "boots i" x] build_next [of W E sc wasm key "boots i" x]
      by (auto simp: built_def split: option.splits prod.splits sum.splits)
    show ?thesis
      using Suc.prems Suc.IH False b n1
      by (auto simp: built_def [symmetric] split: sum.splits prod.splits if_splits)
  qed (use Suc.prems in simp)
qed simp

lemma pool_inv_same_registry:
  assumes "pool_inv W contents E L x p" and "instances x' = instances x" and "cache_sound W contents x'"
    and "accounts E (registered x + warm (pools p') + L') x'" and "unat (warm_total p') = size (warm (pools p') + L')"
    and "distinct (map fst (pools p'))" and "\<forall>(k, entry) \<in> set (pools p'). pool_entry_ok W k entry"
  shows "pool_inv W contents E L' x' p'"
proof -
  have "registered x' = registered x" using assms(2) by (simp add: registered_def)
  then show ?thesis using assms unfolding pool_inv_def by simp
qed

lemma pool_inv_room:
  assumes "pool_inv W contents E L x p" and "has_room x p"
  shows "size (registered x + warm (pools p) + L) + warm_instances_per_tuple (pool_cfg p) + 2 < 2 ^ 64"
    and "unat (warm_total p) + warm_instances_per_tuple (pool_cfg p) < 2 ^ 64"
  using assms by (auto simp: pool_inv_def has_room_def accounts_def)

lemma capture_module_result:
  assumes W: "runtime_ok W contents" and c: "capture_module W E sc wasm (digest W wasm) b mo x = (x', r)"
    and acc: "accounts E M x" and room: "Suc (size M) < 2 ^ 64" and cs: "cache_sound W contents x"
    and mo: "\<forall>m. mo = Some m \<longrightarrow> compiled_from W (digest W wasm) m"
  shows "instances x' = instances x \<and> next_instance_id x' = next_instance_id x \<and> cache_sound W contents x' \<and> accounts E M x'
    \<and> (\<forall>m. r = Ok m \<longrightarrow> compiled_from W (digest W wasm) m) \<and> (\<forall>m. mo = Some m \<longrightarrow> r = Ok m)"
proof (cases mo)
  case None
  obtain x1 br where bu: "build_pooled_instance_with_hash W E sc wasm (digest W wasm) b x = (x1, br)" by fastforce
  note res = build_result [OF bu acc room W cs] and n1 = build_next [OF bu]
  show ?thesis
  proof (cases br)
    case (Inl e)
    then show ?thesis using c None bu res n1 by (auto simp: capture_module_def)
  next
    case (Inr im)
    then obtain inst m where im: "br = Ok (inst, m)" by (cases im) auto
    have "accounts E M (release_instance_slot (spawn_tenant sc) x1)"
      using release_accounts(2) [of E "add_mset (spawn_tenant sc) M" x1 "spawn_tenant sc"] res(3) im by simp
    then show ?thesis using c None bu res n1 im by (auto simp: capture_module_def cache_sound_def)
  qed
next
  case (Some m)
  then show ?thesis using assms by (auto simp: capture_module_def)
qed

lemma build_entry_result:
  assumes W: "runtime_ok W contents" and inv: "pool_inv W contents E L x p" and room: "has_room x p"
    and sc: "spawn_streaming sc = None" "spawn_input sc = []" and new: "map_of (pools p) (spawn_tenant sc, digest W wasm) = None"
    and b: "build_entry W E sc wasm (digest W wasm) boots x p = (x', p', r)"
  shows "instances x' = instances x \<and> next_instance_id x' = next_instance_id x \<and> pool_cfg p' = pool_cfg p \<and>
    (case r of
       Inl e \<Rightarrow> pool_inv W contents E (L + leaked sc p p') x' p'
     | Inr _ \<Rightarrow> pool_inv W contents E L x' p' \<and> (\<exists>entry. map_of (pools p') (spawn_tenant sc, digest W wasm) = Some entry
         \<and> (channel entry = [] \<longrightarrow> warm_total p' = warm_total p)))"
proof -
  let ?t = "spawn_tenant sc" and ?key = "digest W wasm" and ?M = "registered x + warm (pools p) + L"
  let ?n = "warm_instances_per_tuple (pool_cfg p)" and ?cap = "channel_capacity (pool_cfg p)"
  note big = pool_inv_room [OF inv room]
  have acc: "accounts E (?M + replicate_mset (length ([] :: 'b tw_instance list)) ?t) x" and cs: "cache_sound W contents x"
    and wt: "unat (warm_total p) = size (warm (pools p) + L)" using inv by (simp_all add: pool_inv_def)
  obtain x1 p1 r1 where pw: "prewarm W E sc wasm ?key boots ?cap 0 ?n [] None x p = (x1, p1, r1)" by (metis prod_cases3)
  from prewarm_result [OF W refl pw acc cs] big
  obtain k where k: "instances x1 = instances x" "cache_sound W contents x1" "pools p1 = pools p" "pool_cfg p1 = pool_cfg p"
    "accounts E (?M + replicate_mset k ?t) x1" "k \<le> ?n" "unat (warm_total p1) = unat (warm_total p) + k"
    "\<forall>chan mo. r1 = Ok (chan, mo) \<longrightarrow> length chan = k \<and> (\<forall>m. mo = Some m \<longrightarrow> compiled_from W ?key m)
       \<and> (\<forall>inst \<in> set chan. \<exists>m. mo = Some m \<and> fresh_for sc m inst)" by auto
  note n1 = prewarm_next [OF pw]
  have leak: "leaked sc p p1 = replicate_mset k ?t" using k(7) by (simp add: leaked_def)
  have lost: "pool_inv W contents E (L + replicate_mset k ?t) x2 p1"
    if "instances x2 = instances x" "cache_sound W contents x2" "accounts E (?M + replicate_mset k ?t) x2" for x2
    using that k(3,7) inv wt by (intro pool_inv_same_registry [OF inv]) (simp_all add: pool_inv_def add.assoc)
  show ?thesis
  proof (cases r1)
    case (Inl e)
    then have "x' = x1" "p' = p1" "r = Err e" using b pw by (auto simp: build_entry_def Let_def)
    then show ?thesis using k(1,2,4,5) n1 leak lost [of x1] by simp
  next
    case (Inr cm)
    then obtain chan mo where cm: "r1 = Ok (chan, mo)" by (cases cm) auto
    note ch = k(8) [rule_format, OF cm]
    obtain x2 r2 where s: "capture_module W E sc wasm ?key (boots ?n) mo x1 = (x2, r2)" by fastforce
    have "Suc (size (?M + replicate_mset k ?t)) < 2 ^ 64" using k(6) big(1) by simp
    note two = capture_module_result [OF W s k(5) this k(2)]
    show ?thesis
    proof (cases r2)
      case (Inl e)
      then have "x' = x2" "p' = p1" "r = Err e" using b pw cm s by (auto simp: build_entry_def Let_def)
      then show ?thesis using two ch k(1,4) n1 leak lost [of x2] by simp
    next
      case (Inr m)
      let ?entry = "\<lparr>channel = chan, entry_module = m, entry_capacity = ?cap\<rparr>"
      have r: "x' = x2" "p' = p1\<lparr>pools := pools p @ [((?t, ?key), ?entry)]\<rparr>" "r = Ok ()"
        using b pw cm s Inr k(3) new by (auto simp: build_entry_def Let_def update_absent)
      have ok: "pool_entry_ok W (?t, ?key) ?entry" using two ch Inr sc by (auto simp: pool_entry_ok_def fresh_for_def)
      have w: "warm (pools p') = warm (pools p) + replicate_mset k ?t" using r(2) ch by (simp add: warm_append warm_Cons)
      have old: "distinct (map fst (pools p))" "\<forall>(k, entry) \<in> set (pools p). pool_entry_ok W k entry" using inv by (auto simp: pool_inv_def)
      have "pool_inv W contents E L x' p'"
      proof (rule pool_inv_same_registry [OF inv])
        show "accounts E (registered x + warm (pools p') + L) x'" using two ch w r(1) by (simp add: ac_simps)
        show "unat (warm_total p') = size (warm (pools p') + L)" using w r(2) k(7) wt by simp
        show "distinct (map fst (pools p'))" using old(1) r(2) new by (simp add: map_of_eq_None_iff)
        show "\<forall>(k, entry) \<in> set (pools p'). pool_entry_ok W k entry" using old(2) ok r(2) by simp
      qed (use two ch k(1) r in simp_all)
      moreover have "map_of (pools p') (?t, ?key) = Some ?entry" using r(2) new by (simp add: map_add_def)
      moreover have "chan = [] \<longrightarrow> warm_total p' = warm_total p" using k(7) ch r(2) by (auto simp: word_unat_eq_iff)
      ultimately show ?thesis using two ch r k(1,4) n1 by simp
    qed
  qed
qed

text \<open>What a caller may expect of the instance it gets.\<close>

definition serves :: "('c, 'm) runtime \<Rightarrow> engine_config \<Rightarrow> spawn_config \<Rightarrow> bytes \<Rightarrow> 'm tw_instance \<Rightarrow> bool" where
  "serves W E sc wasm inst \<longleftrightarrow> inst_tenant inst = spawn_tenant sc \<and> inst_streaming inst = spawn_streaming sc
     \<and> inst_input inst = spawn_input sc \<and> guest_calls inst = 0
     \<and> (\<exists>w \<in> {wasm, maybe_rewrite_for_offload W E sc wasm}. compiled_from W (digest W w) (inst_module inst))"

lemma pool_inv_registers:
  assumes "pool_inv W contents E L x p" and "registers x x' i inst" and "ids_below x" and "cache_sound W contents x'"
    and "accounts E (add_mset (inst_tenant inst) (registered x) + warm (pools p') + L) x'"
    and "unat (warm_total p') = size (warm (pools p') + L)"
    and "distinct (map fst (pools p'))" and "\<forall>(k, entry) \<in> set (pools p'). pool_entry_ok W k entry"
  shows "pool_inv W contents E L x' p'"
proof -
  have "distinct (map fst (instances x'))"
    using assms(1,2) next_id_vacant [OF assms(3)] by (auto simp: pool_inv_def registers_def map_of_eq_None_iff)
  then show ?thesis using assms registered_registers [OF assms(2)] unfolding pool_inv_def by simp
qed

lemma fall_through_result:
  assumes W: "runtime_ok W contents" and inv: "pool_inv W contents E L x p" and below: "ids_below x"
    and room: "Suc (size (registered x + warm (pools p) + L)) < 2 ^ 64"
    and f: "fall_through W E sc wasm b o' x p = Some (x', p', r)"
  shows "pool_cfg p' = pool_cfg p \<and> pool_inv W contents E L x' p' \<and> (case r of
      Inl e \<Rightarrow> instances x' = instances x \<and> next_instance_id x' = next_instance_id x \<and> warm_total p' = warm_total p
    | Inr h \<Rightarrow> origin h = o' \<and> (\<exists>inst. registers x x' (pooled_id h) inst \<and> serves W E sc wasm inst))"
proof -
  have acc: "accounts E (registered x + warm (pools p) + L) x" and cs: "cache_sound W contents x" using inv by (simp_all add: pool_inv_def)
  obtain x1 s where s: "spawn_instance W E sc wasm b x = Some (x1, s)" using f by (auto simp: fall_through_def Let_def split: option.splits)
  note res = spawn_result [OF s below acc room W cs]
  have x': "x' = x1" "p' = p\<lparr>miss_count := miss_count p + 1\<rparr>" "r = (case s of Inl e \<Rightarrow> Err e | Inr i \<Rightarrow> Ok \<lparr>pooled_id = i, origin = o'\<rparr>)"
    using f s by (auto simp: fall_through_def Let_def split: sum.splits)
  have old: "pools p' = pools p" "warm_total p' = warm_total p" "pool_cfg p' = pool_cfg p" using x'(2) by simp_all
  show ?thesis
  proof (cases s)
    case (Inl e)
    then have "pool_inv W contents E L x' p'"
      using res x'(1) old inv by (intro pool_inv_same_registry [OF inv]) (simp_all add: pool_inv_def)
    then show ?thesis using res Inl x' old by simp
  next
    case (Inr i)
    then obtain inst m where g: "registers x x1 i inst" "fresh_for sc m inst" "compiled_from W (digest W (maybe_rewrite_for_offload W E sc wasm)) m"
      using res by auto
    have t: "inst_tenant inst = spawn_tenant sc" and sv: "serves W E sc wasm inst" using g(2,3) by (auto simp: fresh_for_def serves_def)
    have "pool_inv W contents E L x' p'"
      unfolding x'(1) using res Inr old inv t by (intro pool_inv_registers [OF inv g(1) below]) (simp_all add: pool_inv_def)
    then show ?thesis using g(1) sv x' old Inr by auto
  qed
qed

lemma pool_inv_stats [simp]:
  "pool_inv W contents E L x (p\<lparr>draws_total := n\<rparr>) = pool_inv W contents E L x p"
  "pool_inv W contents E L x (p\<lparr>drops_total := n\<rparr>) = pool_inv W contents E L x p"
  by (simp_all add: pool_inv_def)

lemma ensure_entry_result:
  assumes "runtime_ok W contents" and inv: "pool_inv W contents E L x p" and "has_room x p"
    and "spawn_streaming sc = None" "spawn_input sc = []" and e: "ensure_entry W E sc wasm (digest W wasm) boots x p = (x', p', r)"
  shows "instances x' = instances x \<and> next_instance_id x' = next_instance_id x \<and> pool_cfg p' = pool_cfg p \<and>
    (case r of
       Inl e \<Rightarrow> pool_inv W contents E (L + leaked sc p p') x' p'
     | Inr _ \<Rightarrow> pool_inv W contents E L x' p' \<and> (\<exists>entry. map_of (pools p') (spawn_tenant sc, digest W wasm) = Some entry
         \<and> (channel entry = [] \<longrightarrow> warm_total p' = warm_total p)))"
proof (cases "map_of (pools p) (spawn_tenant sc, digest W wasm)")
  case None
  then show ?thesis using build_entry_result [OF assms(1-5) None] e by (simp add: ensure_entry_def)
next
  case (Some entry)
  then have "x' = x" "p' = p" "r = Ok ()" using e by (auto simp: ensure_entry_def)
  then show ?thesis using inv Some by simp
qed

lemma update_subset: "set (AList.update k v xs) \<subseteq> insert (k, v) (set xs)"
  by (induction xs) auto

text \<open>A hit: the head of the channel becomes a registered instance and its slot moves with it.\<close>

lemma take_warm:
  assumes inv: "pool_inv W contents E L x p" and below: "ids_below x" and e: "map_of (pools p) (t, key) = Some entry" "channel entry = inst # rest"
    and x': "registers x x' i (inst\<lparr>inst_id := i\<rparr>)" "x' = x\<lparr>next_instance_id := n, instances := is\<rparr>"
    and p': "pools p' = AList.update (t, key) (entry\<lparr>channel := rest\<rparr>) (pools p)" "warm_total p' = warm_total p - 1"
  shows "pool_inv W contents E L x' p'" and "inst_tenant inst = t" and "inst_streaming inst = None" and "inst_input inst = []"
    and "guest_calls inst = 0" and "compiled_from W key (inst_module inst)"
proof -
  have ok: "pool_entry_ok W (t, key) entry" using inv map_of_SomeD [OF e(1)] by (auto simp: pool_inv_def)
  then show t: "inst_tenant inst = t" and "inst_streaming inst = None" "inst_input inst = []" "guest_calls inst = 0"
    "compiled_from W key (inst_module inst)" using e(2) by (simp_all add: pool_entry_ok_def)
  have w: "warm (pools p) = add_mset t (warm (pools p'))"
    using warm_update [OF e(1), of "entry\<lparr>channel := rest\<rparr>"] e(2) p'(1) by simp
  have "unat (warm_total p) = Suc (size (warm (pools p')) + size L)" using inv w by (simp add: pool_inv_def)
  then have wt: "unat (warm_total p') = size (warm (pools p') + L)" using unat_minus_one [of "warm_total p"] p'(2) by simp
  have ok': "pool_entry_ok W (t, key) (entry\<lparr>channel := rest\<rparr>)" using ok e(2) by (simp add: pool_entry_ok_def)
  have "\<forall>(k, entry) \<in> set (pools p'). pool_entry_ok W k entry"
    using inv ok' p'(1) update_subset [of "(t, key)" "entry\<lparr>channel := rest\<rparr>" "pools p"] by (auto simp: pool_inv_def)
  moreover have "distinct (map fst (pools p'))" using inv p'(1) by (simp add: pool_inv_def distinct_update)
  moreover have "accounts E (add_mset (inst_tenant (inst\<lparr>inst_id := i\<rparr>)) (registered x) + warm (pools p') + L) x'"
    using inv w t x'(2) by (simp add: pool_inv_def ac_simps)
  moreover have "cache_sound W contents x'" using inv x'(2) by (simp add: pool_inv_def cache_sound_def)
  ultimately show "pool_inv W contents E L x' p'" using wt by (intro pool_inv_registers [OF inv x'(1) below])
qed

lemma acquire_result:
  assumes W: "runtime_ok W contents" and inv: "pool_inv W contents E L x p" and below: "ids_below x" and room: "has_room x p"
    and a: "acquire W E sc wasm boots b x p = Some (x', p', r)"
  shows "pool_cfg p' = pool_cfg p \<and> (case r of
      Inl e \<Rightarrow> pool_inv W contents E (L + leaked sc p p') x' p' \<and> instances x' = instances x \<and> next_instance_id x' = next_instance_id x
    | Inr h \<Rightarrow> pool_inv W contents E L x' p' \<and> (origin h = None \<or> spawn_input sc = [] \<and> spawn_streaming sc = None)
        \<and> (\<exists>inst. registers x x' (pooled_id h) inst \<and> serves W E sc wasm inst))"
proof -
  let ?t = "spawn_tenant sc" and ?key = "digest W wasm" and ?p = "p\<lparr>draws_total := draws_total p + 1\<rparr>"
  have inv1: "pool_inv W contents E L x ?p" and room1: "has_room x ?p" using inv room by (simp_all add: has_room_def)
  have big: "Suc (size (registered x + warm (pools p) + L)) < 2 ^ 64" using pool_inv_room(1) [OF inv room] by simp
  show ?thesis
  proof (cases "spawn_streaming sc \<noteq> None \<or> spawn_input sc \<noteq> []")
    case True
    then have f: "fall_through W E sc wasm b None x ?p = Some (x', p', r)" using a by (auto simp: acquire_def Let_def split: if_splits)
    from fall_through_result [OF W inv1 below _ f] big show ?thesis by (auto simp: leaked_def split: sum.splits)
  next
    case False
    then have sc: "spawn_streaming sc = None" "spawn_input sc = []" by auto
    obtain x1 p1 r1 where en: "ensure_entry W E sc wasm ?key boots x ?p = (x1, p1, r1)" by (metis prod_cases3)
    note res = ensure_entry_result [OF W inv1 room1 sc en]
    have lk: "leaked sc ?p q = leaked sc p q" for q by (simp add: leaked_def)
    show ?thesis
    proof (cases r1)
      case (Inl e)
      then have "x' = x1" "p' = p1" "r = Err e" using a sc en by (auto simp: acquire_def Let_def)
      then show ?thesis using res Inl lk by simp
    next
      case (Inr u)
      then obtain entry where e: "map_of (pools p1) (?t, ?key) = Some entry" "channel entry = [] \<longrightarrow> warm_total p1 = warm_total p"
        and inv2: "pool_inv W contents E L x1 p1" using res by auto
      have same: "instances x1 = instances x" "next_instance_id x1 = next_instance_id x" using res by simp_all
      have below1: "ids_below x1" using below same by (simp add: ids_below_def)
      have reg1: "registers x1 y i inst = registers x y i inst" for y i inst using same by (simp add: registers_def)
      show ?thesis
      proof (cases "channel entry")
        case Nil
        then have f: "fall_through W E sc wasm b (Some ?key) x1 p1 = Some (x', p', r)"
          using a sc en Inr e(1) by (simp add: acquire_def Let_def)
        have "size (warm (pools p1) + L) = size (warm (pools p) + L)"
          using inv inv2 e(2) Nil unfolding pool_inv_def by metis
        then have "Suc (size (registered x1 + warm (pools p1) + L)) < 2 ^ 64" using big same by (simp add: registered_def)
        from fall_through_result [OF W inv2 below1 this f] show ?thesis
          using res e(2) Nil sc same reg1 by (auto simp: leaked_def split: sum.splits)
      next
        case (Cons inst rest)
        define i :: u128 where "i = ucast (next_instance_id x1)"
        let ?x = "x1\<lparr>next_instance_id := next_instance_id x1 + 1, instances := instances x1 @ [(i, inst\<lparr>inst_id := i\<rparr>)]\<rparr>"
        have "register_pooled_instance inst x1 = Some (?x, Ok i)" using register_next [OF below1, of inst] by (simp add: i_def)
        then have r: "x' = ?x" "r = Ok \<lparr>pooled_id = i, origin = Some ?key\<rparr>"
          "p' = p1\<lparr>pools := AList.update (?t, ?key) (entry\<lparr>channel := rest\<rparr>) (pools p1), warm_total := warm_total p1 - 1, hit_count := hit_count p1 + 1\<rparr>"
          using a sc en Inr e(1) Cons by (auto simp: acquire_def Let_def)
        have reg: "registers x1 x' i (inst\<lparr>inst_id := i\<rparr>)" using r(1) by (simp add: registers_def i_def)
        have p': "pools p' = AList.update (?t, ?key) (entry\<lparr>channel := rest\<rparr>) (pools p1)" "warm_total p' = warm_total p1 - 1"
          using r(3) by simp_all
        note tw = take_warm [OF inv2 below1 e(1) Cons reg r(1) p']
        have "serves W E sc wasm (inst\<lparr>inst_id := i\<rparr>)" using tw(2-6) sc by (simp add: serves_def)
        then show ?thesis using tw(1) r reg reg1 res sc by auto
      qed
    qed
  qed
qed

section \<open>Removal and calls\<close>

lemma pool_inv_remove:
  assumes inv: "pool_inv W contents E L x p" and i: "map_of (instances x) i = Some inst"
    and x': "instances x' = AList.delete i (instances x)" "module_cache x' = module_cache x"
    and acc: "\<And>M. accounts E M x \<Longrightarrow> inst_tenant inst \<in># M \<Longrightarrow> accounts E (M - {#inst_tenant inst#}) x'"
  shows "pool_inv W contents E L x' p"
proof -
  have r: "registered x = add_mset (inst_tenant inst) (registered x')"
    using inv registered_delete [OF _ i] x'(1) by (simp add: pool_inv_def registered_def)
  have "accounts E (registered x + warm (pools p) + L) x" using inv by (simp add: pool_inv_def)
  from acc [OF this] have "accounts E (registered x' + warm (pools p) + L) x'" using r by simp
  then show ?thesis using inv x' by (simp add: pool_inv_def cache_sound_def distinct_delete)
qed

lemma terminate_result:
  assumes inv: "pool_inv W contents E L x p" and t: "terminate E i x = (x', r)"
  shows "pool_inv W contents E L x' p \<and> instances x' = AList.delete i (instances x) \<and> next_instance_id x' = next_instance_id x"
proof (cases "map_of (instances x) i")
  case None
  then have "x' = x" "AList.delete i (instances x) = instances x"
    using t by (auto simp: terminate_def intro!: delete_absent simp flip: map_of_eq_None_iff)
  then show ?thesis using inv by simp
next
  case (Some inst)
  then have "x' = slot_guard_drop E (inst_tenant inst) (x\<lparr>instances := AList.delete i (instances x)\<rparr>)" using t by (auto simp: terminate_def)
  then show ?thesis
    using pool_inv_remove [OF inv Some, of x'] release_accounts(1) [of E _ "x\<lparr>instances := AList.delete i (instances x)\<rparr>" "inst_tenant inst"] by simp
qed

text \<open>The drop guard of a cancelled call removes the instance exactly as \<open>terminate\<close> does.\<close>

lemma auto_terminate_as_terminate: "auto_terminate_drop i (guard_tenant E i x) x = fst (terminate E i x)"
  by (cases "map_of (instances x) i")
    (auto simp: auto_terminate_drop_def guard_tenant_def terminate_def slot_guard_drop_def Let_def)

lemma registered_update:
  assumes "map_of is i = Some inst" and "inst_tenant inst' = inst_tenant inst"
  shows "image_mset (inst_tenant \<circ> snd) (mset (AList.update i inst' is)) = image_mset (inst_tenant \<circ> snd) (mset is)"
  using assms by (induction "is") (auto split: if_splits)

lemma call_result:
  assumes inv: "pool_inv W contents E L x p" and c: "call_export_with_args E i now guest x = (x', r)"
  shows "pool_inv W contents E L x' p \<and> next_instance_id x' = next_instance_id x \<and> fst ` set (instances x') = fst ` set (instances x)
    \<and> (\<forall>j inst'. map_of (instances x') j = Some inst' \<longrightarrow> (\<exists>inst. map_of (instances x) j = Some inst \<and> inst_tenant inst' = inst_tenant inst))"
proof (cases "map_of (instances x) i")
  case None
  then show ?thesis using c inv by (auto simp: call_export_with_args_def)
next
  case (Some inst)
  define inst' where "inst' = (arm_call E now inst)\<lparr>guest_calls := Suc (guest_calls (arm_call E now inst))\<rparr>"
  have t: "inst_tenant inst' = inst_tenant inst" by (simp add: inst'_def arm_call_def Let_def)
  have x': "x' = x\<lparr>instances := AList.update i inst' (instances x)\<rparr>"
    using c Some by (auto simp: call_export_with_args_def inst'_def Let_def split: prod.splits)
  have "registered x' = registered x" using registered_update [OF Some t] x' by (simp add: registered_def)
  then have "pool_inv W contents E L x' p" using inv x' by (simp add: pool_inv_def cache_sound_def distinct_update)
  moreover have "i \<in> fst ` set (instances x)" using Some map_of_eq_None_iff [of "instances x" i] by auto
  ultimately show ?thesis using x' Some t by (auto simp: update_conv' dom_update)
qed

section \<open>Release and shutdown\<close>

lemma accounts_bound: "accounts E M x \<Longrightarrow> size M < 2 ^ 64"
  using unsigned_less [of "instance_count x", where ?'a = nat] by (simp add: accounts_def)

text \<open>A fresh instance joins the channel of its entry.\<close>

lemma put_warm:
  assumes inv: "pool_inv W contents E L x p" and e: "map_of (pools p) (spawn_tenant sc, key) = Some entry"
    and f: "fresh_for sc (entry_module entry) inst" "spawn_streaming sc = None" "spawn_input sc = []"
    and x': "instances x' = instances x" "module_cache x' = module_cache x"
      "accounts E (add_mset (spawn_tenant sc) (registered x + warm (pools p) + L)) x'"
    and p': "pools p' = AList.update (spawn_tenant sc, key) (entry\<lparr>channel := channel entry @ [inst]\<rparr>) (pools p)" "warm_total p' = warm_total p + 1"
  shows "pool_inv W contents E L x' p'"
proof (rule pool_inv_same_registry [OF inv x'(1)])
  let ?t = "spawn_tenant sc" and ?entry = "entry\<lparr>channel := channel entry @ [inst]\<rparr>"
  have w: "warm (pools p') = add_mset ?t (warm (pools p))" using warm_update [OF e, of ?entry] p'(1) by simp
  show "accounts E (registered x + warm (pools p') + L) x'" using x'(3) w by (simp add: ac_simps)
  have "size (add_mset ?t (registered x + warm (pools p) + L)) < 2 ^ 64"
    by (rule accounts_bound [OF x'(3)])
  moreover have wt: "unat (warm_total p) = size (warm (pools p) + L)" using inv by (simp add: pool_inv_def)
  ultimately have "unat (warm_total p + 1) = unat (warm_total p) + 1" by (intro unat_plus_one) simp
  then show "unat (warm_total p') = size (warm (pools p') + L)" using w wt p'(2) by simp
  have "pool_entry_ok W (?t, key) entry" using inv map_of_SomeD [OF e] by (auto simp: pool_inv_def)
  then have "pool_entry_ok W (?t, key) ?entry" using f by (auto simp: pool_entry_ok_def fresh_for_def)
  then show "\<forall>(k, entry) \<in> set (pools p'). pool_entry_ok W k entry"
    using inv p'(1) update_subset [of "(?t, key)" ?entry "pools p"] by (auto simp: pool_inv_def)
  show "distinct (map fst (pools p'))" using inv p'(1) by (simp add: pool_inv_def distinct_update)
  show "cache_sound W contents x'" using inv x'(2) by (simp add: pool_inv_def cache_sound_def)
qed

lemma detach_result:
  assumes inv: "pool_inv W contents E L x p" and d: "detach_pooled_instance E shared i x = (x', s)"
  shows "instances x' = AList.delete i (instances x) \<and> next_instance_id x' = next_instance_id x \<and> module_cache x' = module_cache x
    \<and> (case s of None \<Rightarrow> pool_inv W contents E L x' p
       | Some inst \<Rightarrow> map_of (instances x) i = Some inst \<and> pool_inv W contents E L (release_instance_slot (inst_tenant inst) x') p)"
proof (cases "map_of (instances x) i")
  case None
  then have "x' = x" "s = None" "AList.delete i (instances x) = instances x"
    using d by (auto simp: detach_pooled_instance_def intro!: delete_absent simp flip: map_of_eq_None_iff)
  then show ?thesis using inv by simp
next
  case (Some inst)
  let ?x = "x\<lparr>instances := AList.delete i (instances x)\<rparr>" and ?t = "inst_tenant inst"
  have "x' = (if shared then slot_guard_drop E ?t ?x else ?x)" "s = (if shared then None else Some inst)"
    using d Some by (auto simp: detach_pooled_instance_def Let_def)
  moreover have "pool_inv W contents E L (slot_guard_drop E ?t ?x) p" "pool_inv W contents E L (release_instance_slot ?t ?x) p"
    using pool_inv_remove [OF inv Some, of "slot_guard_drop E ?t ?x"] pool_inv_remove [OF inv Some, of "release_instance_slot ?t ?x"]
      release_accounts [of E _ ?x ?t] by simp_all
  ultimately show ?thesis using Some by simp
qed

lemma release_result:
  assumes inv: "pool_inv W contents E L x p"
    and h: "origin h = None \<or> spawn_input sc = [] \<and> spawn_streaming sc = None"
      "\<forall>inst. map_of (instances x) (pooled_id h) = Some inst \<longrightarrow> inst_tenant inst = spawn_tenant sc"
    and r: "release W E sc shared b elapsed h x p = (x', p')"
  shows "pool_inv W contents E L x' p' \<and> pool_cfg p' = pool_cfg p \<and> instances x' = AList.delete (pooled_id h) (instances x)
    \<and> next_instance_id x' = next_instance_id x"
proof -
  obtain x1 s where d: "detach_pooled_instance E shared (pooled_id h) x = (x1, s)" by fastforce
  note det = detach_result [OF inv d]
  let ?t = "spawn_tenant sc" and ?x = "release_instance_slot (spawn_tenant sc) x1"
  show ?thesis
  proof (cases s)
    case None
    then show ?thesis using r d det by (auto simp: release_def)
  next
    case (Some spent)
    have inv2: "pool_inv W contents E L ?x p" and i2: "instances ?x = AList.delete (pooled_id h) (instances x)" "next_instance_id ?x = next_instance_id x"
      using det h(2) Some by auto
    have dropped: ?thesis if "x' = ?x" "p' = count_drop p" using that inv2 i2 by (simp add: count_drop_def)
    show ?thesis
    proof (cases "\<exists>key entry. origin h = Some key \<and> spawn_streaming sc = None \<and> map_of (pools p) (?t, key) = Some entry \<and> \<not> at_warm_cap p")
      case False
      then show ?thesis using r d Some by (intro dropped) (auto simp: release_def Let_def split: option.splits if_splits)
    next
      case True
      then obtain key entry where e: "origin h = Some key" "spawn_streaming sc = None" "map_of (pools p) (?t, key) = Some entry" "\<not> at_warm_cap p" by auto
      let ?M = "registered ?x + warm (pools p) + L"
      obtain x3 rr where re: "rebuild_pooled_from_module W E sc (entry_module entry) b ?x = (x3, rr)" by fastforce
      have acc: "accounts E ?M ?x" using inv2 by (simp add: pool_inv_def)
      have all: "accounts E (registered x + warm (pools p) + L) x" using inv by (simp add: pool_inv_def)
      have "registered x = add_mset (inst_tenant spent) (registered ?x)"
        using inv registered_delete [of "instances x" "pooled_id h" spent] det Some i2(1) by (simp add: pool_inv_def registered_def)
      then have "Suc (size ?M) < 2 ^ 64" using accounts_bound [OF all] by simp
      note res = rebuild_result [OF re acc this] and n3 = rebuild_next [OF re]
      show ?thesis
      proof (cases rr)
        case (Inl err)
        then have "x' = x3" "p' = count_drop p" using r d Some e re by (auto simp: release_def Let_def)
        moreover have "pool_inv W contents E L x3 p"
          using res Inl inv2 by (intro pool_inv_same_registry [OF inv2]) (auto simp: pool_inv_def cache_sound_def)
        ultimately show ?thesis using res(1) n3 i2 by (simp add: count_drop_def)
      next
        case (Inr inst)
        show ?thesis
        proof (cases "elapsed > POOL_RESET_DEADLINE \<or> length (channel entry) \<ge> entry_capacity entry")
          case True
          then have "x' = release_instance_slot ?t x3" "p' = count_drop p" using r d Some e re Inr by (auto simp: release_def Let_def)
          moreover have "pool_inv W contents E L (release_instance_slot ?t x3) p"
            using res Inr inv2 release_accounts(2) [of E "add_mset ?t ?M" x3 ?t]
            by (intro pool_inv_same_registry [OF inv2]) (auto simp: pool_inv_def cache_sound_def)
          ultimately show ?thesis using res(1) n3 i2 by (simp add: count_drop_def)
        next
          case False
          then have x': "x' = x3" "p' = p\<lparr>pools := AList.update (?t, key) (entry\<lparr>channel := channel entry @ [inst]\<rparr>) (pools p), warm_total := warm_total p + 1\<rparr>"
            using r d Some e re Inr by (auto simp: release_def Let_def)
          have "pool_inv W contents E L x' p'"
            by (rule put_warm [OF inv2 e(3), of inst]) (use res Inr h(1) e(1,2) x' in simp_all)
          then show ?thesis using x' res(1) n3 i2 by simp
        qed
      qed
    qed
  qed
qed

lemma drain_result:
  assumes "drain t chan x p = (x', p')" and "accounts E (M + replicate_mset (length chan) t) x" and "length chan \<le> unat (warm_total p)"
  shows "accounts E M x' \<and> instances x' = instances x \<and> next_instance_id x' = next_instance_id x \<and> module_cache x' = module_cache x
    \<and> pools p' = pools p \<and> pool_cfg p' = pool_cfg p \<and> unat (warm_total p') = unat (warm_total p) - length chan"
  using assms
proof (induction chan arbitrary: x p)
  case (Cons inst chan)
  let ?x = "release_instance_slot t x" and ?p = "count_drop (p\<lparr>warm_total := warm_total p - 1\<rparr>)"
  have "accounts E (M + replicate_mset (length chan) t) ?x" using release_accounts(2) [OF Cons.prems(2), of t] by simp
  moreover have "unat (warm_total ?p) = unat (warm_total p) - 1" using Cons.prems(3) unat_minus_one [of "warm_total p"] by (simp add: count_drop_def)
  ultimately show ?case using Cons.IH [of ?x ?p] Cons.prems by (simp add: count_drop_def)
qed simp

lemma shutdown_entries_result:
  assumes "shutdown_entries es x p = (x', p')" and "pool_inv W contents E L x p"
    and "distinct (map fst es)" and "\<forall>(k, entry) \<in> set es. map_of (pools p) k = Some entry"
  shows "pool_inv W contents E L x' p' \<and> instances x' = instances x \<and> next_instance_id x' = next_instance_id x \<and> pool_cfg p' = pool_cfg p
    \<and> (\<forall>k. map_of (pools p') k = (if k \<in> fst ` set es then map_option (channel_update (\<lambda>_. [])) (map_of (pools p) k) else map_of (pools p) k))"
  using assms
proof (induction es arbitrary: x p)
  case (Cons a es)
  obtain k entry where a: "a = (k, entry)" by fastforce
  note inv = Cons.prems(2)
  have e: "map_of (pools p) k = Some entry" using Cons.prems(4) a by simp
  obtain x1 p1 where d: "drain (fst k) (channel entry) x p = (x1, p1)" by fastforce
  let ?entry = "entry\<lparr>channel := []\<rparr>"
  let ?p = "p1\<lparr>pools := AList.update k ?entry (pools p)\<rparr>"
  have w: "warm (pools p) = warm (pools ?p) + replicate_mset (length (channel entry)) (fst k)"
    using warm_update [OF e, of ?entry] by simp
  have "accounts E ((registered x + warm (pools ?p) + L) + replicate_mset (length (channel entry)) (fst k)) x"
    "length (channel entry) \<le> unat (warm_total p)"
    using inv w by (simp_all add: pool_inv_def ac_simps)
  note dr = drain_result [OF d this]
  have "pool_entry_ok W k ?entry" using inv map_of_SomeD [OF e] by (auto simp: pool_inv_def pool_entry_ok_def)
  then have "\<forall>(k, entry) \<in> set (pools ?p). pool_entry_ok W k entry"
    using inv update_subset [of k ?entry "pools p"] by (auto simp: pool_inv_def)
  moreover have "distinct (map fst (pools ?p))" using inv by (simp add: pool_inv_def distinct_update)
  moreover have "unat (warm_total ?p) = size (warm (pools ?p) + L)" using dr inv w by (simp add: pool_inv_def)
  ultimately have inv1: "pool_inv W contents E L x1 ?p"
    using dr inv by (intro pool_inv_same_registry [OF inv]) (simp_all add: pool_inv_def cache_sound_def)
  have s: "shutdown_entries es x1 ?p = (x', p')" using Cons.prems(1) a d dr by simp
  have "\<forall>(k', entry) \<in> set es. map_of (pools ?p) k' = Some entry" using Cons.prems(3,4) a by (auto simp: update_conv' rev_image_eqI)
  note IH = Cons.IH [OF s inv1 _ this]
  have "k \<notin> fst ` set es" using Cons.prems(3) a by simp
  then show ?case using IH Cons.prems(3) a dr e by (auto simp: update_conv')
qed simp

lemma shutdown_result:
  assumes inv: "pool_inv W contents E L x p" and s: "shutdown x p = (x', p')"
  shows "pool_inv W contents E L x' p' \<and> instances x' = instances x \<and> next_instance_id x' = next_instance_id x \<and> pool_cfg p' = pool_cfg p
    \<and> warm (pools p') = {#}"
proof -
  have d: "distinct (map fst (pools p))" using inv by (simp add: pool_inv_def)
  then have "\<forall>(k, entry) \<in> set (pools p). map_of (pools p) k = Some entry" by auto
  note r = shutdown_entries_result [OF s [unfolded shutdown_def] inv d this]
  have "channel entry = []" if "(k, entry) \<in> set (pools p')" for k entry
  proof -
    have "map_of (pools p') k = Some entry" using that r by (simp add: pool_inv_def)
    moreover have "map_of (pools p') k = (if k \<in> fst ` set (pools p) then map_option (channel_update (\<lambda>_. [])) (map_of (pools p) k) else map_of (pools p) k)"
      using r by blast
    moreover have "map_of (pools p) k \<noteq> None \<longrightarrow> k \<in> fst ` set (pools p)" by (simp add: map_of_eq_None_iff)
    ultimately show ?thesis by (cases "map_of (pools p) k") (auto split: if_splits)
  qed
  then have "concat (map (\<lambda>(k, entry). replicate (length (channel entry)) (fst k)) (pools p')) = []" by auto
  then show ?thesis using r by (simp add: warm_def)
qed

section \<open>The invariant of a history\<close>

definition handles_ok :: "('c, 'm) executor \<Rightarrow> (pooled_instance \<times> spawn_config) set \<Rightarrow> bool" where
  "handles_ok x H \<longleftrightarrow> (\<forall>(h, sc) \<in> H. unat (pooled_id h) < unat (next_instance_id x)
     \<and> (origin h = None \<or> spawn_input sc = [] \<and> spawn_streaming sc = None)
     \<and> (\<forall>inst. map_of (instances x) (pooled_id h) = Some inst \<longrightarrow> inst_tenant inst = spawn_tenant sc))"

lemma handles_shrink:
  assumes "handles_ok x H" and "next_instance_id x' = next_instance_id x" and "H' \<subseteq> H"
    and "\<And>j inst'. map_of (instances x') j = Some inst' \<Longrightarrow> \<exists>inst. map_of (instances x) j = Some inst \<and> inst_tenant inst' = inst_tenant inst"
  shows "handles_ok x' H'"
  unfolding handles_ok_def
proof clarify
  fix h sc assume "(h, sc) \<in> H'"
  then have "(h, sc) \<in> H" using assms(3) by blast
  then have "unat (pooled_id h) < unat (next_instance_id x)" "origin h = None \<or> spawn_input sc = [] \<and> spawn_streaming sc = None"
    "\<forall>inst. map_of (instances x) (pooled_id h) = Some inst \<longrightarrow> inst_tenant inst = spawn_tenant sc"
    using assms(1) unfolding handles_ok_def by blast+
  then show "unat (pooled_id h) < unat (next_instance_id x') \<and> (origin h = None \<or> spawn_input sc = [] \<and> spawn_streaming sc = None)
      \<and> (\<forall>inst. map_of (instances x') (pooled_id h) = Some inst \<longrightarrow> inst_tenant inst = spawn_tenant sc)"
    using assms(2) assms(4) [of "pooled_id h"] by fastforce
qed

lemma ids_shrink:
  assumes "ids_below x" and "next_instance_id x' = next_instance_id x" and "fst ` set (instances x') \<subseteq> fst ` set (instances x)"
  shows "ids_below x'"
  unfolding ids_below_def assms(2)
proof
  fix i assume "i \<in> fst ` set (instances x')"
  with assms(3) have "i \<in> fst ` set (instances x)" by (rule subsetD)
  then show "unat i < unat (next_instance_id x)" using assms(1) unfolding ids_below_def by (rule bspec [rotated])
qed

lemma delete_sublist:
  shows "map_of (AList.delete i xs) j = Some v \<Longrightarrow> map_of xs j = Some v" and "fst ` set (AList.delete i xs) \<subseteq> fst ` set xs"
  by (simp add: delete_conv' split: if_splits) (auto simp: AList.delete_eq)

lemma handles_registers:
  assumes "handles_ok x H" and reg: "registers x x' i inst" and "ids_below x" and "unat (next_instance_id x) + 1 < 2 ^ 64"
  shows "handles_ok x' H"
  unfolding handles_ok_def
proof clarify
  fix h sc assume "(h, sc) \<in> H"
  then have h: "unat (pooled_id h) < unat (next_instance_id x)" "origin h = None \<or> spawn_input sc = [] \<and> spawn_streaming sc = None"
    "\<forall>inst. map_of (instances x) (pooled_id h) = Some inst \<longrightarrow> inst_tenant inst = spawn_tenant sc"
    using assms(1) unfolding handles_ok_def by blast+
  have "pooled_id h \<noteq> i" using h(1) reg by (auto simp: registers_def unat_u64_as_u128)
  then have "map_of (instances x') (pooled_id h) = map_of (instances x) (pooled_id h)"
    using reg by (simp add: registers_def map_add_def split: option.splits)
  then show "unat (pooled_id h) < unat (next_instance_id x') \<and> (origin h = None \<or> spawn_input sc = [] \<and> spawn_streaming sc = None)
      \<and> (\<forall>inst. map_of (instances x') (pooled_id h) = Some inst \<longrightarrow> inst_tenant inst = spawn_tenant sc)"
    using h registers_ids(4) [OF reg assms(3,4)] by simp
qed

lemma handles_insert:
  assumes "handles_ok x H" and reg: "registers x x' (pooled_id h) inst" and "ids_below x" and "unat (next_instance_id x) + 1 < 2 ^ 64"
    and "inst_tenant inst = spawn_tenant sc" and "origin h = None \<or> spawn_input sc = [] \<and> spawn_streaming sc = None"
  shows "handles_ok x' (insert (h, sc) H)"
proof -
  have "unat (pooled_id h) = unat (next_instance_id x)" using reg by (simp add: registers_def unat_u64_as_u128)
  then show ?thesis
    using handles_registers [OF assms(1-4)] registers_ids(3,4) [OF reg assms(3,4)] assms(5,6) by (auto simp: handles_ok_def)
qed

definition history_inv ::
    "('c, 'm) runtime \<Rightarrow> ('c \<Rightarrow> bytes \<rightharpoonup> 'm) \<Rightarrow> engine_config \<Rightarrow> instance_pool_config \<Rightarrow> ('c, 'm) executor \<Rightarrow> 'm instance_pool
     \<Rightarrow> (pooled_instance \<times> spawn_config) set \<Rightarrow> tenant_id multiset \<Rightarrow> bool" where
  "history_inv W contents E cfg x p H L \<longleftrightarrow> pool_inv W contents E L x p \<and> ids_below x \<and> handles_ok x H \<and> pool_cfg p = cfg"

text \<open>The steps that remove instances or change them in place, and those that register one.\<close>

lemma history_shrink:
  assumes "history_inv W contents E cfg x p H L" and "pool_inv W contents E L' x' p'" and "pool_cfg p' = pool_cfg p"
    and "next_instance_id x' = next_instance_id x" and "H' \<subseteq> H" and "fst ` set (instances x') \<subseteq> fst ` set (instances x)"
    and "\<And>j inst'. map_of (instances x') j = Some inst' \<Longrightarrow> \<exists>inst. map_of (instances x) j = Some inst \<and> inst_tenant inst' = inst_tenant inst"
  shows "history_inv W contents E cfg x' p' H' L'"
  using assms handles_shrink [of x H x' H'] ids_shrink [of x x'] unfolding history_inv_def by blast

lemma history_delete:
  assumes "history_inv W contents E cfg x p H L" and "pool_inv W contents E L x' p'" and "pool_cfg p' = pool_cfg p" and "H' \<subseteq> H"
    and "instances x' = AList.delete i (instances x)" and "next_instance_id x' = next_instance_id x"
  shows "history_inv W contents E cfg x' p' H' L"
proof (rule history_shrink [OF assms(1-3,6,4)])
  show "fst ` set (instances x') \<subseteq> fst ` set (instances x)" using delete_sublist(2) assms(5) by metis
  show "\<exists>inst. map_of (instances x) j = Some inst \<and> inst_tenant inst' = inst_tenant inst"
    if "map_of (instances x') j = Some inst'" for j inst'
    using delete_sublist(1) [of i "instances x" j inst'] that assms(5) by simp
qed

lemma history_acquired:
  assumes W: "runtime_ok W contents" and inv: "history_inv W contents E cfg x p H L" and room: "has_room x p"
    and a: "acquire W E sc wasm boots b x p = Some (x', p', r)"
  shows "case r of Inl e \<Rightarrow> history_inv W contents E cfg x' p' H (L + leaked sc p p') | Inr h \<Rightarrow> history_inv W contents E cfg x' p' (insert (h, sc) H) L"
proof -
  have i: "pool_inv W contents E L x p" "ids_below x" "handles_ok x H" "pool_cfg p = cfg" using inv by (simp_all add: history_inv_def)
  note res = acquire_result [OF W i(1,2) room a]
  have n: "unat (next_instance_id x) + 1 < 2 ^ 64" using room by (simp add: has_room_def)
  show ?thesis
  proof (cases r)
    case (Inl e)
    then show ?thesis using res i by (simp add: history_inv_def ids_below_def handles_ok_def)
  next
    case (Inr h)
    then obtain inst where reg: "registers x x' (pooled_id h) inst" and "serves W E sc wasm inst" using res by auto
    then have "inst_tenant inst = spawn_tenant sc" by (simp add: serves_def)
    then show ?thesis using res i(4) Inr registers_ids(1) [OF reg i(2) n] handles_insert [OF i(3) reg i(2) n] by (simp add: history_inv_def)
  qed
qed

lemma history_spawned:
  assumes W: "runtime_ok W contents" and inv: "history_inv W contents E cfg x p H L" and room: "has_room x p"
    and sp: "spawn_instance W E sc wasm b x = Some (x', s)"
  shows "history_inv W contents E cfg x' p H L"
proof -
  have i: "pool_inv W contents E L x p" "ids_below x" "handles_ok x H" "pool_cfg p = cfg" using inv by (simp_all add: history_inv_def)
  have n: "unat (next_instance_id x) + 1 < 2 ^ 64" "Suc (size (registered x + warm (pools p) + L)) < 2 ^ 64"
    using room pool_inv_room(1) [OF i(1) room] by (simp_all add: has_room_def)
  obtain r where f: "fall_through W E sc wasm b None x p = Some (x', p\<lparr>miss_count := miss_count p + 1\<rparr>, r)"
    using sp by (cases s) (auto simp: fall_through_def)
  note res = fall_through_result [OF W i(1,2) n(2) f]
  have p: "pool_inv W contents E L x' p" using res by (simp add: pool_inv_def)
  show ?thesis
  proof (cases r)
    case (Inl e)
    then show ?thesis using res p i by (simp add: history_inv_def ids_below_def handles_ok_def)
  next
    case (Inr h)
    then obtain inst where reg: "registers x x' (pooled_id h) inst" using res by auto
    show ?thesis using p i registers_ids(1) [OF reg i(2) n(1)] handles_registers [OF i(3) reg i(2) n(1)] by (simp add: history_inv_def)
  qed
qed

lemma history_released:
  assumes inv: "history_inv W contents E cfg x p H L" and "(h, sc) \<in> H" and r: "release W E sc shared b elapsed h x p = (x', p')"
  shows "history_inv W contents E cfg x' p' (H - {(h, sc)}) L"
proof -
  have i: "pool_inv W contents E L x p" "handles_ok x H" using inv by (simp_all add: history_inv_def)
  have h: "origin h = None \<or> spawn_input sc = [] \<and> spawn_streaming sc = None"
    "\<forall>inst. map_of (instances x) (pooled_id h) = Some inst \<longrightarrow> inst_tenant inst = spawn_tenant sc"
    using i(2) assms(2) unfolding handles_ok_def by blast+
  show ?thesis using release_result [OF i(1) h r] by (intro history_delete [OF inv]) auto
qed

lemma history_terminated:
  assumes inv: "history_inv W contents E cfg x p H L" and t: "terminate E i x = (x', r)"
  shows "history_inv W contents E cfg x' p H L"
  using terminate_result [OF _ t] inv by (intro history_delete [OF inv]) (auto simp: history_inv_def)

lemma history_invariant:
  assumes "pool_history W E cfg cache x p H L" and W: "runtime_ok W contents" and "contents cache = Map.empty"
  shows "history_inv W contents E cfg x p H L"
  using assms(1)
proof induction
  case started
  have "accounts E {#} (executor_new cache)" by (simp add: accounts_def executor_new_def within_caps_def tenant_count_def)
  then show ?case
    using assms(3) by (simp add: history_inv_def pool_inv_def executor_new_def instance_pool_new_def cache_sound_def registered_def ids_below_def handles_ok_def)
next
  case (acquired x p H L sc wasm boots b x' p' h)
  then show ?case using history_acquired [OF W acquired.IH acquired.hyps(2,3)] by simp
next
  case (acquire_failed x p H L sc wasm boots b x' p' e)
  then show ?case using history_acquired [OF W acquire_failed.IH acquire_failed.hyps(2,3)] by simp
next
  case (called x p H L i now guest x' r)
  then have "pool_inv W contents E L x p" by (simp add: history_inv_def)
  note res = call_result [OF this called.hyps(2)]
  show ?case by (rule history_shrink [OF called.IH]) (use res in auto)
next
  case (released x p H L h sc shared b elapsed x' p')
  show ?case by (rule history_released [OF released.IH released.hyps(2,3)])
next
  case (spawned x p H L sc wasm b x' s)
  show ?case by (rule history_spawned [OF W spawned.IH spawned.hyps(2,3)])
next
  case (terminated x p H L i x' u)
  show ?case by (rule history_terminated [OF terminated.IH terminated.hyps(2)])
next
  case (cancelled x p H L i)
  show ?case using history_terminated [OF cancelled.IH, of i "fst (terminate E i x)" "snd (terminate E i x)"] by (simp add: auto_terminate_as_terminate)
next
  case (shut_down x p H L x' p')
  then have "pool_inv W contents E L x p" by (simp add: history_inv_def)
  note res = shutdown_result [OF this shut_down.hyps(2)]
  show ?case by (rule history_shrink [OF shut_down.IH]) (use res in auto)
qed

section \<open>Properties\<close>

text \<open>
  C8: Whatever calls, releases, terminations, cancellations and shutdowns came before, an instance
  that \<open>acquire\<close> hands out belongs to the caller's tenant, carries the caller's streaming context
  and input, was compiled from bytes with the digest of the given module or of its rewriting, has
  not run any guest call, and has an id that no registered instance and no outstanding handle has.
\<close>

theorem pool_isolation:
  assumes "runtime_ok W contents" and "contents cache = Map.empty" and "pool_history W E cfg cache x p H L" and "has_room x p"
    and "acquire W E sc wasm boots b x p = Some (x', p', Ok h)"
  shows "\<exists>inst. map_of (instances x') (pooled_id h) = Some inst \<and> inst_id inst = pooled_id h \<and> serves W E sc wasm inst
    \<and> map_of (instances x) (pooled_id h) = None \<and> pooled_id h \<notin> (pooled_id \<circ> fst) ` H"
proof -
  have inv: "pool_inv W contents E L x p" "ids_below x" "handles_ok x H" using history_invariant [OF assms(3,1,2)] by (simp_all add: history_inv_def)
  have n: "unat (next_instance_id x) + 1 < 2 ^ 64" using assms(4) by (simp add: has_room_def)
  from acquire_result [OF assms(1) inv(1,2) assms(4,5)]
  obtain inst where reg: "registers x x' (pooled_id h) inst" and sv: "serves W E sc wasm inst" by auto
  have "unat (pooled_id h) = unat (next_instance_id x)" using reg by (simp add: registers_def unat_u64_as_u128)
  then have "pooled_id h \<notin> (pooled_id \<circ> fst) ` H" using inv(3) by (auto simp: handles_ok_def)
  then show ?thesis using registers_ids(2,3) [OF reg inv(2) n] reg sv by (auto simp: registers_def)
qed

text \<open>
  C9: Along every history the instance count is the number of registered instances plus the warm
  count, the warm count is the number of instances in the channels plus the slots that failed
  pre-warm loops lost, and both stay within the engine's cap and, for each tenant, within the
  tenant's cap.
\<close>

theorem pool_accounting:
  assumes "runtime_ok W contents" and "contents cache = Map.empty" and "pool_history W E cfg cache x p H L"
  shows "unat (instance_count x) = length (instances x) + unat (warm_total p)
    \<and> unat (warm_total p) = size (warm (pools p)) + size L
    \<and> (\<forall>limit. max_instances E = Some limit \<longrightarrow> instance_count x \<le> limit)
    \<and> (\<forall>limit t. max_instances_per_tenant E = Some limit \<longrightarrow>
         tenant_count t (tenant_counts x) = count (registered x + warm (pools p) + L) t \<and> tenant_count t (tenant_counts x) \<le> unat limit)"
  using history_invariant [OF assms(3,1,2)]
  by (auto simp: history_inv_def pool_inv_def accounts_def within_caps_def registered_def word_le_nat_alt)

text \<open>
  After a history in which no pre-warm loop failed, \<open>shutdown\<close> empties every channel and leaves
  exactly the slots of the registered instances charged.
\<close>

theorem shutdown_restores:
  assumes "runtime_ok W contents" and "contents cache = Map.empty" and "pool_history W E cfg cache x p H {#}" and "shutdown x p = (x', p')"
  shows "warm (pools p') = {#} \<and> warm_total p' = 0 \<and> instances x' = instances x \<and> unat (instance_count x') = length (instances x')"
proof -
  have "pool_inv W contents E {#} x p" using history_invariant [OF assms(3,1,2)] by (simp add: history_inv_def)
  note r = shutdown_result [OF this assms(4)]
  then show ?thesis by (auto simp: pool_inv_def accounts_def registered_def unat_eq_zero)
qed

section \<open>Deadlines of warm instances\<close>

text \<open>
  C34: A draw from the channel keeps the deadline its instance was built with: the call it is used
  for is armed with that one, and the caller's own deadline has no part in it.
\<close>

theorem warm_hit_deadline:
  assumes "runtime_ok W contents" and "contents cache = Map.empty" and "pool_history W E cfg cache x p H L"
    and "spawn_streaming sc = None" "spawn_input sc = []"
    and "map_of (pools p) (spawn_tenant sc, digest W wasm) = Some entry" and "channel entry = warm_inst # rest"
  shows "\<exists>x' p' h inst. acquire W E sc wasm boots b x p = Some (x', p', Ok h) \<and> map_of (instances x') (pooled_id h) = Some inst
    \<and> hard_deadline (arm_call E now inst) = map_option (\<lambda>d. now + d) (effective_call_budget E (deadline_duration warm_inst))"
proof -
  have below: "ids_below x" using history_invariant [OF assms(3,1,2)] by (simp add: history_inv_def)
  define i :: u128 where "i = ucast (next_instance_id x)"
  have v: "map_of (instances x) i = None" using next_id_vacant [OF below] by (simp add: i_def)
  show ?thesis
    using register_next [OF below, of warm_inst, folded i_def] v assms(4-7)
    by (auto simp: acquire_def ensure_entry_def Let_def arm_call_def map_add_def)
qed

section \<open>A pre-warm loop that runs into the cap\<close>





section \<open>Witnesses\<close>

text \<open>
  A runtime over one module, with an association list as the cache; an engine with four slots; a pool
  that keeps one warm instance; and two tenants.
\<close>

definition demo_runtime :: "((bytes \<times> unit) list, unit) runtime" where
  "demo_runtime =
     \<lparr>digest = (\<lambda>wasm. take 1 wasm), raw_memories = (\<lambda>_. []), from_binary = (\<lambda>_. Ok ()), module_memories = (\<lambda>_. []),
      lru_get = (\<lambda>k c. (c, map_of c k)), lru_put = AList.update, has_jit_cache = False,
      analyse_offload = (\<lambda>_. Err []), rewrite_wasm = (\<lambda>_ _. Err [])\<rparr>"

definition demo_engine :: "u64 \<Rightarrow> engine_config" where
  "demo_engine limit =
     \<lparr>max_memory_bytes = 65536, epoch_tick = 10 ^ 7, backend = UnifiedBuffer, max_instances = Some limit, max_module_bytes = 8,
      auto_offload = False, max_instances_per_tenant = None, max_call_duration = None, ticker_running = True\<rparr>"

definition demo_boot :: boot where
  "demo_boot = \<lparr>boot_started = 0, boot_finished = 0, boot_failure = None\<rparr>"

definition demo_pool_config :: "nat \<Rightarrow> instance_pool_config" where
  "demo_pool_config n = \<lparr>warm_instances_per_tuple = n, max_total_warm = 0\<rparr>"

definition demo_instance :: "u128 \<Rightarrow> unit tw_instance" where
  "demo_instance i =
     \<lparr>inst_tenant = 1, inst_id = i, inst_deadline = None, deadline_duration = None, hard_deadline = None, memory_limit = 65536,
      inst_streaming = None, inst_input = [], inst_module = (), guest_calls = 0\<rparr>"

lemma demo_runtime_ok: "runtime_ok demo_runtime map_of"
  by (simp add: runtime_ok_def demo_runtime_def update_conv')

lemma demo_started: "pool_history W E cfg [] (executor_new []) (instance_pool_new cfg) {} {#}"
  by (rule pool_history.started)


text \<open>The first draw, its release, and a draw of the other tenant.\<close>

abbreviation demo_wasm :: bytes where
  "demo_wasm \<equiv> [7, 1]"

abbreviation demo_handle :: pooled_instance where
  "demo_handle \<equiv> \<lparr>pooled_id = 1, origin = Some [7]\<rparr>"

definition demo_executor :: "(u128 \<times> unit tw_instance) list \<Rightarrow> ((bytes \<times> unit) list, unit) executor" where
  "demo_executor is = \<lparr>instances = is, next_instance_id = 2, module_cache = [([7], ())], instance_count = 1, tenant_counts = []\<rparr>"

definition demo_entries :: "unit tw_instance list \<Rightarrow> unit instance_pool" where
  "demo_entries chan =
     \<lparr>pool_cfg = demo_pool_config 1, pools = [((1, [7]), \<lparr>channel = chan, entry_module = (), entry_capacity = 1\<rparr>)],
      warm_total = of_nat (length chan), draws_total = 1, hit_count = 1, miss_count = 0, drops_total = 0\<rparr>"

lemma allocate_vacant:
  "map_of (instances x) (ucast (next_instance_id x) :: u128) = None
   \<Longrightarrow> allocate_instance_id x = Some (x\<lparr>next_instance_id := next_instance_id x + 1\<rparr>, ucast (next_instance_id x))"
  by (subst allocate_instance_id.simps) (simp add: Let_def)

lemmas demo_defs = demo_runtime_def demo_engine_def demo_boot_def demo_pool_config_def demo_instance_def demo_executor_def demo_entries_def
  for_tenant_def executor_new_def instance_pool_new_def

lemmas demo_steps = acquire_def ensure_entry_def build_entry_def capture_module_def channel_capacity_def at_warm_cap_def
  build_pooled_instance_with_hash_def rebuild_pooled_from_module_def check_raw_module_memory_within_cap_def check_module_memory_within_cap_def
  charge_instance_slot_def charge_tenant_def compile_module_cached_with_hash_def compile_uncached_def instantiate_detached_def
  effective_memory_cap_def effective_call_budget_def register_pooled_instance_def allocate_vacant Let_def

lemma demo_first:
  "acquire demo_runtime (demo_engine 4) (for_tenant 1) demo_wasm (\<lambda>_. demo_boot) demo_boot (executor_new []) (instance_pool_new (demo_pool_config 1))
   = Some (demo_executor [(1, demo_instance 1)], demo_entries [], Ok demo_handle)"
  by (simp add: demo_defs demo_steps)

lemma demo_release:
  "release demo_runtime (demo_engine 4) (for_tenant 1) False demo_boot 0 demo_handle (demo_executor [(1, demo_instance 1)]) (demo_entries [])
   = (demo_executor [], demo_entries [demo_instance 0])"
  by (simp add: demo_defs demo_steps release_def detach_pooled_instance_def release_instance_slot_def decrement_tenant_count_def POOL_RESET_DEADLINE_def)

lemma demo_pool_history:
  "pool_history demo_runtime (demo_engine 4) (demo_pool_config 1) [] (demo_executor [(1, demo_instance 1)]) (demo_entries []) {(demo_handle, for_tenant 1)} {#}"
  "pool_history demo_runtime (demo_engine 4) (demo_pool_config 1) [] (demo_executor []) (demo_entries [demo_instance 0]) {} {#}"
proof -
  have "has_room (executor_new [] :: ((bytes \<times> unit) list, unit) executor) (instance_pool_new (demo_pool_config 1) :: unit instance_pool)"
    by (simp add: has_room_def demo_defs)
  from pool_history.acquired [OF demo_started this demo_first]
  show one: "pool_history demo_runtime (demo_engine 4) (demo_pool_config 1) [] (demo_executor [(1, demo_instance 1)]) (demo_entries []) {(demo_handle, for_tenant 1)} {#}" .
  from pool_history.released [OF one _ demo_release]
  show "pool_history demo_runtime (demo_engine 4) (demo_pool_config 1) [] (demo_executor []) (demo_entries [demo_instance 0]) {} {#}" by simp
qed

lemma demo_second:
  "\<exists>x' p'. acquire demo_runtime (demo_engine 4) (for_tenant 2) demo_wasm (\<lambda>_. demo_boot) demo_boot
     (demo_executor [(1, demo_instance 1)]) (demo_entries []) = Some (x', p', Ok \<lparr>pooled_id = 2, origin = Some [7]\<rparr>)"
  by (simp add: demo_defs demo_steps)

theorem pool_isolation_witness:
  "pool_history demo_runtime (demo_engine 4) (demo_pool_config 1) [] (demo_executor [(1, demo_instance 1)]) (demo_entries []) {(demo_handle, for_tenant 1)} {#}
   \<and> (\<exists>x' p' inst. acquire demo_runtime (demo_engine 4) (for_tenant 2) demo_wasm (\<lambda>_. demo_boot) demo_boot
         (demo_executor [(1, demo_instance 1)]) (demo_entries []) = Some (x', p', Ok \<lparr>pooled_id = 2, origin = Some [7]\<rparr>)
       \<and> map_of (instances x') 2 = Some inst \<and> serves demo_runtime (demo_engine 4) (for_tenant 2) demo_wasm inst)"
proof -
  obtain x' p' where a: "acquire demo_runtime (demo_engine 4) (for_tenant 2) demo_wasm (\<lambda>_. demo_boot) demo_boot
     (demo_executor [(1, demo_instance 1)]) (demo_entries []) = Some (x', p', Ok \<lparr>pooled_id = 2, origin = Some [7]\<rparr>)"
    using demo_second by blast
  have room: "has_room (demo_executor [(1, demo_instance 1)]) (demo_entries [])" by (simp add: has_room_def demo_defs)
  from pool_isolation [OF demo_runtime_ok _ demo_pool_history(1) room a] show ?thesis using demo_pool_history(1) a by auto
qed

theorem pool_accounting_witness:
  "pool_history demo_runtime (demo_engine 4) (demo_pool_config 1) [] (demo_executor []) (demo_entries [demo_instance 0]) {} {#}
   \<and> unat (instance_count (demo_executor [])) = 0 + 1 \<and> size (warm (pools (demo_entries [demo_instance 0]))) = 1
   \<and> instance_count (demo_executor []) \<le> 4"
  using pool_accounting [OF demo_runtime_ok _ demo_pool_history(2)] demo_pool_history(2) by (simp add: demo_defs)

theorem shutdown_restores_witness:
  "let (x', p') = shutdown (demo_executor []) (demo_entries [demo_instance 0])
   in unat (instance_count x') = 0 \<and> warm (pools p') = {#}"
proof -
  obtain x' p' where s: "shutdown (demo_executor []) (demo_entries [demo_instance 0]) = (x', p')" by fastforce
  from shutdown_restores [OF demo_runtime_ok _ demo_pool_history(2) s] show ?thesis using s by (simp add: demo_executor_def)
qed

theorem warm_hit_deadline_witness:
  "\<exists>x' p' h inst. acquire demo_runtime (demo_engine 4) ((for_tenant 1)\<lparr>spawn_deadline := Some 5\<rparr>) demo_wasm (\<lambda>_. demo_boot) demo_boot
       (demo_executor []) (demo_entries [demo_instance 0]) = Some (x', p', Ok h)
     \<and> map_of (instances x') (pooled_id h) = Some inst \<and> hard_deadline (arm_call (demo_engine 4) 100 inst) = None"
proof -
  let ?sc = "(for_tenant 1)\<lparr>spawn_deadline := Some 5\<rparr>"
  have sc: "spawn_streaming ?sc = None" "spawn_input ?sc = []" by (simp_all add: for_tenant_def)
  have e: "map_of (pools (demo_entries [demo_instance 0])) (spawn_tenant ?sc, digest demo_runtime demo_wasm)
      = Some \<lparr>channel = [demo_instance 0], entry_module = (), entry_capacity = 1\<rparr>"
    by (simp add: demo_entries_def for_tenant_def demo_runtime_def)
  have b: "effective_call_budget (demo_engine 4) (deadline_duration (demo_instance 0)) = None"
    by (simp add: effective_call_budget_def demo_engine_def demo_instance_def)
  from warm_hit_deadline [OF demo_runtime_ok _ demo_pool_history(2) sc e, of "demo_instance 0" "[]" "\<lambda>_. demo_boot" demo_boot 100]
  show ?thesis by (simp add: b)
qed


end
