(* ===== verification/Spec2Isabelle.thy ===== *)
theory Spec2Isabelle
  imports Tenant_Registry Gpu_Launch_Safety Memory_Pool Token_Scope Gpu_Scheduler Gpu_Streaming Gpu_Dispatch Jit_Cache
    Snapshot_Safety Artifact_Contract Pool_Safety
begin

text \<open>
  A verification development of craton-tensor-wasm, a runtime that runs WebAssembly guests of many
  tenants in one process and lets them use a GPU. File names are relative to \<^verbatim>\<open>src/crates\<close>; a
  definition has the name of the function or type it translates.

  \<^bold>\<open>How the parts interact.\<close> A request carries a bearer token whose scope names the tenants it may act
  for. The tenant registry holds one context per tenant, with its quotas and its rate limiter. The
  executor admits an instance under the engine's and the tenant's cap, takes it warm from the
  instance pool or builds it, and runs one export. The guest calls back into the host functions of
  wasi-cuda, which check every pointer and handle, keep the kernel and device-memory registries,
  take a permit of the back-pressure gate and call the CUDA driver; it streams output and reads
  input through the streaming functions. Compiled kernels live in the JIT cache. Its disk tier and
  the snapshots of instances share the signed artifact store.

  \<^bold>\<open>Shared ground.\<close>
    \<^item> \<open>Rust_Prelude\<close>: machine integers as words, checked and saturating arithmetic, \<open>Result\<close>.
    \<^item> \<open>Byte_Codec\<close>, \<open>Utf8_Text\<close>, \<open>Rust_Str\<close>: little-endian codecs, UTF-8 boundaries, functions of \<open>str\<close>.
    \<^item> \<open>Cas_Loop\<close>: the compare-and-swap loop with its accesses interleaved, and the locales
      \<open>capped_counter\<close> and \<open>cas_ledger\<close>, interpreted by the byte counters of the registries and by the
      tenant quotas. It justifies treating such a loop as one access elsewhere.
    \<^item> \<open>Gpu_Abi\<close> (\<^verbatim>\<open>tensor-wasm-wasi-gpu/src/abi.rs\<close>): error codes and caps, and the locales \<open>owned_table\<close> and
      \<open>freeable_table\<close> of owner-checked handles, interpreted by both registries.

  \<^bold>\<open>Tenants.\<close>
    \<^item> \<open>Core_Error\<close> (\<^verbatim>\<open>tensor-wasm-core/src/error.rs\<close>): errors, content hash, redaction. Redaction is shown to
      mask exactly the tokens of the documented shapes.
    \<^item> \<open>Token_Bucket\<close> and \<open>Tenant_Context\<close> (\<^verbatim>\<open>tensor-wasm-tenant/src/context.rs\<close>): the rate limiter, the quota
      loops, the builder. The loops refine an ideal ledger on naturals under every interleaving and
      never exceed the quota; the bucket never grants more than its balance and refill.
    \<^item> \<open>Tenant_Registry\<close> (\<^verbatim>\<open>tensor-wasm-tenant/src/registry.rs\<close>): contexts as addresses with reference counts;
      registration, eviction into tombstones, pruning. At most one live context per tenant.
    \<^item> \<open>Token_Scope\<close> (\<^verbatim>\<open>tensor-wasm-api/src/token_scope.rs\<close>): the token list parser and its round trip.

  \<^bold>\<open>The GPU interface\<close> (\<^verbatim>\<open>tensor-wasm-wasi-gpu/src\<close>).
    \<^item> \<open>Kernel_Registry\<close> (\<^verbatim>\<open>registry.rs\<close>) and \<open>Device_Memory\<close> (\<^verbatim>\<open>device_mem.rs\<close>): handle tables under caps. The
      second is also modelled access by access for any number of overlapping calls; the caps, the
      exactness of the counters and the separation of instances are shown there.
    \<^item> \<open>Kernel_Args\<close> (\<^verbatim>\<open>kernel_args.rs\<close>): parser, encoder and parameter block; the parser accepts exactly the
      encodings of in-bounds arguments.
    \<^item> \<open>Gpu_Messages\<close>, \<open>Gpu_Host\<close> (\<^verbatim>\<open>host.rs\<close>): every host function on a record of the instance's state, with the
      driver calls logged. \<open>Gpu_Host_Safety\<close> and \<open>Gpu_Launch_Safety\<close> show what the driver sees, what is
      written to guest memory, which launches are accepted and what the error channel returns.
    \<^item> \<open>Gpu_Scheduler\<close> and \<open>Gpu_Dispatch\<close> (\<^verbatim>\<open>async_dispatch.rs\<close>, \<^verbatim>\<open>scheduler.rs\<close>): the permits with every access of the
      acquire operations interleaved, deadlines and yield, and the completion future against the
      driver's callback.
    \<^item> \<open>Gpu_Streaming\<close> (\<^verbatim>\<open>streaming.rs\<close>): emitted chunks under the cap, and the staged input.
    \<^item> \<open>Memory_Pool\<close> (\<^verbatim>\<open>tensor-wasm-mem/src/pool.rs\<close>): the bump allocator; regions are disjoint and zeroed.

  \<^bold>\<open>Executor\<close> (\<^verbatim>\<open>tensor-wasm-exec/src\<close>).
    \<^item> \<open>Exec_Executor\<close> (\<^verbatim>\<open>executor.rs\<close>, parts of \<^verbatim>\<open>engine.rs\<close> and \<^verbatim>\<open>instance.rs\<close>): admission, memory checks, building,
      registering and terminating instances, deadlines of calls.
    \<^item> \<open>Instance_Pool\<close> (\<^verbatim>\<open>instance_pool.rs\<close>): the channels of warm instances, \<open>acquire\<close>, \<open>release\<close>, \<open>shutdown\<close>, and
      \<open>invoke\<close> on top. \<open>Pool_Safety\<close> has the histories of both, and shows that a draw gets a fresh
      instance of its own tenant, module, input and stream, and that every slot is accounted for.

  \<^bold>\<open>Artifacts, kernels on disk, snapshots.\<close>
    \<^item> \<open>Artifact_Envelope\<close>, \<open>Artifact_Store\<close> (\<^verbatim>\<open>tensor-wasm-artifacts/src/lib.rs\<close>): the envelope codec and the
      stores, with every I/O failure as a branch. \<open>Artifact_Contract\<close> has the trait as the locale
      \<open>content_addressed\<close>, interpreted by the disk and the in-memory store.
    \<^item> \<open>Jit_Disk\<close>, \<open>Jit_Cache\<close> (\<^verbatim>\<open>tensor-wasm-jit/src/cache.rs\<close>): keys, sidecars, collection, and the in-memory
      tier. The eviction loops are partial functions that are shown to return.
    \<^item> \<open>Snapshot_Writer\<close>, \<open>Snapshot_Reader\<close>, \<open>Snapshot_Safety\<close> (\<^verbatim>\<open>tensor-wasm-snapshot/src\<close>): capture and restore in
      every form, authenticity and round trips. This theory adds the snapshots kept in a store.

  \<^bold>\<open>Parameters and hypotheses.\<close> Third-party code is a record of functions with a predicate that states
  what its documentation promises: \<open>crypto\<close> (BLAKE3, HMAC, zstd), \<open>snapshot_env\<close> (bincode, CRC,
  Ed25519, the AEAD cipher), \<open>lru_ops\<close>, the semaphore (\<open>counts_permits\<close>, with a cap that tokio's
  semaphore accepts), \<open>runtime\<close> (wasmtime, wasmparser, the LRU map; also the JIT's rewriter, of which
  nothing is assumed), and the CUDA \<open>driver\<close> with \<open>kernel_effect\<close> for what a kernel does to the memory.
  Fresh device pointers from the driver and unforged tags are named hypotheses of the theorems
  that need them. Each has a witness at a concrete instance.

  \<^bold>\<open>Bounds.\<close> Fewer than \<open>2\<^sup>6\<^sup>4\<close> handles, slots and instance ids are drawn in a history, at most \<open>2\<^sup>3\<^sup>2\<close>
  device-memory calls are in flight at once, and a stream's cap is at most \<open>2\<^sup>6\<^sup>3\<close>: more would take
  longer than the process lives or more memory than it can address. The rate bound needs a burst below
  \<open>u64::MAX / 10\<^sup>6\<close>, above which the code saturates. No function uses fuel: loops are structural or
  have a termination proof, and those that need not end are partial with \<open>None\<close> for not returning.
  Text formats are ASCII.

  \<^bold>\<open>Atomicity.\<close> Quotas, device memory, the memory pool, permits, streaming and the dispatch future are
  interleaved at each access to shared state. The operations of the registries, the stores, the
  kernel cache, the executor and the instance pool are one step each; the single-flight cells have
  no state then. The two passes of \<open>get_to\<close> over a file read the same content. Memory is sequentially
  consistent.

  \<^bold>\<open>Not modelled.\<close> The HTTP routes, middleware and audit log, the command line and the benchmarks are I/O
  around these parts. Metrics and tracing call exporters. The translation and rewriting of Wasm to
  PTX, the CUDA bindings, unified buffers, memory-mapped restore and GPU staging of snapshots, and
  the metadata sidecars of the file store are left out.
\<close>

section \<open>Snapshots kept in an artifact store\<close>

text \<open>
  C18: a snapshot kept in a store comes back. Once a capture has gone into an artifact store without a
  fault, any number of later puts, removals of other blobs and calls that fail half-way leave it
  there, and restoring it by its hash gives exactly the captured snapshot to every reader for which
  it is fresh and not replayed.
\<close>

theorem snapshot_survives_in_store:
  fixes clock clock' :: "nat option" and R :: snapshot_reader and ops :: "((io_op \<Rightarrow> bool) \<times> nat) store_op list"
  assumes "snapshot_env_ok E" and "store_ready store"
    and "capture_to_artifact_store E w clock no_faults now st store = (store', Ok hash)"
    and "build_snapshot_ref E w clock st = Ok s" and "list_all (leaves (env_crypto E) (bincode_encode E s)) ops"
    and "fresh R clock' (metadata s)" and "not_replayed R (metadata s)"
  shows "restore_from_artifact_store E R clock' no_faults
      (run_store (\<lambda>(io, now). store_put (env_crypto E) io now) (\<lambda>(io, now). store_remove (env_crypto E) io) ops store') hash = Ok s
    \<and> records_state w clock st s"
proof -
  let ?C = "env_crypto E" and ?p = "bincode_encode E s"
  note C = snapshot_env_okD(1) [OF assms(1)]
  have put: "store_put ?C no_faults now ?p store = (store', Ok hash)"
    using assms(3,4) by (auto simp: capture_to_artifact_store_def split: prod.splits sum.splits)
  have len: "length ?p \<le> MAX_PAYLOAD_LEN" using put by (auto simp: store_put_def split: if_splits)
  have h: "hash = blake3 ?C ?p" and s': "store' = fst (store_put ?C no_faults now ?p store)"
    using put store_put_stores(1) [OF C assms(2) len, of now] by simp_all
  have "store_get ?C no_faults hash
      (run_store (\<lambda>(io, now). store_put ?C io now) (\<lambda>(io, now). store_remove ?C io) ops store') = Ok ?p"
    using disk.stored_is_kept [OF C assms(2) _ len assms(5), of "(no_faults, now)"] by (simp add: h s')
  moreover obtain m where m: "build_metadata E w clock st = Ok m" "s = snapshot_of SNAPSHOT_VERSION_V2 st m"
    using assms(4) by (auto simp: build_snapshot_ref_def rbind_Ok_iff)
  note r = snapshot_of_records [OF m(1), of SNAPSHOT_VERSION_V2, folded m(2)]
  have "length ?p \<le> MAX_TOTAL_PAYLOAD_BYTES"
    using len by (simp add: MAX_PAYLOAD_LEN_def MAX_TOTAL_PAYLOAD_BYTES_def MAX_WASM_MEMORY_BYTES_def)
  from decode_payload_finds [OF assms(1) r(3,4) this r(2) assms(6,7)]
  have "decode_artifact_payload E R clock' ?p = Ok s" .
  ultimately show ?thesis using r(1) by (simp add: restore_from_artifact_store_def)
qed

theorem snapshot_survives_in_store_witness:
  "restore_from_artifact_store demo_snapshot_env demo_reader (Some 5000) no_faults
     (run_store (\<lambda>(io, now). store_put (env_crypto demo_snapshot_env) io now) (\<lambda>(io, now). store_remove (env_crypto demo_snapshot_env) io)
        [RemoveOp (no_faults, 6) []]
        (fst (capture_to_artifact_store demo_snapshot_env demo_writer None no_faults 5 demo_state demo_store)))
     (blake3 (env_crypto demo_snapshot_env) (bincode_encode demo_snapshot_env demo_snapshot)) = Ok demo_snapshot"
proof -
  let ?E = demo_snapshot_env and ?h = "blake3 (env_crypto demo_snapshot_env) (bincode_encode demo_snapshot_env demo_snapshot)"
  note C = snapshot_env_okD(1) [OF demo_snapshot_env_ok] and ready = constructors_ready(1) [of "[]" "[9]"]
  have len: "length (bincode_encode ?E demo_snapshot) \<le> MAX_PAYLOAD_LEN" by (simp add: length_demo_snapshot MAX_PAYLOAD_LEN_def)
  have b: "build_snapshot_ref ?E demo_writer None demo_state = Ok demo_snapshot" by (rule demo_built)
  have "snd (capture_to_artifact_store ?E demo_writer None no_faults 5 demo_state demo_store) = Ok ?h"
    using store_put_stores(1) [OF C ready len, of 5] b by (auto simp: capture_to_artifact_store_def split: prod.splits sum.splits)
  then have cap: "capture_to_artifact_store ?E demo_writer None no_faults 5 demo_state demo_store =
      (fst (capture_to_artifact_store ?E demo_writer None no_faults 5 demo_state demo_store), Ok ?h)" by (simp add: prod_eq_iff)
  have "?h \<noteq> []" using crypto_okD(1) [OF C] by (metis list.size(3) zero_neq_numeral)
  then have "list_all (leaves (env_crypto ?E) (bincode_encode ?E demo_snapshot)) [RemoveOp (no_faults, 6 :: nat) []]" by simp
  from snapshot_survives_in_store [OF demo_snapshot_env_ok ready cap b this demo_accepts(6,7)] show ?thesis by simp
qed

end
